(* ===== verification/C_Prelude.thy ===== *)
theory C_Prelude imports Main "HOL-Library.Word" begin

text \<open>
  What every component shares: the outcome of a piece of C code, the sequencing of effectful
  operations over an explicit state, the integer casts of the code at their width, bytes in
  memory (little-endian integers, NUL-terminated strings, \<^verbatim>\<open>memcpy\<close>) and the C library's
  string comparisons. The state type is a parameter of everything here.
\<close>

section \<open>Collections of facts\<close>

named_theorems run_simps \<open>equations that run an operation on a state\<close>
named_theorems inv_intros \<open>an operation keeps the invariant\<close>

section \<open>Outcomes and sequencing\<close>

text \<open>
  An operation returns, or the process ends or stops in one of these ways:
  \<^item> \<open>Panic\<close>: the macro \<^verbatim>\<open>PANIC\<close> of \<^verbatim>\<open>utils/logging.h\<close> prints its message and exits;
  \<^item> \<open>Undef\<close>: undefined behaviour of C (an access outside an object, a NULL or dangling pointer,
    a string without its NUL byte, a division by zero);
  \<^item> \<open>Deadlock\<close>: a thread locks a mutex that nobody is left to unlock;
  \<^item> \<open>Blocked\<close>: a system call or a condition variable keeps the caller waiting for ever;
  \<^item> \<open>Exit\<close>: the process calls \<^verbatim>\<open>exit\<close> (or \<^verbatim>\<open>main\<close> returns) with that status.
\<close>

datatype 'a outcome = Ret 'a | Panic string | Undef | Deadlock | Blocked | Exit int

type_synonym ('s, 'a) prog = "'s \<Rightarrow> ('a \<times> 's) outcome"

definition ret :: "'a \<Rightarrow> ('s, 'a) prog" where
  "ret x = (\<lambda>s. Ret (x, s))"

definition bnd :: "('s, 'a) prog \<Rightarrow> ('a \<Rightarrow> ('s, 'b) prog) \<Rightarrow> ('s, 'b) prog" where
  "bnd m f = (\<lambda>s. case m s of
     Ret (x, s') \<Rightarrow> f x s'
   | Panic e \<Rightarrow> Panic e
   | Undef \<Rightarrow> Undef
   | Deadlock \<Rightarrow> Deadlock
   | Blocked \<Rightarrow> Blocked
   | Exit c \<Rightarrow> Exit c)"

abbreviation thn :: "('s, 'a) prog \<Rightarrow> ('s, 'b) prog \<Rightarrow> ('s, 'b) prog" where
  "thn m k \<equiv> bnd m (\<lambda>_. k)"

definition gets :: "('s \<Rightarrow> 'a) \<Rightarrow> ('s, 'a) prog" where
  "gets f = (\<lambda>s. Ret (f s, s))"

definition modify :: "('s \<Rightarrow> 's) \<Rightarrow> ('s, unit) prog" where
  "modify f = (\<lambda>s. Ret ((), f s))"

text \<open>\<^verbatim>\<open>ALWAYS_ASSERT\<close> of \<^verbatim>\<open>utils/betterassert.h\<close>: the message of the first failed assertion.\<close>

definition always_assert :: "bool \<Rightarrow> string \<Rightarrow> ('s, unit) prog" where
  "always_assert c msg = (\<lambda>s. if c then Ret ((), s) else Panic msg)"

text \<open>The condition under which C defines what comes next.\<close>

definition defined :: "bool \<Rightarrow> ('s, unit) prog" where
  "defined c = (\<lambda>s. if c then Ret ((), s) else Undef)"

lemma bnd_ret [simp]: "bnd (ret x) f = f x"
  by (simp add: bnd_def ret_def)

lemma bnd_assoc: "bnd (bnd m f) g = bnd m (\<lambda>x. bnd (f x) g)"
  by (simp add: bnd_def fun_eq_iff split: outcome.splits prod.splits)

lemma bnd_Ret [run_simps]: "m s = Ret (x, s') \<Longrightarrow> bnd m f s = f x s'"
  by (simp add: bnd_def)

lemma bnd_fails [run_simps]:
  "m s = Panic e \<Longrightarrow> bnd m f s = Panic e"
  "m s = Undef \<Longrightarrow> bnd m f s = Undef"
  "m s = Deadlock \<Longrightarrow> bnd m f s = Deadlock"
  "m s = Blocked \<Longrightarrow> bnd m f s = Blocked"
  "m s = Exit c \<Longrightarrow> bnd m f s = Exit c"
  by (simp_all add: bnd_def)

lemma ret_run [run_simps]: "ret x s = Ret (x, s)"
  by (simp add: ret_def)

lemma gets_run [run_simps]: "gets f s = Ret (f s, s)"
  by (simp add: gets_def)

lemma modify_run [run_simps]: "modify f s = Ret ((), f s)"
  by (simp add: modify_def)

lemma always_assert_run [run_simps]:
  "c \<Longrightarrow> always_assert c msg s = Ret ((), s)"
  "\<not> c \<Longrightarrow> always_assert c msg s = Panic msg"
  by (simp_all add: always_assert_def)

lemma defined_run [run_simps]:
  "c \<Longrightarrow> defined c s = Ret ((), s)"
  "\<not> c \<Longrightarrow> defined c s = Undef"
  by (simp_all add: defined_def)

lemma bnd_gets [simp]: "bnd (gets g) f s = f (g s) s"
  by (simp add: bnd_def gets_def)

lemma bnd_modify [simp]: "bnd (modify g) f s = f () (g s)"
  by (simp add: bnd_def modify_def)

lemma bnd_defined [simp]: "bnd (defined c) f s = (if c then f () s else Undef)"
  by (simp add: bnd_def defined_def)

lemma bnd_always_assert [simp]:
  "bnd (always_assert c msg) f s = (if c then f () s else Panic msg)"
  by (simp add: bnd_def always_assert_def)

lemma bnd_if:
  "bnd (if c then m1 else m2) f s = (if c then bnd m1 f s else bnd m2 f s)"
  by simp

lemma bnd_same: "(\<And>x t. m s = Ret (x, t) \<Longrightarrow> f x t = g x t) \<Longrightarrow> bnd m f s = bnd m g s"
  by (auto simp: bnd_def split: outcome.splits)

lemma bnd_RetE:
  assumes "bnd m f s = Ret (y, t)"
  obtains x s' where "m s = Ret (x, s')" and "f x s' = Ret (y, t)"
  using assms by (auto simp: bnd_def split: outcome.splits)

section \<open>Counted loops\<close>

text \<open>
  \<^verbatim>\<open>for (i = i0; i < n; i++) body\<close> whose body may return from the enclosing function: \<open>Some x\<close> is a
  body that returned \<open>x\<close>, \<open>None\<close> the loop run to its end. The distance to \<open>n\<close> shrinks.
\<close>

function for_loop :: "nat \<Rightarrow> nat \<Rightarrow> (nat \<Rightarrow> ('s, 'a option) prog) \<Rightarrow> ('s, 'a option) prog" where
  "for_loop i n body =
     (if i < n then
        bnd (body i) (\<lambda>r. case r of Some x \<Rightarrow> ret (Some x) | None \<Rightarrow> for_loop (Suc i) n body)
      else ret None)"
  by pat_completeness auto
termination
  by (relation "measure (\<lambda>(i, n, body). n - i)") auto

declare for_loop.simps [simp del]

text \<open>
  The loop that scans for the first index with \<open>P\<close>, leaves the state alone until then and returns
  \<open>f k\<close> in the state \<open>g k\<close> at the first hit \<open>k\<close>. Every search loop of the file system has this form.
\<close>

lemma for_loop_find_from:
  assumes "\<And>i. a \<le> i \<Longrightarrow> i < n \<Longrightarrow>
     body i s = (if P i then Ret (Some (f i), g i) else Ret (None, s))"
  shows "for_loop a n body s =
     (case find P [a..<n] of None \<Rightarrow> Ret (None, s) | Some k \<Rightarrow> Ret (Some (f k), g k))"
  using assms
proof (induction "n - a" arbitrary: a)
  case 0
  then show ?case by (simp add: for_loop.simps ret_run)
next
  case (Suc d)
  then have "a < n" by simp
  moreover have "for_loop (Suc a) n body s =
     (case find P [Suc a..<n] of None \<Rightarrow> Ret (None, s) | Some k \<Rightarrow> Ret (Some (f k), g k))"
    using Suc by simp
  ultimately show ?case
    using Suc.prems [of a]
    by (simp add: for_loop.simps [of a] upt_conv_Cons bnd_def ret_def)
qed

lemmas for_loop_find = for_loop_find_from [where a = 0, OF _, simplified]

lemma bnd_for_loop_find:
  assumes "\<And>i. i < n \<Longrightarrow> body i s = (if P i then Ret (Some (f i), g i) else Ret (None, s))"
  shows "bnd (for_loop 0 n body) k s =
     (case find P [0..<n] of None \<Rightarrow> k None s | Some j \<Rightarrow> k (Some (f j)) (g j))"
  using for_loop_find [of n body s P f g] assms by (auto simp: bnd_def split: option.splits)

text \<open>The loop that runs to its end, threading the state through \<open>step\<close>.\<close>

lemma for_loop_run_from:
  assumes "\<And>i s. a \<le> i \<Longrightarrow> i < n \<Longrightarrow> I s \<Longrightarrow> body i s = Ret (None, step i s) \<and> I (step i s)"
    and "I s"
  shows "for_loop a n body s = Ret (None, fold step [a..<n] s)"
  using assms
proof (induction "n - a" arbitrary: a s)
  case 0
  then show ?case by (simp add: for_loop.simps ret_run)
next
  case (Suc d)
  then have "a < n" by simp
  moreover from Suc have "for_loop (Suc a) n body (step a s)
      = Ret (None, fold step [Suc a..<n] (step a s))"
    by simp
  ultimately show ?case
    using Suc.prems(1) [of a s] Suc.prems(2)
    by (simp add: for_loop.simps [of a] upt_conv_Cons bnd_def)
qed

section \<open>Integers\<close>

text \<open>
  \<^verbatim>\<open>(int)n\<close> and \<^verbatim>\<open>(ssize_t)n\<close> of a \<^verbatim>\<open>size_t\<close>: the low 32 (64) bits read as two's complement,
  as gcc defines the conversion. A \<^verbatim>\<open>size_t\<close> product wraps at \<open>2 ^ 64\<close>.
\<close>

definition c_int :: "nat \<Rightarrow> int" where
  "c_int n = signed_take_bit 31 (int n)"

definition c_ssize :: "nat \<Rightarrow> int" where
  "c_ssize n = signed_take_bit 63 (int n)"

definition size_mul :: "nat \<Rightarrow> nat \<Rightarrow> nat" where
  "size_mul a b = (a * b) mod 2 ^ 64"

lemma c_int_small [simp]: "n < 2 ^ 31 \<Longrightarrow> c_int n = int n"
  by (simp add: c_int_def signed_take_bit_int_eq_self_iff)

lemma c_ssize_small [simp]: "n < 2 ^ 63 \<Longrightarrow> c_ssize n = int n"
  by (simp add: c_ssize_def signed_take_bit_int_eq_self_iff)

section \<open>Bytes\<close>

type_synonym byte = "8 word"

text \<open>Little-endian integers of \<open>n\<close> bytes, as x86-64 stores them.\<close>

definition enc_le :: "nat \<Rightarrow> int \<Rightarrow> byte list" where
  "enc_le n v = map (\<lambda>k. word_of_int (v div 2 ^ (8 * k))) [0..<n]"

fun dec_le :: "byte list \<Rightarrow> int" where
  "dec_le [] = 0"
| "dec_le (b # bs) = uint b + 256 * dec_le bs"

definition dec_i32 :: "byte list \<Rightarrow> int" where
  "dec_i32 bs = signed_take_bit 31 (dec_le bs)"

lemma length_enc_le [simp]: "length (enc_le n v) = n"
  by (simp add: enc_le_def)

lemma enc_le_Suc: "enc_le (Suc n) v = word_of_int v # enc_le n (v div 256)"
proof -
  have "map f [0..<Suc n] = f 0 # map (\<lambda>k. f (Suc k)) [0..<n]" for f :: "nat \<Rightarrow> byte"
    by (simp add: upt_conv_Cons map_Suc_upt [symmetric] del: upt_Suc)
  then show ?thesis
    by (simp add: enc_le_def power_add zdiv_zmult2_eq del: upt_Suc)
qed

lemma dec_enc_le: "dec_le (enc_le n v) = v mod 2 ^ (8 * n)"
proof (induction n arbitrary: v)
  case 0
  then show ?case by (simp add: enc_le_def)
next
  case (Suc n)
  have "dec_le (enc_le (Suc n) v) = v mod 256 + 256 * ((v div 256) mod 2 ^ (8 * n))"
    by (simp add: enc_le_Suc Suc.IH uint_word_of_int)
  also have "\<dots> = v mod (256 * 2 ^ (8 * n))"
    by (simp add: mod_mult2_eq' zmod_zmult2_eq)
  finally show ?case by (simp add: power_add)
qed

lemma dec_i32_enc [simp]:
  "- (2 ^ 31) \<le> v \<Longrightarrow> v < 2 ^ 31 \<Longrightarrow> dec_i32 (enc_le 4 v) = v"
proof -
  assume "- (2 ^ 31) \<le> v" and "v < 2 ^ 31"
  then have "signed_take_bit 31 (take_bit 32 v) = v"
    by (simp add: signed_take_bit_take_bit signed_take_bit_int_eq_self)
  then show ?thesis
    by (simp add: dec_i32_def dec_enc_le take_bit_eq_mod)
qed

section \<open>Memory\<close>

text \<open>
  A block of memory is a function from offsets to bytes. \<open>mem_read\<close> is the run of \<open>n\<close> bytes at an
  offset, \<open>mem_write\<close> the memory after \<^verbatim>\<open>memcpy\<close> has stored a run of bytes at an offset.
\<close>

type_synonym mem = "nat \<Rightarrow> byte"

definition mem_read :: "mem \<Rightarrow> nat \<Rightarrow> nat \<Rightarrow> byte list" where
  "mem_read m a n = map m [a..<a + n]"

definition mem_write :: "mem \<Rightarrow> nat \<Rightarrow> byte list \<Rightarrow> mem" where
  "mem_write m a bs = (\<lambda>x. if a \<le> x \<and> x < a + length bs then bs ! (x - a) else m x)"

lemma length_mem_read [simp]: "length (mem_read m a n) = n"
  by (simp add: mem_read_def)

lemma nth_mem_read [simp]: "k < n \<Longrightarrow> mem_read m a n ! k = m (a + k)"
  by (simp add: mem_read_def)

lemma mem_read_const [simp]: "mem_read (\<lambda>_. b) a n = replicate n b"
  by (simp add: mem_read_def map_replicate_const)

lemma mem_write_same [simp]: "mem_read (mem_write m a bs) a (length bs) = bs"
  by (rule nth_equalityI) (auto simp: mem_write_def)

lemma mem_read_inside:
  "k + n \<le> length bs \<Longrightarrow> mem_read (mem_write m a bs) (a + k) n = take n (drop k bs)"
  by (rule nth_equalityI) (auto simp: mem_write_def)

lemma mem_read_other:
  "b + n \<le> a \<or> a + length bs \<le> b \<Longrightarrow> mem_read (mem_write m a bs) b n = mem_read m b n"
  by (rule nth_equalityI) (auto simp: mem_write_def)

lemma mem_write_Nil [simp]: "mem_write m a [] = m"
  by (auto simp: mem_write_def fun_eq_iff)

lemma mem_read_append: "mem_read m a (n + k) = mem_read m a n @ mem_read m (a + n) k"
  by (simp add: mem_read_def add.assoc upt_add_eq_append [of a "a + n" k, simplified add.assoc]
      flip: map_append)

section \<open>Strings\<close>

text \<open>
  A \<^verbatim>\<open>char const *\<close> argument that points to a string is the list of its bytes before the NUL, a
  buffer is the list of all its bytes. \<open>cstr\<close> reads the string in a buffer.
\<close>

type_synonym cstring = "byte list"

definition is_cstring :: "byte list \<Rightarrow> bool" where
  "is_cstring s \<longleftrightarrow> 0 \<notin> set s"

definition cstr :: "byte list \<Rightarrow> cstring" where
  "cstr bs = takeWhile (\<lambda>b. b \<noteq> 0) bs"

text \<open>
  \<^verbatim>\<open>strncmp(x, y, n) == 0\<close> on two buffers that hold a string or at least \<open>n\<close> bytes.
\<close>

fun strncmp_eq :: "nat \<Rightarrow> byte list \<Rightarrow> byte list \<Rightarrow> bool" where
  "strncmp_eq (Suc n) (x # xs) (y # ys) = (x = y \<and> (x = 0 \<or> strncmp_eq n xs ys))"
| "strncmp_eq n xs ys = True"

lemma is_cstring_cstr [simp]: "is_cstring (cstr bs)"
  by (auto simp: is_cstring_def cstr_def dest: set_takeWhileD)

lemma is_cstring_simps [simp]:
  "is_cstring []"
  "is_cstring (b # bs) \<longleftrightarrow> b \<noteq> 0 \<and> is_cstring bs"
  by (auto simp: is_cstring_def)

lemma cstr_append_zero [simp]: "is_cstring s \<Longrightarrow> cstr (s @ 0 # bs) = s"
  by (induction s) (auto simp: cstr_def)

lemma cstr_simps [simp]:
  "cstr [] = []"
  "cstr (b # bs) = (if b = 0 then [] else b # cstr bs)"
  by (simp_all add: cstr_def)

lemma cstr_padded: "is_cstring s \<Longrightarrow> cstr (s @ replicate k 0) = s"
  by (induction s) (auto, cases k, auto)

lemma cstr_zeros [simp]: "cstr (replicate k 0) = []"
  using cstr_padded [of "[]" k] by simp

lemma length_cstr: "0 \<in> set bs \<Longrightarrow> length (cstr bs) < length bs"
  by (induction bs) auto

lemma take_cstr: "take (length (cstr bs)) bs = cstr bs"
  by (induction bs) auto

lemma cstr_id: "is_cstring s \<Longrightarrow> cstr s = s"
  by (induction s) auto

lemma strncmp_eq_cstr:
  "is_cstring s \<Longrightarrow> length xs = n \<Longrightarrow> 0 \<in> set xs \<Longrightarrow>
   strncmp_eq n xs (s @ [0]) \<longleftrightarrow> cstr xs = s"
proof (induction xs arbitrary: n s)
  case Nil
  then show ?case by simp
next
  case (Cons x xs)
  then obtain m where n: "n = Suc m" by (cases n) auto
  show ?case
  proof (cases s)
    case Nil
    then show ?thesis by (auto simp: n)
  next
    case (Cons y ys)
    with Cons.IH [of ys m] Cons.prems n show ?thesis by auto
  qed
qed

text \<open>
  \<^verbatim>\<open>strcmp\<close> of the string at offset \<open>a\<close> of a memory block of \<open>sz\<close> bytes with a given string: byte by
  byte until a difference or the NUL; \<open>None\<close> when it leaves the block first.
\<close>

fun strcmp_at :: "mem \<Rightarrow> nat \<Rightarrow> nat \<Rightarrow> byte list \<Rightarrow> bool option" where
  "strcmp_at m sz a [] =
     (if a < sz then Some (m a = 0) else None)"
| "strcmp_at m sz a (y # ys) =
     (if a < sz then if m a = y then strcmp_at m sz (Suc a) ys else Some False else None)"

lemma strcmp_at_inside:
  "a + length s < sz \<Longrightarrow> strcmp_at m sz a s = Some (mem_read m a (Suc (length s)) = s @ [0])"
proof (induction s arbitrary: a)
  case Nil
  then show ?case by (simp add: mem_read_def)
next
  case (Cons y ys)
  have "mem_read m a (Suc (length (y # ys))) = m a # mem_read m (Suc a) (Suc (length ys))"
    by (simp add: mem_read_def upt_conv_Cons del: upt_Suc)
  with Cons show ?case by simp
qed

lemma cstr_mem_read_iff:
  "is_cstring s \<Longrightarrow> length s < n \<Longrightarrow>
   cstr (mem_read m a n) = s \<and> 0 \<in> set (mem_read m a n)
     \<longleftrightarrow> mem_read m a (Suc (length s)) = s @ [0]"
proof (induction s arbitrary: a n)
  case Nil
  then obtain k where "n = Suc k" by (cases n) auto
  then have "mem_read m a n = m a # mem_read m (Suc a) k"
    by (simp add: mem_read_def upt_conv_Cons del: upt_Suc)
  then show ?case by (auto simp: mem_read_def)
next
  case (Cons y ys)
  then obtain k where "n = Suc k" by (cases n) auto
  then have "mem_read m a n = m a # mem_read m (Suc a) k"
    and "mem_read m a (Suc (length (y # ys))) = m a # mem_read m (Suc a) (Suc (length ys))"
    by (simp_all add: mem_read_def upt_conv_Cons del: upt_Suc)
  with Cons.IH [of k "Suc a"] Cons.prems \<open>n = Suc k\<close> show ?case by auto
qed

end
