(* ===== verification/Fs_State.thy ===== *)
theory Fs_State imports C_Prelude begin

text \<open>
  The state of TecnicoFS and the operations of \<^verbatim>\<open>fs/state.c\<close>: the inode table, the data blocks,
  the directory entries kept in a block's bytes, and the open file table. A pointer into a table is
  the index it points to, a pointer into the data blocks is an offset into their bytes, the busy
  loop \<^verbatim>\<open>insert_delay\<close> has no effect on the state and is left out.
\<close>

section \<open>Data\<close>

datatype inode_type = T_FILE | T_DIRECTORY

datatype allocation_state_t = FREE | TAKEN

record inode_t =
  i_node_type :: inode_type
  i_size :: nat
  i_data_block :: int

record open_file_entry_t =
  of_inumber :: int
  of_offset :: nat

record tfs_params =
  max_inode_count :: nat
  max_block_count :: nat
  max_open_files_count :: nat
  block_size :: nat

text \<open>
  The static variables of \<^verbatim>\<open>fs/state.c\<close>, and the mutex of \<^verbatim>\<open>fs/operations.c\<close> (\<open>True\<close> when locked). A
  table behind a NULL pointer is \<open>[]\<close>, so that every access to it is out of range; only
  \<open>inode_table\<close> is compared with NULL by the code, and is an option. \<open>fs_data\<close> holds the bytes of
  all the blocks, \<open>fs_data_size\<close> of them.
\<close>

record fs =
  fs_params :: tfs_params
  inode_table :: "inode_t list option"
  freeinode_ts :: "allocation_state_t list"
  fs_data :: mem
  fs_data_size :: nat
  free_blocks :: "allocation_state_t list"
  open_file_table :: "open_file_entry_t list"
  free_open_file_entries :: "allocation_state_t list"
  g_library_mutex :: bool

text \<open>
  The C heap, a parameter of initialisation: whether the \<open>k\<close>-th \<^verbatim>\<open>malloc\<close>, of so many bytes,
  succeeds, and what the bytes it returns hold.
\<close>

record c_heap =
  malloc_ok :: "nat \<Rightarrow> nat \<Rightarrow> bool"
  junk_inode :: "nat \<Rightarrow> inode_t"
  junk_state :: "nat \<Rightarrow> allocation_state_t"
  junk_byte :: mem
  junk_open :: "nat \<Rightarrow> open_file_entry_t"

text \<open>Constants: \<^verbatim>\<open>fs/config.h\<close>, and the sizes of the code's types on x86-64.\<close>

definition ROOT_DIR_INUM :: int where "ROOT_DIR_INUM = 0"
definition MAX_FILE_NAME :: nat where "MAX_FILE_NAME = 40"
definition sizeof_dir_entry :: nat where "sizeof_dir_entry = 44"
definition sizeof_inode :: nat where "sizeof_inode = 24"
definition sizeof_open_file :: nat where "sizeof_open_file = 16"
definition sizeof_alloc_state :: nat where "sizeof_alloc_state = 4"

definition max_dir_entries :: "tfs_params \<Rightarrow> nat" where
  "max_dir_entries p = block_size p div sizeof_dir_entry"

section \<open>Ranges and accesses\<close>

definition valid_inumber :: "int \<Rightarrow> fs \<Rightarrow> bool" where
  "valid_inumber inumber s \<longleftrightarrow> 0 \<le> inumber \<and> inumber < int (max_inode_count (fs_params s))"

definition valid_block_number :: "int \<Rightarrow> fs \<Rightarrow> bool" where
  "valid_block_number b s \<longleftrightarrow> 0 \<le> b \<and> b < int (max_block_count (fs_params s))"

definition valid_file_handle :: "int \<Rightarrow> fs \<Rightarrow> bool" where
  "valid_file_handle h s \<longleftrightarrow> 0 \<le> h \<and> h < int (max_open_files_count (fs_params s))"

definition state_block_size :: "(fs, nat) prog" where
  "state_block_size = gets (\<lambda>s. block_size (fs_params s))"

definition inodes :: "fs \<Rightarrow> inode_t list" where
  "inodes s = (case inode_table s of None \<Rightarrow> [] | Some t \<Rightarrow> t)"

text \<open>\<^verbatim>\<open>inode_table[i]\<close> read and written through a pointer to it.\<close>

definition inode_at :: "int \<Rightarrow> (fs, inode_t) prog" where
  "inode_at i = bnd (gets inodes) (\<lambda>t.
     thn (defined (0 \<le> i \<and> nat i < length t)) (ret (t ! nat i)))"

definition set_inode :: "int \<Rightarrow> (inode_t \<Rightarrow> inode_t) \<Rightarrow> (fs, unit) prog" where
  "set_inode i f = bnd (gets inodes) (\<lambda>t.
     thn (defined (0 \<le> i \<and> nat i < length t))
       (modify (\<lambda>s. s\<lparr>inode_table := Some (t[nat i := f (t ! nat i)])\<rparr>)))"

section \<open>Initialisation\<close>

text \<open>
  The parameters are stored before the check that the file system is not initialised yet. The last
  guard: when a product wrapped, the tables are shorter than the loops over them.
\<close>

definition malloc_table :: "bool \<Rightarrow> nat \<Rightarrow> (nat \<Rightarrow> 'a) \<Rightarrow> 'a list" where
  "malloc_table ok n f = (if ok then map f [0..<n] else [])"

definition state_init :: "c_heap \<Rightarrow> tfs_params \<Rightarrow> (fs, int) prog" where
  "state_init h params =
     thn (modify (\<lambda>s. s\<lparr>fs_params := params\<rparr>))
    (bnd (gets inode_table) (\<lambda>t.
     if t \<noteq> None then ret (-1)
     else
       let ni = max_inode_count params; nb = max_block_count params;
           nf = max_open_files_count params; bs = block_size params;
           ok1 = malloc_ok h 1 (size_mul ni sizeof_inode);
           ok2 = malloc_ok h 2 (size_mul ni sizeof_alloc_state);
           ok3 = malloc_ok h 3 (size_mul nb bs);
           ok4 = malloc_ok h 4 (size_mul nb sizeof_alloc_state);
           ok5 = malloc_ok h 5 (size_mul nf sizeof_open_file);
           ok6 = malloc_ok h 6 (size_mul nf sizeof_alloc_state) in
       thn (modify (\<lambda>s. s\<lparr>
              inode_table := (if ok1 then Some (map (junk_inode h) [0..<ni]) else None),
              freeinode_ts := malloc_table ok2 ni (junk_state h),
              fs_data := junk_byte h,
              fs_data_size := (if ok3 then nb * bs else 0),
              free_blocks := malloc_table ok4 nb (junk_state h),
              open_file_table := malloc_table ok5 nf (junk_open h),
              free_open_file_entries := malloc_table ok6 nf (junk_state h)\<rparr>))
       (if \<not> ok1 \<or> \<not> ok2 \<or> \<not> ok3 \<or> \<not> ok4 \<or> \<not> ok5 \<or> \<not> ok6 then ret (-1)
        else
          thn (defined (ni * sizeof_inode < 2 ^ 64 \<and> nb * bs < 2 ^ 64 \<and>
                 nb * sizeof_alloc_state < 2 ^ 64 \<and> nf * sizeof_open_file < 2 ^ 64))
         (thn (modify (\<lambda>s. s\<lparr>freeinode_ts := replicate ni FREE\<rparr>))
         (thn (modify (\<lambda>s. s\<lparr>free_blocks := replicate nb FREE\<rparr>))
         (thn (modify (\<lambda>s. s\<lparr>free_open_file_entries := replicate nf FREE\<rparr>))
              (ret 0)))))))"

definition state_destroy :: "(fs, int) prog" where
  "state_destroy =
     thn (modify (\<lambda>s. s\<lparr>inode_table := None, freeinode_ts := [], fs_data_size := 0,
            free_blocks := [], open_file_table := [], free_open_file_entries := []\<rparr>))
         (ret 0)"

section \<open>Data blocks\<close>

text \<open>
  The test \<^verbatim>\<open>i * sizeof(allocation_state_t) % BLOCK_SIZE\<close> only paces the delays, but divides by
  the block size.
\<close>

definition data_block_alloc :: "(fs, int) prog" where
  "data_block_alloc =
     bnd (gets fs_params) (\<lambda>p.
     bnd (for_loop 0 (max_block_count p) (\<lambda>i.
       thn (defined (block_size p \<noteq> 0))
      (bnd (gets free_blocks) (\<lambda>tab.
       thn (defined (i < length tab))
      (if tab ! i = FREE
       then thn (modify (\<lambda>s. s\<lparr>free_blocks := tab[i := TAKEN]\<rparr>)) (ret (Some (c_int i)))
       else ret None)))))
    (\<lambda>r. ret (case r of Some b \<Rightarrow> b | None \<Rightarrow> -1)))"

definition data_block_free :: "int \<Rightarrow> (fs, unit) prog" where
  "data_block_free b =
     bnd (gets (valid_block_number b)) (\<lambda>v.
     thn (always_assert v ''data_block_free: invalid block number'')
    (bnd (gets free_blocks) (\<lambda>tab.
     thn (defined (nat b < length tab))
         (modify (\<lambda>s. s\<lparr>free_blocks := tab[nat b := FREE]\<rparr>)))))"

definition data_block_get :: "int \<Rightarrow> (fs, nat) prog" where
  "data_block_get b =
     bnd (gets (valid_block_number b)) (\<lambda>v.
     thn (always_assert v ''data_block_get: invalid block number'')
         (gets (\<lambda>s. nat b * block_size (fs_params s))))"

section \<open>Inodes\<close>

definition inode_alloc :: "(fs, int) prog" where
  "inode_alloc =
     bnd (gets fs_params) (\<lambda>p.
     bnd (for_loop 0 (max_inode_count p) (\<lambda>i.
       thn (defined (block_size p \<noteq> 0))
      (bnd (gets freeinode_ts) (\<lambda>tab.
       thn (defined (i < length tab))
      (if tab ! i = FREE
       then thn (modify (\<lambda>s. s\<lparr>freeinode_ts := tab[i := TAKEN]\<rparr>)) (ret (Some (c_int i)))
       else ret None)))))
    (\<lambda>r. ret (case r of Some i \<Rightarrow> i | None \<Rightarrow> -1)))"

definition inode_delete :: "int \<Rightarrow> (fs, unit) prog" where
  "inode_delete inumber =
     bnd (gets (valid_inumber inumber)) (\<lambda>v.
     thn (always_assert v ''inode_delete: invalid inumber'')
    (bnd (gets freeinode_ts) (\<lambda>tab.
     thn (defined (nat inumber < length tab))
    (thn (always_assert (tab ! nat inumber = TAKEN) ''inode_delete: inode already freed'')
    (bnd (inode_at inumber) (\<lambda>inode.
     thn (if i_size inode > 0 then data_block_free (i_data_block inode) else ret ())
         (modify (\<lambda>s. s\<lparr>freeinode_ts := (freeinode_ts s)[nat inumber := FREE]\<rparr>)))))))) "

definition inode_get :: "int \<Rightarrow> (fs, int) prog" where
  "inode_get inumber =
     bnd (gets (valid_inumber inumber)) (\<lambda>v.
     thn (always_assert v ''inode_get: invalid inumber'') (ret inumber))"

definition get_inumber :: "int \<Rightarrow> (fs, int) prog" where
  "get_inumber inode =
     bnd (gets fs_params) (\<lambda>p.
     bnd (for_loop 0 (max_inode_count p) (\<lambda>i.
       if inode = int i then ret (Some (c_int i)) else ret None))
    (\<lambda>r. ret (case r of Some i \<Rightarrow> i | None \<Rightarrow> -1)))"

section \<open>Directory entries\<close>

text \<open>
  Entry \<open>i\<close> of the directory whose block starts at \<open>dir\<close>: 40 bytes of name, then the inumber as a
  little-endian \<^verbatim>\<open>int\<close>.
\<close>

definition entry_addr :: "nat \<Rightarrow> nat \<Rightarrow> nat" where
  "entry_addr dir i = dir + sizeof_dir_entry * i"

definition d_name :: "mem \<Rightarrow> nat \<Rightarrow> nat \<Rightarrow> byte list" where
  "d_name m dir i = mem_read m (entry_addr dir i) MAX_FILE_NAME"

definition d_inumber :: "mem \<Rightarrow> nat \<Rightarrow> nat \<Rightarrow> int" where
  "d_inumber m dir i = dec_i32 (mem_read m (entry_addr dir i + MAX_FILE_NAME) 4)"

definition set_d_name :: "nat \<Rightarrow> nat \<Rightarrow> byte list \<Rightarrow> mem \<Rightarrow> mem" where
  "set_d_name dir i bs m = mem_write m (entry_addr dir i) bs"

definition set_d_inumber :: "nat \<Rightarrow> nat \<Rightarrow> int \<Rightarrow> mem \<Rightarrow> mem" where
  "set_d_inumber dir i v m = mem_write m (entry_addr dir i + MAX_FILE_NAME) (enc_le 4 v)"

text \<open>\<^verbatim>\<open>strncpy(d_name, sub_name, MAX_FILE_NAME - 1)\<close> and the NUL stored after it.\<close>

definition strncpy_name :: "cstring \<Rightarrow> byte list" where
  "strncpy_name sub_name =
     take (MAX_FILE_NAME - 1) (sub_name @ replicate (MAX_FILE_NAME - 1) 0) @ [0]"

text \<open>An access to entry \<open>i\<close> stays inside the allocated blocks.\<close>

definition entry_ok :: "nat \<Rightarrow> nat \<Rightarrow> fs \<Rightarrow> bool" where
  "entry_ok dir i s \<longleftrightarrow> entry_addr dir (Suc i) \<le> fs_data_size s"

definition clear_dir_entry :: "int \<Rightarrow> cstring \<Rightarrow> (fs, int) prog" where
  "clear_dir_entry inode sub_name =
     bnd (inode_at inode) (\<lambda>ino.
     if i_node_type ino \<noteq> T_DIRECTORY then ret (-1)
     else
       bnd (data_block_get (i_data_block ino)) (\<lambda>dir.
       bnd (gets fs_params) (\<lambda>p.
       bnd (for_loop 0 (max_dir_entries p) (\<lambda>i.
         bnd (gets (entry_ok dir i)) (\<lambda>ok.
         thn (defined ok)
        (bnd (gets (\<lambda>s. strcmp_at (fs_data s) (fs_data_size s) (entry_addr dir i) sub_name))
        (\<lambda>eq. case eq of
           None \<Rightarrow> thn (defined False) (ret None)
         | Some True \<Rightarrow>
             thn (modify (\<lambda>s. s\<lparr>fs_data := set_d_inumber dir i (-1) (fs_data s)\<rparr>))
            (thn (modify (\<lambda>s. s\<lparr>fs_data := set_d_name dir i (replicate MAX_FILE_NAME 0) (fs_data s)\<rparr>))
                 (ret (Some 0)))
         | Some False \<Rightarrow> ret None)))))
       (\<lambda>r. ret (case r of Some x \<Rightarrow> x | None \<Rightarrow> -1)))))"

definition add_dir_entry :: "int \<Rightarrow> cstring \<Rightarrow> int \<Rightarrow> (fs, int) prog" where
  "add_dir_entry inode sub_name sub_inumber =
     (if length sub_name = 0 \<or> length sub_name > MAX_FILE_NAME - 1 then ret (-1)
      else
       bnd (inode_at inode) (\<lambda>ino.
       if i_node_type ino \<noteq> T_DIRECTORY then ret (-1)
       else
       bnd (data_block_get (i_data_block ino)) (\<lambda>dir.
       bnd (gets fs_params) (\<lambda>p.
       bnd (for_loop 0 (max_dir_entries p) (\<lambda>i.
         bnd (gets (entry_ok dir i)) (\<lambda>ok.
         thn (defined ok)
        (bnd (gets (\<lambda>s. d_inumber (fs_data s) dir i)) (\<lambda>k.
         if k = -1 then
             thn (modify (\<lambda>s. s\<lparr>fs_data := set_d_inumber dir i sub_inumber (fs_data s)\<rparr>))
            (thn (modify (\<lambda>s. s\<lparr>fs_data := set_d_name dir i (strncpy_name sub_name) (fs_data s)\<rparr>))
                 (ret (Some 0)))
         else ret None)))))
       (\<lambda>r. ret (case r of Some x \<Rightarrow> x | None \<Rightarrow> -1))))))"

definition find_in_dir :: "int \<Rightarrow> cstring \<Rightarrow> (fs, int) prog" where
  "find_in_dir inode sub_name =
     bnd (inode_at inode) (\<lambda>ino.
     if i_node_type ino \<noteq> T_DIRECTORY then ret (-1)
     else
       bnd (data_block_get (i_data_block ino)) (\<lambda>dir.
       bnd (gets fs_params) (\<lambda>p.
       bnd (for_loop 0 (max_dir_entries p) (\<lambda>i.
         bnd (gets (entry_ok dir i)) (\<lambda>ok.
         thn (defined ok)
        (bnd (gets fs_data) (\<lambda>m.
         if d_inumber m dir i \<noteq> -1 \<and> strncmp_eq MAX_FILE_NAME (d_name m dir i) (sub_name @ [0])
         then ret (Some (d_inumber m dir i))
         else ret None)))))
       (\<lambda>r. ret (case r of Some x \<Rightarrow> x | None \<Rightarrow> -1)))))"

section \<open>Creating an inode\<close>

definition init_dir_block :: "nat \<Rightarrow> (fs, unit option) prog" where
  "init_dir_block dir =
     bnd (gets fs_params) (\<lambda>p.
     for_loop 0 (max_dir_entries p) (\<lambda>i.
       bnd (gets (entry_ok dir i)) (\<lambda>ok.
       thn (defined ok)
      (thn (modify (\<lambda>s. s\<lparr>fs_data := set_d_inumber dir i (-1) (fs_data s)\<rparr>)) (ret None)))))"

definition inode_create :: "inode_type \<Rightarrow> (fs, int) prog" where
  "inode_create i_type =
     bnd inode_alloc (\<lambda>inumber.
     if inumber = -1 then ret (-1)
     else
       thn (set_inode inumber (i_node_type_update (\<lambda>_. i_type)))
      (case i_type of
         T_DIRECTORY \<Rightarrow>
           bnd data_block_alloc (\<lambda>b.
           if b = -1 then
             thn (set_inode inumber (\<lambda>n. n\<lparr>i_size := 0, i_data_block := -1\<rparr>))
            (thn (inode_delete inumber) (ret (-1)))
           else
             bnd (gets fs_params) (\<lambda>p.
             thn (set_inode inumber (\<lambda>n. n\<lparr>i_size := block_size p, i_data_block := b\<rparr>))
            (bnd (data_block_get b) (\<lambda>dir.
             thn (init_dir_block dir) (ret inumber)))))
       | T_FILE \<Rightarrow>
           thn (set_inode inumber (\<lambda>n. n\<lparr>i_size := 0, i_data_block := -1\<rparr>)) (ret inumber)))"

section \<open>Open file table\<close>

definition add_to_open_file_table :: "int \<Rightarrow> nat \<Rightarrow> (fs, int) prog" where
  "add_to_open_file_table inumber offset =
     bnd (gets fs_params) (\<lambda>p.
     bnd (for_loop 0 (max_open_files_count p) (\<lambda>i.
       bnd (gets free_open_file_entries) (\<lambda>tab.
       thn (defined (i < length tab))
      (if tab ! i = FREE
       then
         thn (modify (\<lambda>s. s\<lparr>free_open_file_entries := tab[i := TAKEN]\<rparr>))
        (bnd (gets open_file_table) (\<lambda>oft.
         thn (defined (i < length oft))
        (thn (modify (\<lambda>s. s\<lparr>open_file_table :=
                oft[i := \<lparr>of_inumber = inumber, of_offset = offset\<rparr>]\<rparr>))
             (ret (Some (c_int i))))))
       else ret None))))
    (\<lambda>r. ret (case r of Some i \<Rightarrow> i | None \<Rightarrow> -1)))"

definition remove_from_open_file_table :: "int \<Rightarrow> (fs, unit) prog" where
  "remove_from_open_file_table fhandle =
     bnd (gets (valid_file_handle fhandle)) (\<lambda>v.
     thn (always_assert v ''remove_from_open_file_table: file handle must be valid'')
    (bnd (gets free_open_file_entries) (\<lambda>tab.
     thn (defined (nat fhandle < length tab))
    (thn (always_assert (tab ! nat fhandle = TAKEN)
            ''remove_from_open_file_table: file handle must be taken'')
         (modify (\<lambda>s. s\<lparr>free_open_file_entries := tab[nat fhandle := FREE]\<rparr>))))))"

text \<open>\<^verbatim>\<open>get_open_file_entry\<close>: \<open>None\<close> for NULL, otherwise the index of the entry pointed to.\<close>

definition get_open_file_entry :: "int \<Rightarrow> (fs, nat option) prog" where
  "get_open_file_entry fhandle =
     bnd (gets (valid_file_handle fhandle)) (\<lambda>v.
     if \<not> v then ret None
     else
       bnd (gets free_open_file_entries) (\<lambda>tab.
       thn (defined (nat fhandle < length tab))
      (if tab ! nat fhandle \<noteq> TAKEN then ret None else ret (Some (nat fhandle)))))"

text \<open>An open file table entry read and written through a pointer to it.\<close>

definition open_file_at :: "nat \<Rightarrow> (fs, open_file_entry_t) prog" where
  "open_file_at i = bnd (gets open_file_table) (\<lambda>t.
     thn (defined (i < length t)) (ret (t ! i)))"

definition set_offset :: "nat \<Rightarrow> nat \<Rightarrow> (fs, unit) prog" where
  "set_offset i off = bnd (gets open_file_table) (\<lambda>t.
     thn (defined (i < length t))
       (modify (\<lambda>s. s\<lparr>open_file_table := t[i := (t ! i)\<lparr>of_offset := off\<rparr>]\<rparr>)))"

end
