(* ===== verification/Fs_Slots.thy ===== *)
theory Fs_Slots imports Fs_State begin

text \<open>
  The three allocation tables of the file system (inodes, data blocks, open files) share one
  contract: allocation takes the first free slot or reports that there is none, release frees a
  slot. The contract is the locale \<open>slot_table\<close>, interpreted on the operations of
  \<^verbatim>\<open>fs/state.c\<close>. \<open>tables_ok\<close> says that the tables are the ones the parameters promise.
\<close>

section \<open>The tables are in place\<close>

definition tables_ok :: "fs \<Rightarrow> bool" where
  "tables_ok s \<longleftrightarrow>
     (let p = fs_params s in
      inode_table s \<noteq> None \<and>
      length (inodes s) = max_inode_count p \<and>
      length (freeinode_ts s) = max_inode_count p \<and>
      length (free_blocks s) = max_block_count p \<and>
      fs_data_size s = max_block_count p * block_size p \<and>
      length (open_file_table s) = max_open_files_count p \<and>
      length (free_open_file_entries s) = max_open_files_count p \<and>
      0 < block_size p \<and>
      max_inode_count p < 2 ^ 31 \<and> max_block_count p < 2 ^ 31 \<and> max_open_files_count p < 2 ^ 31 \<and>
      max_block_count p * block_size p < 2 ^ 63)"

lemma tables_okD:
  assumes "tables_ok s"
  shows "length (inodes s) = max_inode_count (fs_params s)"
    and "length (freeinode_ts s) = max_inode_count (fs_params s)"
    and "length (free_blocks s) = max_block_count (fs_params s)"
    and "fs_data_size s = max_block_count (fs_params s) * block_size (fs_params s)"
    and "length (open_file_table s) = max_open_files_count (fs_params s)"
    and "length (free_open_file_entries s) = max_open_files_count (fs_params s)"
    and "0 < block_size (fs_params s)"
    and "max_inode_count (fs_params s) < 2 ^ 31"
    and "max_block_count (fs_params s) < 2 ^ 31"
    and "max_open_files_count (fs_params s) < 2 ^ 31"
    and "\<exists>t. inode_table s = Some t"
    and "max_block_count (fs_params s) * block_size (fs_params s) < 2 ^ 63"
  using assms by (auto simp: tables_ok_def Let_def)

lemma inodes_Some [simp]: "inode_table s = Some t \<Longrightarrow> inodes s = t"
  by (simp add: inodes_def)

lemma inodes_update [simp]:
  "inodes (s\<lparr>inode_table := Some t\<rparr>) = t"
  "inodes (s\<lparr>freeinode_ts := x1\<rparr>) = inodes s"
  "inodes (s\<lparr>fs_data := x2\<rparr>) = inodes s"
  "inodes (s\<lparr>free_blocks := x3\<rparr>) = inodes s"
  "inodes (s\<lparr>open_file_table := x4\<rparr>) = inodes s"
  "inodes (s\<lparr>free_open_file_entries := x5\<rparr>) = inodes s"
  "inodes (s\<lparr>g_library_mutex := x6\<rparr>) = inodes s"
  by (simp_all add: inodes_def)

text \<open>Updates that keep the lengths keep the tables in place.\<close>

lemma tables_ok_update [simp]:
  "length t = length (inodes s) \<Longrightarrow> tables_ok s \<Longrightarrow> tables_ok (s\<lparr>inode_table := Some t\<rparr>)"
  "length x1 = length (freeinode_ts s) \<Longrightarrow> tables_ok s \<Longrightarrow> tables_ok (s\<lparr>freeinode_ts := x1\<rparr>)"
  "tables_ok s \<Longrightarrow> tables_ok (s\<lparr>fs_data := x2\<rparr>)"
  "length x3 = length (free_blocks s) \<Longrightarrow> tables_ok s \<Longrightarrow> tables_ok (s\<lparr>free_blocks := x3\<rparr>)"
  "length x4 = length (open_file_table s) \<Longrightarrow> tables_ok s \<Longrightarrow> tables_ok (s\<lparr>open_file_table := x4\<rparr>)"
  "length x5 = length (free_open_file_entries s) \<Longrightarrow> tables_ok s \<Longrightarrow>
     tables_ok (s\<lparr>free_open_file_entries := x5\<rparr>)"
  "tables_ok s \<Longrightarrow> tables_ok (s\<lparr>g_library_mutex := x6\<rparr>)"
  by (simp_all add: tables_ok_def Let_def)

section \<open>The first free slot\<close>

definition first_free :: "allocation_state_t list \<Rightarrow> nat option" where
  "first_free tab = find (\<lambda>i. tab ! i = FREE) [0..<length tab]"

definition taken :: "allocation_state_t list \<Rightarrow> nat" where
  "taken tab = length (filter (\<lambda>x. x = TAKEN) tab)"

lemma not_FREE [simp]: "x \<noteq> FREE \<longleftrightarrow> x = TAKEN" "x \<noteq> TAKEN \<longleftrightarrow> x = FREE"
  by (cases x; simp)+

lemma first_free_None: "first_free tab = None \<longleftrightarrow> (\<forall>x \<in> set tab. x = TAKEN)"
  by (auto simp: first_free_def find_None_iff all_set_conv_all_nth)

lemma first_free_Some:
  "first_free tab = Some i \<longleftrightarrow> i < length tab \<and> tab ! i = FREE \<and> (\<forall>j<i. tab ! j = TAKEN)"
  by (auto simp: first_free_def find_Some_iff)

lemma taken_le: "taken tab \<le> length tab"
  by (simp add: taken_def)

lemma taken_full: "taken tab = length tab \<longleftrightarrow> (\<forall>x \<in> set tab. x = TAKEN)"
  unfolding taken_def by (metis (mono_tags, lifting) filter_True length_filter_less less_irrefl)

lemma taken_update:
  "i < length tab \<Longrightarrow> tab ! i = FREE \<Longrightarrow> taken (tab[i := TAKEN]) = Suc (taken tab)"
  "i < length tab \<Longrightarrow> tab ! i = TAKEN \<Longrightarrow> Suc (taken (tab[i := FREE])) = taken tab"
  by (induction tab arbitrary: i) (auto simp: taken_def nth_Cons split: nat.splits)

section \<open>The contract\<close>

locale slot_table =
  fixes tab :: "'s \<Rightarrow> allocation_state_t list"
    and alloc :: "('s, int) prog"
    and release :: "int \<Rightarrow> ('s, unit) prog"
    and ok :: "'s \<Rightarrow> bool"
    and releasable :: "int \<Rightarrow> 's \<Rightarrow> bool"
  assumes alloc_none: "ok s \<Longrightarrow> first_free (tab s) = None \<Longrightarrow> alloc s = Ret (-1, s)"
    and alloc_some: "ok s \<Longrightarrow> first_free (tab s) = Some i \<Longrightarrow>
      \<exists>s'. alloc s = Ret (int i, s') \<and> tab s' = (tab s)[i := TAKEN] \<and> ok s'"
    and release_slot: "ok s \<Longrightarrow> 0 \<le> h \<Longrightarrow> nat h < length (tab s) \<Longrightarrow> releasable h s \<Longrightarrow>
      \<exists>s'. release h s = Ret ((), s') \<and> tab s' = (tab s)[nat h := FREE] \<and> ok s'"
begin

lemma alloc_total: "ok s \<Longrightarrow> \<exists>i s'. alloc s = Ret (i, s') \<and> ok s'"
  using alloc_none alloc_some by (cases "first_free (tab s)") blast+

lemma alloc_fresh:
  assumes "ok s" and "alloc s = Ret (i, s')" and "i \<noteq> -1"
  shows "0 \<le> i \<and> nat i < length (tab s) \<and> tab s ! nat i = FREE \<and>
         (\<forall>j < nat i. tab s ! j = TAKEN) \<and> tab s' = (tab s)[nat i := TAKEN]"
proof (cases "first_free (tab s)")
  case None
  with assms alloc_none show ?thesis by force
next
  case (Some k)
  with alloc_some [OF assms(1) Some] assms(2) have "i = int k" "tab s' = (tab s)[k := TAKEN]"
    by auto
  with Some show ?thesis by (auto simp: first_free_Some)
qed

lemma alloc_full_iff:
  assumes "ok s" and "alloc s = Ret (i, s')"
  shows "i = -1 \<longleftrightarrow> taken (tab s) = length (tab s)"
proof (cases "first_free (tab s)")
  case None
  with assms alloc_none show ?thesis by (auto simp: taken_full first_free_None)
next
  case (Some k)
  with alloc_some [OF assms(1) Some] assms(2) have "i = int k" by auto
  with Some show ?thesis
    by (auto simp: taken_full first_free_Some) (metis nth_mem)
qed

lemma alloc_taken:
  assumes "ok s" and "alloc s = Ret (i, s')" and "i \<noteq> -1"
  shows "taken (tab s') = Suc (taken (tab s))"
  using alloc_fresh [OF assms] by (simp add: taken_update)

lemma release_alloc_back:
  assumes "ok s" and "alloc s = Ret (i, s')" and "i \<noteq> -1" and "ok s'" and "releasable i s'"
  shows "\<exists>s''. release i s' = Ret ((), s'') \<and> tab s'' = tab s"
proof -
  note f = alloc_fresh [OF assms(1-3)]
  with release_slot [OF assms(4) _ _ assms(5)] obtain s'' where
    "release i s' = Ret ((), s'')" "tab s'' = (tab s')[nat i := FREE]" by auto
  with f show ?thesis by (metis list_update_id list_update_overwrite)
qed

lemma release_then_alloc:
  assumes "ok s" and "0 \<le> i" and "nat i < length (tab s)" and "releasable i s"
    and "\<forall>j < nat i. tab s ! j = TAKEN" and "release i s = Ret ((), s')" and "tab s ! nat i = TAKEN"
  shows "\<exists>s''. alloc s' = Ret (i, s'') \<and> tab s'' = tab s"
proof -
  from release_slot [OF assms(1-4)] assms(6)
  have s': "tab s' = (tab s)[nat i := FREE]" "ok s'" by auto
  with assms(2,3,5) have "first_free (tab s') = Some (nat i)"
    by (auto simp: first_free_Some)
  from alloc_some [OF s'(2) this] obtain s'' where
    "alloc s' = Ret (i, s'')" "tab s'' = (tab s')[nat i := TAKEN]" using assms(2) by auto
  then show ?thesis using s'(1) assms(7) by (metis list_update_id list_update_overwrite)
qed

end

section \<open>The operations on states whose tables are in place\<close>

lemma inode_at_run [run_simps]:
  "0 \<le> i \<Longrightarrow> nat i < length (inodes s) \<Longrightarrow> inode_at i s = Ret (inodes s ! nat i, s)"
  by (simp add: inode_at_def ret_def)

lemma set_inode_run [run_simps]:
  "0 \<le> i \<Longrightarrow> nat i < length (inodes s) \<Longrightarrow>
   set_inode i f s = Ret ((), s\<lparr>inode_table := Some ((inodes s)[nat i := f (inodes s ! nat i)])\<rparr>)"
  by (simp add: set_inode_def modify_def)

lemma data_block_alloc_run:
  assumes "tables_ok s"
  shows "data_block_alloc s = (case first_free (free_blocks s) of None \<Rightarrow> Ret (-1, s)
     | Some i \<Rightarrow> Ret (int i, s\<lparr>free_blocks := (free_blocks s)[i := TAKEN]\<rparr>))"
proof -
  note t = tables_okD [OF assms]
  show ?thesis
    unfolding data_block_alloc_def first_free_def t(3) bnd_gets
    by (subst bnd_for_loop_find [where
          P = "\<lambda>i. free_blocks s ! i = FREE" and f = "\<lambda>i. int i" and
          g = "\<lambda>i. s\<lparr>free_blocks := (free_blocks s)[i := TAKEN]\<rparr>"])
      (use t in \<open>auto simp: ret_def split: option.splits\<close>)
qed

lemma inode_alloc_run:
  assumes "tables_ok s"
  shows "inode_alloc s = (case first_free (freeinode_ts s) of None \<Rightarrow> Ret (-1, s)
     | Some i \<Rightarrow> Ret (int i, s\<lparr>freeinode_ts := (freeinode_ts s)[i := TAKEN]\<rparr>))"
proof -
  note t = tables_okD [OF assms]
  show ?thesis
    unfolding inode_alloc_def first_free_def t(2) bnd_gets
    by (subst bnd_for_loop_find [where
          P = "\<lambda>i. freeinode_ts s ! i = FREE" and f = "\<lambda>i. int i" and
          g = "\<lambda>i. s\<lparr>freeinode_ts := (freeinode_ts s)[i := TAKEN]\<rparr>"])
      (use t in \<open>auto simp: ret_def split: option.splits\<close>)
qed

lemma add_to_open_file_table_run:
  assumes "tables_ok s"
  shows "add_to_open_file_table inumber offset s =
     (case first_free (free_open_file_entries s) of None \<Rightarrow> Ret (-1, s)
      | Some i \<Rightarrow> Ret (int i, s\<lparr>
          free_open_file_entries := (free_open_file_entries s)[i := TAKEN],
          open_file_table :=
            (open_file_table s)[i := \<lparr>of_inumber = inumber, of_offset = offset\<rparr>]\<rparr>))"
proof -
  note t = tables_okD [OF assms]
  show ?thesis
    unfolding add_to_open_file_table_def first_free_def t(6) bnd_gets
    by (subst bnd_for_loop_find [where
          P = "\<lambda>i. free_open_file_entries s ! i = FREE" and f = "\<lambda>i. int i" and
          g = "\<lambda>i. s\<lparr>free_open_file_entries := (free_open_file_entries s)[i := TAKEN],
                 open_file_table :=
                   (open_file_table s)[i := \<lparr>of_inumber = inumber, of_offset = offset\<rparr>]\<rparr>"])
      (use t in \<open>auto simp: ret_def split: option.splits\<close>)
qed

lemma data_block_free_run [run_simps]:
  "tables_ok s \<Longrightarrow> valid_block_number b s \<Longrightarrow>
   data_block_free b s = Ret ((), s\<lparr>free_blocks := (free_blocks s)[nat b := FREE]\<rparr>)"
  by (auto simp: data_block_free_def valid_block_number_def modify_def dest: tables_okD(3))

lemma data_block_free_invalid [run_simps]:
  "\<not> valid_block_number b s \<Longrightarrow>
   data_block_free b s = Panic ''data_block_free: invalid block number''"
  by (simp add: data_block_free_def)

lemma data_block_get_run [run_simps]:
  "valid_block_number b s \<Longrightarrow> data_block_get b s = Ret (nat b * block_size (fs_params s), s)"
  "\<not> valid_block_number b s \<Longrightarrow>
   data_block_get b s = Panic ''data_block_get: invalid block number''"
  by (simp_all add: data_block_get_def gets_run)

lemma inode_get_run [run_simps]:
  "valid_inumber i s \<Longrightarrow> inode_get i s = Ret (i, s)"
  "\<not> valid_inumber i s \<Longrightarrow> inode_get i s = Panic ''inode_get: invalid inumber''"
  by (simp_all add: inode_get_def ret_def)

lemma get_open_file_entry_run:
  "tables_ok s \<Longrightarrow> get_open_file_entry h s =
     Ret (if valid_file_handle h s \<and> free_open_file_entries s ! nat h = TAKEN
          then Some (nat h) else None, s)"
  by (auto simp: get_open_file_entry_def valid_file_handle_def ret_def dest: tables_okD(6))

lemma remove_from_open_file_table_run [run_simps]:
  "tables_ok s \<Longrightarrow> valid_file_handle h s \<Longrightarrow> free_open_file_entries s ! nat h = TAKEN \<Longrightarrow>
   remove_from_open_file_table h s =
     Ret ((), s\<lparr>free_open_file_entries := (free_open_file_entries s)[nat h := FREE]\<rparr>)"
  by (auto simp: remove_from_open_file_table_def valid_file_handle_def modify_def
      dest: tables_okD(6))

lemma open_file_at_run [run_simps]:
  "i < length (open_file_table s) \<Longrightarrow> open_file_at i s = Ret (open_file_table s ! i, s)"
  by (simp add: open_file_at_def ret_def)

lemma set_offset_run [run_simps]:
  "i < length (open_file_table s) \<Longrightarrow> set_offset i off s =
     Ret ((), s\<lparr>open_file_table := (open_file_table s)[i := (open_file_table s ! i)\<lparr>of_offset := off\<rparr>]\<rparr>)"
  by (simp add: set_offset_def modify_def)

text \<open>\<^verbatim>\<open>inode_delete\<close> on an allocated inode whose block number is valid when it has data.\<close>

definition deletable :: "int \<Rightarrow> fs \<Rightarrow> bool" where
  "deletable i s \<longleftrightarrow>
     freeinode_ts s ! nat i = TAKEN \<and>
     (0 < i_size (inodes s ! nat i) \<longrightarrow> valid_block_number (i_data_block (inodes s ! nat i)) s)"

lemma inode_delete_run [run_simps]:
  assumes "tables_ok s" and "valid_inumber i s" and "deletable i s"
  shows "inode_delete i s = Ret ((), s\<lparr>
     free_blocks := (if 0 < i_size (inodes s ! nat i)
       then (free_blocks s)[nat (i_data_block (inodes s ! nat i)) := FREE] else free_blocks s),
     freeinode_ts := (freeinode_ts s)[nat i := FREE]\<rparr>)"
  using assms tables_okD [OF assms(1)]
  by (auto simp: inode_delete_def valid_inumber_def deletable_def run_simps modify_def
      simp: bnd_Ret [OF inode_at_run] bnd_Ret [OF data_block_free_run])

interpretation blocks: slot_table free_blocks data_block_alloc data_block_free tables_ok "\<lambda>_ _. True"
  by unfold_locales
    (auto simp: data_block_alloc_run data_block_free_run valid_block_number_def tables_okD(3))

interpretation inodes: slot_table freeinode_ts inode_alloc inode_delete tables_ok deletable
  by unfold_locales
    (auto simp: inode_alloc_run inode_delete_run valid_inumber_def tables_okD(2))

interpretation open_files: slot_table free_open_file_entries
  "add_to_open_file_table inumber offset" remove_from_open_file_table tables_ok
  "\<lambda>h s. free_open_file_entries s ! nat h = TAKEN"
  for inumber offset
  by unfold_locales
    (auto simp: add_to_open_file_table_run remove_from_open_file_table_run valid_file_handle_def
      tables_okD(6))

end
