(* ===== verification/Fs_Dir.thy ===== *)
theory Fs_Dir imports Fs_Slots begin

text \<open>
  A directory block read as a map from names to inumbers. The locale \<open>directory\<close> is the contract
  the rest of the file system relies on (a search after an insertion or a removal answers as a map
  would); it is interpreted on \<^verbatim>\<open>find_in_dir\<close>, \<^verbatim>\<open>add_dir_entry\<close> and \<^verbatim>\<open>clear_dir_entry\<close> applied to
  the root directory.
\<close>

section \<open>Fields of an entry after a store\<close>

lemmas entry_defs = entry_addr_def d_name_def d_inumber_def set_d_name_def set_d_inumber_def
  MAX_FILE_NAME_def sizeof_dir_entry_def

lemma d_name_set_d_inumber [simp]: "d_name (set_d_inumber dir i v m) dir j = d_name m dir j"
  by (cases i j rule: linorder_cases) (auto simp: entry_defs intro!: mem_read_other)

lemma d_inumber_set_d_name [simp]:
  "length bs = 40 \<Longrightarrow> d_inumber (set_d_name dir i bs m) dir j = d_inumber m dir j"
  by (cases i j rule: linorder_cases)
    (auto simp: entry_defs intro!: arg_cong [where f = dec_i32] mem_read_other)

lemma d_name_set_d_name [simp]:
  assumes "length bs = 40"
  shows "d_name (set_d_name dir i bs m) dir j = (if i = j then bs else d_name m dir j)"
proof (cases "i = j")
  case True
  then show ?thesis
    using mem_write_same [of m "dir + 44 * j" bs] assms by (simp add: entry_defs)
next
  case False
  then have "j < i \<or> i < j" by auto
  with False assms show ?thesis by (auto simp: entry_defs intro!: mem_read_other)
qed

lemma d_inumber_set_d_inumber [simp]:
  assumes "- (2 ^ 31) \<le> v" and "v < 2 ^ 31"
  shows "d_inumber (set_d_inumber dir i v m) dir j = (if i = j then v else d_inumber m dir j)"
proof (cases "i = j")
  case True
  then show ?thesis
    using mem_write_same [of m "dir + 44 * j + 40" "enc_le 4 v"] assms
    by (simp add: entry_defs)
next
  case False
  then have "j < i \<or> i < j" by auto
  with False show ?thesis
    by (auto simp: entry_defs intro!: arg_cong [where f = dec_i32] mem_read_other)
qed

text \<open>Stores beyond the directory's block leave its entries alone.\<close>

lemma entries_write_outside:
  assumes "i < max_dir_entries p" and "dir + block_size p \<le> a"
  shows "d_name (mem_write m a bs) dir i = d_name m dir i"
    and "d_inumber (mem_write m a bs) dir i = d_inumber m dir i"
proof -
  have "44 * i + 44 \<le> block_size p"
    using assms(1) by (simp add: max_dir_entries_def sizeof_dir_entry_def)
  with assms(2) show "d_name (mem_write m a bs) dir i = d_name m dir i"
    and "d_inumber (mem_write m a bs) dir i = d_inumber m dir i"
    by (auto simp: entry_defs intro!: arg_cong [where f = dec_i32] mem_read_other)
qed

lemma length_d_name [simp]: "length (d_name m dir i) = 40"
  by (simp add: d_name_def MAX_FILE_NAME_def)

lemma length_strncpy_name [simp]: "length (strncpy_name s) = 40"
  by (simp add: strncpy_name_def MAX_FILE_NAME_def)

lemma zero_in_strncpy_name [simp]: "0 \<in> set (strncpy_name s)"
  by (simp add: strncpy_name_def)

lemma cstr_strncpy_name [simp]:
  assumes "is_cstring s" and "length s < 40"
  shows "cstr (strncpy_name s) = s"
proof -
  have "strncpy_name s = s @ replicate (40 - length s) 0"
    using assms(2)
    by (simp add: strncpy_name_def MAX_FILE_NAME_def replicate_append_same flip: replicate_Suc)
  then show ?thesis using assms(1) by (simp add: cstr_padded)
qed

section \<open>The entries as a map\<close>

definition live :: "mem \<Rightarrow> nat \<Rightarrow> nat \<Rightarrow> bool" where
  "live m dir i \<longleftrightarrow> d_inumber m dir i \<noteq> -1"

definition ename :: "mem \<Rightarrow> nat \<Rightarrow> nat \<Rightarrow> cstring" where
  "ename m dir i = cstr (d_name m dir i)"

definition dir_find :: "mem \<Rightarrow> nat \<Rightarrow> nat \<Rightarrow> cstring \<Rightarrow> nat option" where
  "dir_find m dir n name = find (\<lambda>i. live m dir i \<and> ename m dir i = name) [0..<n]"

definition dir_map :: "mem \<Rightarrow> nat \<Rightarrow> nat \<Rightarrow> cstring \<Rightarrow> int option" where
  "dir_map m dir n name = map_option (d_inumber m dir) (dir_find m dir n name)"

definition dir_free :: "mem \<Rightarrow> nat \<Rightarrow> nat \<Rightarrow> nat option" where
  "dir_free m dir n = find (\<lambda>i. \<not> live m dir i) [0..<n]"

text \<open>
  A well-formed directory: an unused entry has an empty name, a used one a terminated, non-empty
  name and a non-negative inumber, and no two used entries share a name or an inumber.
\<close>

definition dir_wf :: "mem \<Rightarrow> nat \<Rightarrow> nat \<Rightarrow> bool" where
  "dir_wf m dir n \<longleftrightarrow>
     (\<forall>i<n. \<not> live m dir i \<longrightarrow> ename m dir i = [] \<and> 0 \<in> set (d_name m dir i)) \<and>
     (\<forall>i<n. live m dir i \<longrightarrow>
        ename m dir i \<noteq> [] \<and> 0 \<in> set (d_name m dir i) \<and> 0 \<le> d_inumber m dir i) \<and>
     (\<forall>i<n. \<forall>j<n. live m dir i \<longrightarrow> live m dir j \<longrightarrow>
        (ename m dir i = ename m dir j \<or> d_inumber m dir i = d_inumber m dir j) \<longrightarrow> i = j)"

lemma dir_find_Some:
  "dir_wf m dir n \<Longrightarrow>
   dir_find m dir n name = Some i \<longleftrightarrow> i < n \<and> live m dir i \<and> ename m dir i = name"
proof -
  assume wf: "dir_wf m dir n"
  have uniq: "j = i" if "i < n" "j < n" "live m dir i" "live m dir j"
    "ename m dir i = ename m dir j" for i j
    using wf that unfolding dir_wf_def by blast
  show ?thesis
    unfolding dir_find_def find_Some_iff
    by (auto intro!: exI [of _ i]) (metis uniq less_trans less_irrefl)
qed

lemma dir_find_None:
  "dir_find m dir n name = None \<longleftrightarrow> (\<forall>i<n. live m dir i \<longrightarrow> ename m dir i \<noteq> name)"
  by (auto simp: dir_find_def find_None_iff)

lemma dir_free_Some:
  "dir_free m dir n = Some i \<Longrightarrow> i < n \<and> d_inumber m dir i = -1 \<and> \<not> live m dir i"
  by (auto simp: dir_free_def find_Some_iff live_def)

lemma dir_map_Some:
  "dir_wf m dir n \<Longrightarrow> dir_map m dir n name = Some k \<longleftrightarrow>
   (\<exists>i<n. live m dir i \<and> ename m dir i = name \<and> d_inumber m dir i = k)"
  by (auto simp: dir_map_def dir_find_Some)

lemma dir_map_None:
  "dir_map m dir n name = None \<longleftrightarrow> (\<forall>i<n. live m dir i \<longrightarrow> ename m dir i \<noteq> name)"
  by (simp add: dir_map_def dir_find_None)

lemma dir_wf_range: "dir_wf m dir n \<Longrightarrow> dir_map m dir n name = Some k \<Longrightarrow> 0 \<le> k"
  by (auto simp: dir_map_Some dir_wf_def)

section \<open>Inserting and removing an entry\<close>

definition put_entry :: "nat \<Rightarrow> nat \<Rightarrow> cstring \<Rightarrow> int \<Rightarrow> mem \<Rightarrow> mem" where
  "put_entry dir i name k m = set_d_name dir i (strncpy_name name) (set_d_inumber dir i k m)"

definition wipe_entry :: "nat \<Rightarrow> nat \<Rightarrow> mem \<Rightarrow> mem" where
  "wipe_entry dir i m = set_d_name dir i (replicate MAX_FILE_NAME 0) (set_d_inumber dir i (-1) m)"

lemma put_entry_fields:
  assumes "is_cstring name" and "length name < 40" and "0 \<le> k" and "k < 2 ^ 31"
  shows "live (put_entry dir i name k m) dir j \<longleftrightarrow> i = j \<or> live m dir j"
    and "ename (put_entry dir i name k m) dir j = (if i = j then name else ename m dir j)"
    and "d_inumber (put_entry dir i name k m) dir j = (if i = j then k else d_inumber m dir j)"
    and "0 \<in> set (d_name (put_entry dir i name k m) dir j) \<longleftrightarrow>
         i = j \<or> 0 \<in> set (d_name m dir j)"
  using assms by (auto simp: put_entry_def live_def ename_def)

lemma wipe_entry_fields:
  shows "live (wipe_entry dir i m) dir j \<longleftrightarrow> i \<noteq> j \<and> live m dir j"
    and "ename (wipe_entry dir i m) dir j = (if i = j then [] else ename m dir j)"
    and "d_inumber (wipe_entry dir i m) dir j = (if i = j then -1 else d_inumber m dir j)"
    and "0 \<in> set (d_name (wipe_entry dir i m) dir j) \<longleftrightarrow>
         i = j \<or> 0 \<in> set (d_name m dir j)"
  by (auto simp: wipe_entry_def live_def ename_def MAX_FILE_NAME_def eval_nat_numeral)

lemma put_entry_wf:
  assumes "dir_wf m dir n" and "dir_free m dir n = Some i" and "dir_map m dir n name = None"
    and "is_cstring name" and "name \<noteq> []" and "length name < 40" and "0 \<le> k" and "k < 2 ^ 31"
    and "\<forall>j<n. live m dir j \<longrightarrow> d_inumber m dir j \<noteq> k"
  shows "dir_wf (put_entry dir i name k m) dir n"
  using assms dir_free_Some [OF assms(2)]
  by (auto simp: dir_wf_def put_entry_fields dir_map_None)

lemma wipe_entry_wf: "dir_wf m dir n \<Longrightarrow> dir_wf (wipe_entry dir i m) dir n"
  by (auto simp: dir_wf_def wipe_entry_fields)

lemma put_entry_map:
  assumes "dir_wf m dir n" and "dir_free m dir n = Some i" and "dir_map m dir n name = None"
    and "is_cstring name" and "name \<noteq> []" and "length name < 40" and "0 \<le> k" and "k < 2 ^ 31"
    and "\<forall>j<n. live m dir j \<longrightarrow> d_inumber m dir j \<noteq> k"
  shows "dir_map (put_entry dir i name k m) dir n = (dir_map m dir n)(name \<mapsto> k)"
proof
  fix x
  note wf = put_entry_wf [OF assms]
  have "dir_map (put_entry dir i name k m) dir n x = Some v \<longleftrightarrow>
        ((dir_map m dir n)(name \<mapsto> k)) x = Some v" for v
    using assms(3) dir_free_Some [OF assms(2)]
    by (auto simp: dir_map_Some [OF wf] dir_map_Some [OF assms(1)] put_entry_fields [OF assms(4,6-8)]
        dir_map_None)
  then show "dir_map (put_entry dir i name k m) dir n x = ((dir_map m dir n)(name \<mapsto> k)) x"
    by (metis not_Some_eq)
qed

lemma wipe_entry_map:
  assumes "dir_wf m dir n" and "i < n" and "live m dir i" and "ename m dir i = name"
  shows "dir_map (wipe_entry dir i m) dir n = (dir_map m dir n)(name := None)"
proof
  fix x
  note wf = wipe_entry_wf [OF assms(1), of i]
  have "dir_map (wipe_entry dir i m) dir n x = Some v \<longleftrightarrow>
        ((dir_map m dir n)(name := None)) x = Some v" for v
    using assms by (auto simp: dir_map_Some [OF wf] dir_map_Some [OF assms(1)] wipe_entry_fields)
      (auto simp: dir_wf_def)
  then show "dir_map (wipe_entry dir i m) dir n x = ((dir_map m dir n)(name := None)) x"
    by (metis not_Some_eq)
qed

section \<open>The root directory\<close>

definition nents :: "fs \<Rightarrow> nat" where
  "nents s = max_dir_entries (fs_params s)"

definition root_map :: "fs \<Rightarrow> cstring \<Rightarrow> int option" where
  "root_map s = dir_map (fs_data s) 0 (nents s)"

definition root_ok :: "fs \<Rightarrow> bool" where
  "root_ok s \<longleftrightarrow> tables_ok s \<and> 0 < max_inode_count (fs_params s) \<and>
     0 < max_block_count (fs_params s) \<and>
     i_node_type (inodes s ! 0) = T_DIRECTORY \<and> i_data_block (inodes s ! 0) = 0 \<and>
     dir_wf (fs_data s) 0 (nents s)"

lemma root_okD:
  assumes "root_ok s"
  shows "tables_ok s" and "0 < length (inodes s)" and "i_node_type (inodes s ! 0) = T_DIRECTORY"
    and "i_data_block (inodes s ! 0) = 0" and "dir_wf (fs_data s) 0 (nents s)"
    and "valid_block_number 0 s"
  using assms tables_okD(1) [of s] by (auto simp: root_ok_def valid_block_number_def)

lemma root_entry_ok:
  assumes "root_ok s" and "i < nents s"
  shows "entry_ok 0 i s"
proof -
  from assms(2) have "44 * Suc i \<le> block_size (fs_params s)"
    by (simp add: nents_def max_dir_entries_def sizeof_dir_entry_def)
  also from assms(1) have "\<dots> \<le> max_block_count (fs_params s) * block_size (fs_params s)"
    by (simp add: root_ok_def)
  finally show ?thesis
    using tables_okD(4) [OF root_okD(1) [OF assms(1)]]
    by (simp add: entry_ok_def entry_addr_def sizeof_dir_entry_def)
qed

lemma find_in_dir_root:
  assumes "root_ok s" and "is_cstring name"
  shows "find_in_dir ROOT_DIR_INUM name s =
     Ret (case root_map s name of None \<Rightarrow> -1 | Some k \<Rightarrow> k, s)"
proof -
  note r = root_okD [OF assms(1)]
  have P: "d_inumber (fs_data s) 0 i \<noteq> -1 \<and>
       strncmp_eq MAX_FILE_NAME (d_name (fs_data s) 0 i) (name @ [0]) \<longleftrightarrow>
     live (fs_data s) 0 i \<and> ename (fs_data s) 0 i = name" if "i < nents s" for i
    using r(5) that assms(2)
    by (auto simp: dir_wf_def live_def ename_def MAX_FILE_NAME_def strncmp_eq_cstr)
  show ?thesis
    unfolding find_in_dir_def ROOT_DIR_INUM_def
    using r
    apply (simp add: bnd_Ret [OF inode_at_run] bnd_Ret [OF data_block_get_run(1)] flip: nents_def)
    apply (subst bnd_for_loop_find [where
          P = "\<lambda>i. live (fs_data s) 0 i \<and> ename (fs_data s) 0 i = name" and
          f = "d_inumber (fs_data s) 0" and g = "\<lambda>i. s"])
    by (auto simp: root_entry_ok [OF assms(1)] P ret_def root_map_def dir_map_def dir_find_def
        split: option.splits)
qed

lemma add_dir_entry_root:
  assumes "root_ok s"
  shows "add_dir_entry ROOT_DIR_INUM name k s =
     (if name = [] \<or> 40 \<le> length name then Ret (-1, s)
      else case dir_free (fs_data s) 0 (nents s) of
        None \<Rightarrow> Ret (-1, s)
      | Some i \<Rightarrow> Ret (0, s\<lparr>fs_data := put_entry 0 i name k (fs_data s)\<rparr>))"
proof -
  note r = root_okD [OF assms(1)]
  show ?thesis
  proof (cases "name = [] \<or> 40 \<le> length name")
    case True
    then show ?thesis by (auto simp: add_dir_entry_def MAX_FILE_NAME_def ret_def)
  next
    case False
    then have "\<not> (length name = 0 \<or> length name > MAX_FILE_NAME - 1)"
      by (auto simp: MAX_FILE_NAME_def)
    with False r show ?thesis
      unfolding add_dir_entry_def ROOT_DIR_INUM_def
      apply (simp add: bnd_Ret [OF inode_at_run] bnd_Ret [OF data_block_get_run(1)] flip: nents_def)
      apply (subst bnd_for_loop_find [where
          P = "\<lambda>i. \<not> live (fs_data s) 0 i" and f = "\<lambda>i. 0" and
          g = "\<lambda>i. s\<lparr>fs_data := put_entry 0 i name k (fs_data s)\<rparr>"])
      by (auto simp: root_entry_ok [OF assms(1)] ret_def live_def dir_free_def put_entry_def
          split: option.splits)
  qed
qed

lemma clear_dir_entry_root:
  assumes "root_ok s" and "is_cstring name" and "name \<noteq> []" and "length name < 40"
  shows "clear_dir_entry ROOT_DIR_INUM name s =
     (case dir_find (fs_data s) 0 (nents s) name of
        None \<Rightarrow> Ret (-1, s)
      | Some i \<Rightarrow> Ret (0, s\<lparr>fs_data := wipe_entry 0 i (fs_data s)\<rparr>))"
proof -
  note r = root_okD [OF assms(1)]
  have P: "strcmp_at (fs_data s) (fs_data_size s) (entry_addr 0 i) name =
     Some (live (fs_data s) 0 i \<and> ename (fs_data s) 0 i = name)" if "i < nents s" for i
  proof -
    from root_entry_ok [OF assms(1) that] assms(4)
    have "entry_addr 0 i + length name < fs_data_size s"
      by (simp add: entry_ok_def entry_addr_def sizeof_dir_entry_def)
    with r(5) that assms(2-4) show ?thesis
      using cstr_mem_read_iff [OF assms(2,4), of "fs_data s" "entry_addr 0 i"]
      by (auto simp: strcmp_at_inside dir_wf_def ename_def d_name_def MAX_FILE_NAME_def)
  qed
  show ?thesis
    unfolding clear_dir_entry_def ROOT_DIR_INUM_def
    using r
    apply (simp add: bnd_Ret [OF inode_at_run] bnd_Ret [OF data_block_get_run(1)] flip: nents_def)
    apply (subst bnd_for_loop_find [where
          P = "\<lambda>i. live (fs_data s) 0 i \<and> ename (fs_data s) 0 i = name" and f = "\<lambda>i. 0" and
          g = "\<lambda>i. s\<lparr>fs_data := wipe_entry 0 i (fs_data s)\<rparr>"])
    by (auto simp: root_entry_ok [OF assms(1)] P ret_def dir_find_def wipe_entry_def
        split: option.splits bool.splits)
qed

section \<open>The contract of a directory\<close>

text \<open>
  What a client needs: a search answers from the map, an insertion of a fresh name into a directory
  with room updates the map, a removal deletes the name and leaves room.
\<close>

locale directory =
  fixes search :: "'k \<Rightarrow> ('s, int) prog"
    and insert_entry :: "'k \<Rightarrow> int \<Rightarrow> ('s, int) prog"
    and remove :: "'k \<Rightarrow> ('s, int) prog"
    and entries :: "'s \<Rightarrow> 'k \<Rightarrow> int option"
    and ok :: "'s \<Rightarrow> bool"
    and room :: "'s \<Rightarrow> bool"
    and nameable :: "'k \<Rightarrow> bool"
    and fresh :: "int \<Rightarrow> 's \<Rightarrow> bool"
  assumes search_map: "ok s \<Longrightarrow> nameable x \<Longrightarrow>
      search x s = Ret (case entries s x of None \<Rightarrow> -1 | Some k \<Rightarrow> k, s)"
    and entries_range: "ok s \<Longrightarrow> entries s x = Some k \<Longrightarrow> 0 \<le> k"
    and insert_room: "ok s \<Longrightarrow> nameable x \<Longrightarrow> entries s x = None \<Longrightarrow> fresh k s \<Longrightarrow> room s \<Longrightarrow>
      \<exists>s'. insert_entry x k s = Ret (0, s') \<and> ok s' \<and> entries s' = (entries s)(x \<mapsto> k)"
    and insert_full: "ok s \<Longrightarrow> \<not> room s \<Longrightarrow> insert_entry x k s = Ret (-1, s)"
    and remove_entry: "ok s \<Longrightarrow> nameable x \<Longrightarrow> entries s x = Some k \<Longrightarrow>
      \<exists>s'. remove x s = Ret (0, s') \<and> ok s' \<and> room s' \<and> entries s' = (entries s)(x := None)"
    and remove_missing: "ok s \<Longrightarrow> nameable x \<Longrightarrow> entries s x = None \<Longrightarrow> remove x s = Ret (-1, s)"
begin

lemma search_after_insert:
  assumes "ok s" "nameable x" "nameable y" "entries s x = None" "fresh k s" "room s"
  shows "\<exists>s'. insert_entry x k s = Ret (0, s') \<and>
     search y s' = Ret (if y = x then k else case entries s y of None \<Rightarrow> -1 | Some k \<Rightarrow> k, s')"
  using insert_room [OF assms(1,2,4-6)] search_map assms(3) by fastforce

lemma search_after_remove:
  assumes "ok s" "nameable x" "nameable y" "entries s x = Some k"
  shows "\<exists>s'. remove x s = Ret (0, s') \<and>
     search y s' = Ret (if y = x then -1 else case entries s y of None \<Rightarrow> -1 | Some k \<Rightarrow> k, s')"
  using remove_entry [OF assms(1,2,4)] search_map assms(3) by fastforce

lemma remove_undoes_insert:
  assumes "ok s" "nameable x" "entries s x = None" "fresh k s" "room s"
  shows "\<exists>s' s''. insert_entry x k s = Ret (0, s') \<and> remove x s' = Ret (0, s'') \<and>
     ok s'' \<and> entries s'' = entries s"
proof -
  obtain s' where s': "insert_entry x k s = Ret (0, s')" "ok s'"
    "entries s' = (entries s)(x \<mapsto> k)"
    using insert_room [OF assms] by blast
  moreover obtain s'' where "remove x s' = Ret (0, s'')" "ok s''"
    "entries s'' = (entries s')(x := None)"
    using remove_entry [OF s'(2) assms(2)] s'(3) by fastforce
  ultimately show ?thesis using assms(3) by (auto simp: fun_upd_idem)
qed

lemma search_finds_iff: "ok s \<Longrightarrow> nameable x \<Longrightarrow>
    search x s = Ret (i, s) \<Longrightarrow> i \<noteq> -1 \<longleftrightarrow> x \<in> dom (entries s)"
  using search_map [of s x] entries_range [of s x]
  by (cases "entries s x") (force simp: domIff)+

end

definition root_room :: "fs \<Rightarrow> bool" where
  "root_room s \<longleftrightarrow> dir_free (fs_data s) 0 (nents s) \<noteq> None"

definition file_name :: "cstring \<Rightarrow> bool" where
  "file_name x \<longleftrightarrow> is_cstring x \<and> x \<noteq> [] \<and> length x < 40"

definition unlisted :: "int \<Rightarrow> fs \<Rightarrow> bool" where
  "unlisted k s \<longleftrightarrow> 0 \<le> k \<and> k < 2 ^ 31 \<and>
     (\<forall>i<nents s. live (fs_data s) 0 i \<longrightarrow> d_inumber (fs_data s) 0 i \<noteq> k)"

lemma root_ok_data [simp]:
  "root_ok s \<Longrightarrow> root_ok (s\<lparr>fs_data := m\<rparr>) \<longleftrightarrow> dir_wf m 0 (nents s)"
  by (auto simp: root_ok_def nents_def)

lemma nents_data [simp]: "nents (s\<lparr>fs_data := m\<rparr>) = nents s"
  by (simp add: nents_def)

lemma wiped_room: "i < n \<Longrightarrow> dir_free (wipe_entry 0 i m) 0 n \<noteq> None"
  by (auto simp: dir_free_def find_None_iff wipe_entry_fields)

interpretation root: directory "find_in_dir ROOT_DIR_INUM" "add_dir_entry ROOT_DIR_INUM"
  "clear_dir_entry ROOT_DIR_INUM" root_map root_ok root_room file_name unlisted
proof unfold_locales
  fix s x k assume s: "root_ok s"
  note wf = root_okD(5) [OF s]
  show "file_name x \<Longrightarrow> find_in_dir ROOT_DIR_INUM x s =
      Ret (case root_map s x of None \<Rightarrow> -1 | Some k \<Rightarrow> k, s)"
    using s by (simp add: find_in_dir_root file_name_def)
  show "root_map s x = Some k \<Longrightarrow> 0 \<le> k"
    using dir_wf_range [OF wf] by (simp add: root_map_def)
  show "\<not> root_room s \<Longrightarrow> add_dir_entry ROOT_DIR_INUM x k s = Ret (-1, s)"
    using s by (simp add: add_dir_entry_root root_room_def)
  show "file_name x \<Longrightarrow> root_map s x = None \<Longrightarrow> clear_dir_entry ROOT_DIR_INUM x s = Ret (-1, s)"
    using s by (simp add: clear_dir_entry_root file_name_def root_map_def dir_map_def)
  show "\<exists>s'. clear_dir_entry ROOT_DIR_INUM x s = Ret (0, s') \<and> root_ok s' \<and> root_room s' \<and>
      root_map s' = (root_map s)(x := None)" if "file_name x" and "root_map s x = Some k"
  proof -
    from that(2) obtain i where i: "dir_find (fs_data s) 0 (nents s) x = Some i"
      by (auto simp: root_map_def dir_map_def)
    then have "clear_dir_entry ROOT_DIR_INUM x s =
        Ret (0, s\<lparr>fs_data := wipe_entry 0 i (fs_data s)\<rparr>)"
      using s that(1) by (simp add: clear_dir_entry_root file_name_def)
    with i s show ?thesis
      using wipe_entry_map [OF wf, of i x] wipe_entry_wf [OF wf] wiped_room
      by (simp add: root_map_def root_room_def dir_find_Some [OF wf])
  qed
  show "\<exists>s'. add_dir_entry ROOT_DIR_INUM x k s = Ret (0, s') \<and> root_ok s' \<and>
      root_map s' = (root_map s)(x \<mapsto> k)"
    if "file_name x" and "root_map s x = None" and "unlisted k s" and "root_room s"
  proof -
    from that(4) obtain i where "dir_free (fs_data s) 0 (nents s) = Some i"
      by (auto simp: root_room_def)
    with s that show ?thesis
      using put_entry_wf [OF wf, of i x k] put_entry_map [OF wf, of i x k]
      by (auto simp: add_dir_entry_root file_name_def root_map_def unlisted_def)
  qed
qed

end
