(* ===== verification/Fs_Ops.thy ===== *)
theory Fs_Ops imports Fs_Dir begin

text \<open>
  The file system calls of \<^verbatim>\<open>fs/operations.c\<close>. A name argument is an option, \<open>None\<close> for NULL. The
  calls lock \<open>g_library_mutex\<close>, a default mutex: locking it when it is locked never returns, since
  the thread that would unlock it has left the library. The code compares the results of
  \<^verbatim>\<open>pthread_mutex_lock\<close> and \<^verbatim>\<open>pthread_mutex_unlock\<close> with \<open>-1\<close>; both return 0 or a positive error
  number, so those branches are never taken and have no counterpart here.
\<close>

unbundle bit_operations_syntax

section \<open>Parameters and modes\<close>

definition tfs_default_params :: tfs_params where
  "tfs_default_params = \<lparr>max_inode_count = 64, max_block_count = 1024,
     max_open_files_count = 16, block_size = 1024\<rparr>"

definition TFS_O_CREAT :: nat where "TFS_O_CREAT = 1"
definition TFS_O_TRUNC :: nat where "TFS_O_TRUNC = 2"
definition TFS_O_APPEND :: nat where "TFS_O_APPEND = 4"

definition has_flag :: "nat \<Rightarrow> nat \<Rightarrow> bool" where
  "has_flag mode flag \<longleftrightarrow> mode AND flag \<noteq> 0"

lemma has_flag_modes [simp]:
  "\<not> has_flag 0 f"
  "has_flag TFS_O_CREAT TFS_O_CREAT" "\<not> has_flag TFS_O_CREAT TFS_O_TRUNC"
  "\<not> has_flag TFS_O_CREAT TFS_O_APPEND" "\<not> has_flag TFS_O_APPEND TFS_O_CREAT"
  "\<not> has_flag TFS_O_APPEND TFS_O_TRUNC" "has_flag TFS_O_APPEND TFS_O_APPEND"
  by (simp_all add: has_flag_def TFS_O_CREAT_def TFS_O_TRUNC_def TFS_O_APPEND_def)

section \<open>The library mutex\<close>

definition mutex_lock :: "(fs, unit) prog" where
  "mutex_lock = (\<lambda>s. if g_library_mutex s then Deadlock else Ret ((), s\<lparr>g_library_mutex := True\<rparr>))"

definition mutex_unlock :: "(fs, unit) prog" where
  "mutex_unlock = modify (\<lambda>s. s\<lparr>g_library_mutex := False\<rparr>)"

text \<open>\<^verbatim>\<open>return v\<close> after unlocking.\<close>

definition unlock_return :: "'a \<Rightarrow> (fs, 'a) prog" where
  "unlock_return v = thn mutex_unlock (ret v)"

lemma mutex_lock_run [run_simps]:
  "\<not> g_library_mutex s \<Longrightarrow> mutex_lock s = Ret ((), s\<lparr>g_library_mutex := True\<rparr>)"
  "g_library_mutex s \<Longrightarrow> mutex_lock s = Deadlock"
  by (simp_all add: mutex_lock_def)

lemma unlock_return_run [run_simps]:
  "unlock_return v s = Ret (v, s\<lparr>g_library_mutex := False\<rparr>)"
  by (simp add: unlock_return_def mutex_unlock_def ret_def)

lemma bnd_lock:
  "bnd mutex_lock f s =
     (if g_library_mutex s then Deadlock else f () (s\<lparr>g_library_mutex := True\<rparr>))"
  by (simp add: bnd_def mutex_lock_def)

section \<open>Starting and stopping\<close>

definition tfs_init :: "c_heap \<Rightarrow> tfs_params option \<Rightarrow> (fs, int) prog" where
  "tfs_init h params_ptr =
     (let params = (case params_ptr of Some p \<Rightarrow> p | None \<Rightarrow> tfs_default_params) in
      bnd (state_init h params) (\<lambda>r.
      if r \<noteq> 0 then ret (-1)
      else
        bnd (inode_create T_DIRECTORY) (\<lambda>root.
        if root \<noteq> ROOT_DIR_INUM then ret (-1) else ret 0)))"

definition tfs_destroy :: "(fs, int) prog" where
  "tfs_destroy = bnd state_destroy (\<lambda>r. if r \<noteq> 0 then ret (-1) else ret 0)"

section \<open>Names\<close>

fun valid_pathname :: "cstring option \<Rightarrow> bool" where
  "valid_pathname None = False"
| "valid_pathname (Some name) = (length name > 1 \<and> hd name = 47)"

fun tfs_lookup :: "cstring option \<Rightarrow> int \<Rightarrow> (fs, int) prog" where
  "tfs_lookup name root_inode =
     (if \<not> valid_pathname name then ret (-1)
      else find_in_dir root_inode (tl (the name)))"

declare tfs_lookup.simps [simp del]

section \<open>Opening and closing\<close>

definition tfs_open_handle :: "int \<Rightarrow> nat \<Rightarrow> (fs, int) prog" where
  "tfs_open_handle inum offset = bnd (add_to_open_file_table inum offset) unlock_return"

definition tfs_open :: "cstring option \<Rightarrow> nat \<Rightarrow> (fs, int) prog" where
  "tfs_open name mode =
     thn mutex_lock
    (if \<not> valid_pathname name then unlock_return (-1)
     else
       bnd (inode_get ROOT_DIR_INUM) (\<lambda>root_dir_inode.
       bnd (tfs_lookup name root_dir_inode) (\<lambda>inum.
       if inum \<ge> 0 then
         bnd (inode_get inum) (\<lambda>inode.
         bnd (inode_at inode) (\<lambda>before.
         thn (if has_flag mode TFS_O_TRUNC \<and> i_size before > 0
              then thn (data_block_free (i_data_block before))
                       (set_inode inode (i_size_update (\<lambda>_. 0)))
              else ret ())
        (bnd (inode_at inode) (\<lambda>ino.
         tfs_open_handle inum (if has_flag mode TFS_O_APPEND then i_size ino else 0)))))
       else if has_flag mode TFS_O_CREAT then
         bnd (inode_create T_FILE) (\<lambda>inum.
         if inum = -1 then unlock_return (-1)
         else
           bnd (add_dir_entry root_dir_inode (tl (the name)) inum) (\<lambda>r.
           if r = -1 then thn (inode_delete inum) (unlock_return (-1))
           else tfs_open_handle inum 0))
       else unlock_return (-1))))"

definition tfs_close :: "int \<Rightarrow> (fs, int) prog" where
  "tfs_close fhandle =
     thn mutex_lock
    (bnd (get_open_file_entry fhandle) (\<lambda>file.
     if file = None then unlock_return (-1)
     else thn (remove_from_open_file_table fhandle) (unlock_return 0)))"

section \<open>Writing and reading\<close>

text \<open>
  \<open>buffer\<close> is the object the argument points to. \<^verbatim>\<open>memcpy\<close> is defined as long as it stays inside
  that object and inside the memory of the blocks; nothing else limits it.
\<close>

definition tfs_write :: "int \<Rightarrow> byte list \<Rightarrow> nat \<Rightarrow> (fs, int) prog" where
  "tfs_write fhandle buffer to_write =
     thn mutex_lock
    (bnd (get_open_file_entry fhandle) (\<lambda>entry.
     case entry of None \<Rightarrow> unlock_return (-1)
     | Some file \<Rightarrow>
       bnd (bnd (open_file_at file) (\<lambda>f. inode_get (of_inumber f))) (\<lambda>inode.
       if to_write > 0 then
         bnd (inode_at inode) (\<lambda>before.
         bnd (if i_size before = 0 then data_block_alloc else ret (i_data_block before)) (\<lambda>bnum.
         if i_size before = 0 \<and> bnum = -1 then unlock_return (-1)
         else
           thn (if i_size before = 0 then set_inode inode (i_data_block_update (\<lambda>_. bnum)) else ret ())
          (bnd (inode_at inode) (\<lambda>ino.
           bnd (data_block_get (i_data_block ino)) (\<lambda>block.
           bnd (open_file_at file) (\<lambda>f.
           bnd (gets fs_data_size) (\<lambda>sz.
           thn (defined (to_write \<le> length buffer \<and> block + of_offset f + to_write \<le> sz))
          (thn (modify (\<lambda>s. s\<lparr>fs_data :=
                  mem_write (fs_data s) (block + of_offset f) (take to_write buffer)\<rparr>))
          (thn (set_offset file (of_offset f + to_write))
          (thn (if of_offset f + to_write > i_size ino
                then set_inode inode (i_size_update (\<lambda>_. of_offset f + to_write)) else ret ())
               (unlock_return (c_ssize to_write))))))))))))
       else unlock_return (c_ssize to_write))))"

text \<open>The bytes read come with the returned count, as the new contents of the caller's buffer.\<close>

definition tfs_read :: "int \<Rightarrow> nat \<Rightarrow> (fs, int \<times> byte list) prog" where
  "tfs_read fhandle len =
     thn mutex_lock
    (bnd (get_open_file_entry fhandle) (\<lambda>entry.
     case entry of None \<Rightarrow> unlock_return (-1, [])
     | Some file \<Rightarrow>
       bnd (bnd (open_file_at file) (\<lambda>f. inode_get (of_inumber f))) (\<lambda>inode.
       if len > 0 then
         bnd (inode_at inode) (\<lambda>ino.
         bnd (data_block_get (i_data_block ino)) (\<lambda>block.
         bnd (open_file_at file) (\<lambda>f.
         bnd (gets fs_data_size) (\<lambda>sz.
         thn (defined (block + of_offset f + len \<le> sz))
        (bnd (gets (\<lambda>s. mem_read (fs_data s) (block + of_offset f) len)) (\<lambda>bytes.
         thn (set_offset file (of_offset f + len))
             (unlock_return (c_ssize len, bytes))))))))
       else unlock_return (c_ssize len, []))))"

text \<open>The early return for a handle already at offset 0 does not unlock the mutex.\<close>

definition tfs_rewind_offset :: "int \<Rightarrow> (fs, int) prog" where
  "tfs_rewind_offset fhandle =
     thn mutex_lock
    (bnd (get_open_file_entry fhandle) (\<lambda>entry.
     case entry of None \<Rightarrow> unlock_return (-1)
     | Some file \<Rightarrow>
       bnd (open_file_at file) (\<lambda>f.
       thn (inode_get (of_inumber f))
      (if of_offset f = 0 then ret 0
       else thn (set_offset file 0) (unlock_return 0)))))"

section \<open>Unlinking\<close>

definition tfs_unlink :: "cstring option \<Rightarrow> (fs, int) prog" where
  "tfs_unlink target =
     thn mutex_lock
    (if \<not> valid_pathname target then unlock_return (-1)
     else
       bnd (inode_get ROOT_DIR_INUM) (\<lambda>root_dir_inode.
       bnd (tfs_lookup target root_dir_inode) (\<lambda>inum.
       if inum = -1 then unlock_return (-1)
       else
         thn (inode_delete inum)
        (bnd (clear_dir_entry root_dir_inode (tl (the target))) (\<lambda>r.
         if r = -1 then unlock_return (-1) else unlock_return 0)))))"

end
