(* ===== verification/Fs_Inv.thy ===== *)
theory Fs_Inv imports Fs_Ops begin

text \<open>
  The invariant of the file system and what each call does on a state that satisfies it. The calls
  are first run: each is shown equal to a plain function of the state, branch by branch. The
  invariant is then shown for those functions.
\<close>

section \<open>The invariant\<close>

definition handle_open :: "fs \<Rightarrow> int \<Rightarrow> bool" where
  "handle_open s h \<longleftrightarrow> valid_file_handle h s \<and> free_open_file_entries s ! nat h = TAKEN"

definition handle_entry :: "fs \<Rightarrow> int \<Rightarrow> open_file_entry_t" where
  "handle_entry s h = open_file_table s ! nat h"

definition inode_taken :: "fs \<Rightarrow> int \<Rightarrow> bool" where
  "inode_taken s k \<longleftrightarrow> valid_inumber k s \<and> freeinode_ts s ! nat k = TAKEN"

definition inode_of :: "fs \<Rightarrow> int \<Rightarrow> inode_t" where
  "inode_of s k = inodes s ! nat k"

definition listed :: "fs \<Rightarrow> int \<Rightarrow> bool" where
  "listed s k \<longleftrightarrow> (\<exists>i<nents s. live (fs_data s) 0 i \<and> d_inumber (fs_data s) 0 i = k)"

text \<open>The root directory: inode 0 and block 0, both taken.\<close>

definition inv_root :: "fs \<Rightarrow> bool" where
  "inv_root s \<longleftrightarrow> root_ok s \<and> inode_taken s 0 \<and> free_blocks s ! 0 = TAKEN"

text \<open>The inodes in use besides the root are the ones the root directory lists.\<close>

definition inv_listed :: "fs \<Rightarrow> bool" where
  "inv_listed s \<longleftrightarrow> (\<forall>k. listed s k \<longleftrightarrow> 0 < k \<and> inode_taken s k)"

text \<open>
  Every other inode in use, and every inode an open handle refers to (even after its file was
  unlinked), is a file whose block, if it has data, is a valid block other than the root's.
\<close>

definition file_inode_ok :: "fs \<Rightarrow> inode_t \<Rightarrow> bool" where
  "file_inode_ok s n \<longleftrightarrow> i_node_type n = T_FILE \<and>
     (0 < i_size n \<longrightarrow> 0 < i_data_block n \<and> valid_block_number (i_data_block n) s)"

definition inv_files :: "fs \<Rightarrow> bool" where
  "inv_files s \<longleftrightarrow>
     (\<forall>k. 0 < k \<longrightarrow> inode_taken s k \<longrightarrow> file_inode_ok s (inode_of s k)) \<and>
     (\<forall>h. handle_open s h \<longrightarrow>
        (let k = of_inumber (handle_entry s h) in
         0 < k \<and> valid_inumber k s \<and> file_inode_ok s (inode_of s k)))"

text \<open>The blocks of files with data are taken, and no two files share one.\<close>

definition has_data :: "fs \<Rightarrow> int \<Rightarrow> bool" where
  "has_data s k \<longleftrightarrow> 0 < k \<and> inode_taken s k \<and> 0 < i_size (inode_of s k)"

definition inv_blocks :: "fs \<Rightarrow> bool" where
  "inv_blocks s \<longleftrightarrow>
     (\<forall>k. has_data s k \<longrightarrow> free_blocks s ! nat (i_data_block (inode_of s k)) = TAKEN) \<and>
     (\<forall>j k. has_data s j \<longrightarrow> has_data s k \<longrightarrow>
        i_data_block (inode_of s j) = i_data_block (inode_of s k) \<longrightarrow> j = k)"

definition fs_inv :: "fs \<Rightarrow> bool" where
  "fs_inv s \<longleftrightarrow> inv_root s \<and> inv_listed s \<and> inv_files s \<and> inv_blocks s"

lemma fs_invD:
  assumes "fs_inv s"
  shows "inv_root s" and "inv_listed s" and "inv_files s" and "inv_blocks s" and "root_ok s"
    and "tables_ok s" and "inode_taken s 0" and "free_blocks s ! 0 = TAKEN"
    and "dir_wf (fs_data s) 0 (nents s)"
  using assms root_okD by (auto simp: fs_inv_def inv_root_def)

text \<open>The mutex is not part of the invariant.\<close>

lemma mutex_irrelevant [simp]:
  "fs_inv (s\<lparr>g_library_mutex := b\<rparr>) = fs_inv s"
  "root_ok (s\<lparr>g_library_mutex := b\<rparr>) = root_ok s"
  "root_map (s\<lparr>g_library_mutex := b\<rparr>) = root_map s"
  "nents (s\<lparr>g_library_mutex := b\<rparr>) = nents s"
  "handle_open (s\<lparr>g_library_mutex := b\<rparr>) = handle_open s"
  "handle_entry (s\<lparr>g_library_mutex := b\<rparr>) = handle_entry s"
  "inode_of (s\<lparr>g_library_mutex := b\<rparr>) = inode_of s"
  "inode_taken (s\<lparr>g_library_mutex := b\<rparr>) = inode_taken s"
  "tables_ok (s\<lparr>g_library_mutex := b\<rparr>) = tables_ok s"
proof -
  have [simp]: "tables_ok (s\<lparr>g_library_mutex := b\<rparr>) = tables_ok s"
    by (simp add: tables_ok_def)
  have [simp]: "root_ok (s\<lparr>g_library_mutex := b\<rparr>) = root_ok s"
    by (simp add: root_ok_def nents_def)
  show "fs_inv (s\<lparr>g_library_mutex := b\<rparr>) = fs_inv s"
    by (simp add: fs_inv_def inv_root_def inv_listed_def inv_files_def inv_blocks_def
        listed_def handle_open_def handle_entry_def inode_taken_def inode_of_def has_data_def
        file_inode_ok_def valid_inumber_def valid_block_number_def valid_file_handle_def nents_def)
qed (simp_all add: root_ok_def root_map_def nents_def handle_open_def handle_entry_def inode_of_def
    inode_taken_def valid_inumber_def valid_file_handle_def tables_ok_def fun_eq_iff)

lemmas view_defs = listed_def handle_open_def handle_entry_def inode_taken_def inode_of_def
  has_data_def file_inode_ok_def valid_inumber_def valid_block_number_def valid_file_handle_def
  nents_def

section \<open>What the calls do to the state\<close>

definition open_entry :: "int \<Rightarrow> nat \<Rightarrow> fs \<Rightarrow> int \<times> fs" where
  "open_entry k off s =
     (case first_free (free_open_file_entries s) of None \<Rightarrow> (-1, s)
      | Some i \<Rightarrow> (int i, s\<lparr>
          free_open_file_entries := (free_open_file_entries s)[i := TAKEN],
          open_file_table := (open_file_table s)[i := \<lparr>of_inumber = k, of_offset = off\<rparr>]\<rparr>))"

definition trunc_file :: "int \<Rightarrow> fs \<Rightarrow> fs" where
  "trunc_file k s =
     (if 0 < i_size (inode_of s k) then
        s\<lparr>free_blocks := (free_blocks s)[nat (i_data_block (inode_of s k)) := FREE],
          inode_table := Some ((inodes s)[nat k := (inode_of s k)\<lparr>i_size := 0\<rparr>])\<rparr>
      else s)"

definition empty_file :: inode_t where
  "empty_file = \<lparr>i_node_type = T_FILE, i_size = 0, i_data_block = -1\<rparr>"

definition reset_inode :: "nat \<Rightarrow> fs \<Rightarrow> fs" where
  "reset_inode k s = s\<lparr>inode_table := Some ((inodes s)[k := empty_file])\<rparr>"

definition create_file :: "nat \<Rightarrow> nat \<Rightarrow> cstring \<Rightarrow> fs \<Rightarrow> fs" where
  "create_file k i name s =
     (reset_inode k s)\<lparr>freeinode_ts := (freeinode_ts s)[k := TAKEN],
        fs_data := put_entry 0 i name (int k) (fs_data s)\<rparr>"

definition delete_file :: "int \<Rightarrow> nat \<Rightarrow> fs \<Rightarrow> fs" where
  "delete_file k i s =
     s\<lparr>free_blocks := (if 0 < i_size (inode_of s k)
         then (free_blocks s)[nat (i_data_block (inode_of s k)) := FREE] else free_blocks s),
       freeinode_ts := (freeinode_ts s)[nat k := FREE],
       fs_data := wipe_entry 0 i (fs_data s)\<rparr>"

definition move_to :: "int \<Rightarrow> nat \<Rightarrow> fs \<Rightarrow> fs" where
  "move_to h off s = s\<lparr>open_file_table :=
     (open_file_table s)[nat h := (handle_entry s h)\<lparr>of_offset := off\<rparr>]\<rparr>"

text \<open>Writing \<open>bs\<close> through a handle into block \<open>b\<close> of its inode.\<close>

definition store :: "int \<Rightarrow> int \<Rightarrow> byte list \<Rightarrow> fs \<Rightarrow> fs" where
  "store h b bs s =
     (let k = of_inumber (handle_entry s h); off = of_offset (handle_entry s h);
          n = inode_of s k in
      (move_to h (off + length bs) s)\<lparr>
        fs_data := mem_write (fs_data s) (nat b * block_size (fs_params s) + off) bs,
        inode_table := Some ((inodes s)[nat k :=
           n\<lparr>i_data_block := b, i_size := max (i_size n) (off + length bs)\<rparr>])\<rparr>)"

definition take_block :: "nat \<Rightarrow> fs \<Rightarrow> fs" where
  "take_block b s = s\<lparr>free_blocks := (free_blocks s)[b := TAKEN]\<rparr>"

abbreviation unlocked :: "fs \<Rightarrow> fs" where
  "unlocked s \<equiv> s\<lparr>g_library_mutex := False\<rparr>"

lemma fresh_inode: "n\<lparr>i_node_type := T_FILE, i_size := 0, i_data_block := -1\<rparr> = empty_file"
  by (cases n) (simp add: empty_file_def)

lemma tfs_open_handle_run:
  "tables_ok s \<Longrightarrow> tfs_open_handle k off s =
     (case open_entry k off s of (h, t) \<Rightarrow> Ret (h, unlocked t))"
  by (simp add: tfs_open_handle_def open_entry_def add_to_open_file_table_run bnd_def
      unlock_return_run split: option.splits)

lemma inode_create_file_run:
  assumes "tables_ok s"
  shows "inode_create T_FILE s =
     (case first_free (freeinode_ts s) of None \<Rightarrow> Ret (-1, s)
      | Some k \<Rightarrow> Ret (int k, (reset_inode k s)\<lparr>freeinode_ts := (freeinode_ts s)[k := TAKEN]\<rparr>))"
proof (cases "first_free (freeinode_ts s)")
  case None
  with assms show ?thesis
    by (simp add: inode_create_def bnd_def inode_alloc_run ret_def)
next
  case (Some k)
  then have k: "k < length (inodes s)"
    using tables_okD(1,2) [OF assms] by (simp add: first_free_Some)
  let ?t = "s\<lparr>freeinode_ts := (freeinode_ts s)[k := TAKEN]\<rparr>"
  have "inode_alloc s = Ret (int k, ?t)"
    using assms Some by (simp add: inode_alloc_run)
  with k Some show ?thesis
    by (simp add: inode_create_def bnd_Ret bnd_Ret [OF set_inode_run] ret_def
        reset_inode_def fresh_inode)
qed

lemma handle_open_index:
  "tables_ok s \<Longrightarrow> handle_open s h \<Longrightarrow> 0 \<le> h \<and> nat h < length (open_file_table s)"
  using tables_okD(5) [of s] by (auto simp: handle_open_def valid_file_handle_def)

lemma get_open_file_entry_view:
  "tables_ok s \<Longrightarrow> get_open_file_entry h s = Ret (if handle_open s h then Some (nat h) else None, s)"
  by (simp add: get_open_file_entry_run handle_open_def)

lemma tfs_close_run:
  "tables_ok s \<Longrightarrow> \<not> g_library_mutex s \<Longrightarrow> tfs_close h s =
     (if handle_open s h
      then Ret (0, unlocked (s\<lparr>free_open_file_entries := (free_open_file_entries s)[nat h := FREE]\<rparr>))
      else Ret (-1, unlocked s))"
  by (auto simp: tfs_close_def bnd_lock bnd_Ret [OF get_open_file_entry_view] unlock_return_run
      bnd_Ret [OF remove_from_open_file_table_run] handle_open_def valid_file_handle_def)

lemma tfs_rewind_offset_run:
  assumes "fs_inv s" and "\<not> g_library_mutex s"
  shows "tfs_rewind_offset h s =
     (if \<not> handle_open s h then Ret (-1, unlocked s)
      else if of_offset (handle_entry s h) = 0 then Ret (0, s\<lparr>g_library_mutex := True\<rparr>)
      else Ret (0, unlocked (move_to h 0 s)))"
proof (cases "handle_open s h")
  case False
  with assms fs_invD(6) show ?thesis
    by (simp add: tfs_rewind_offset_def bnd_lock bnd_Ret [OF get_open_file_entry_view]
        unlock_return_run)
next
  case True
  note t = fs_invD(6) [OF assms(1)]
  note i = handle_open_index [OF t True]
  from fs_invD(3) [OF assms(1)] True have "valid_inumber (of_inumber (handle_entry s h)) s"
    by (auto simp: inv_files_def Let_def)
  with True i t assms(2) show ?thesis
    by (simp add: tfs_rewind_offset_def bnd_lock bnd_Ret [OF get_open_file_entry_view]
        bnd_Ret [OF open_file_at_run] bnd_Ret [OF inode_get_run(1)] valid_inumber_def
        bnd_Ret [OF set_offset_run] unlock_return_run ret_def handle_entry_def move_to_def)
qed

section \<open>Opening and unlinking on the model\<close>

definition open_existing :: "int \<Rightarrow> nat \<Rightarrow> fs \<Rightarrow> int \<times> fs" where
  "open_existing k mode s =
     (let t = (if has_flag mode TFS_O_TRUNC then trunc_file k s else s) in
      open_entry k (if has_flag mode TFS_O_APPEND then i_size (inode_of t k) else 0) t)"

definition open_new :: "cstring \<Rightarrow> fs \<Rightarrow> int \<times> fs" where
  "open_new name s =
     (case first_free (freeinode_ts s) of None \<Rightarrow> (-1, s)
      | Some k \<Rightarrow>
          (case (if 40 \<le> length name then None else dir_free (fs_data s) 0 (nents s)) of
             None \<Rightarrow> (-1, reset_inode k s)
           | Some i \<Rightarrow> open_entry (int k) 0 (create_file k i name s)))"

definition open_result :: "cstring \<Rightarrow> nat \<Rightarrow> fs \<Rightarrow> int \<times> fs" where
  "open_result name mode s =
     (case root_map s name of
        Some k \<Rightarrow> open_existing k mode s
      | None \<Rightarrow> if has_flag mode TFS_O_CREAT then open_new name s else (-1, s))"

lemma mutex_commutes [simp]:
  "open_entry k off (s\<lparr>g_library_mutex := b\<rparr>)
     = (case open_entry k off s of (h, t) \<Rightarrow> (h, t\<lparr>g_library_mutex := b\<rparr>))"
  "trunc_file k (s\<lparr>g_library_mutex := b\<rparr>) = (trunc_file k s)\<lparr>g_library_mutex := b\<rparr>"
  "reset_inode n (s\<lparr>g_library_mutex := b\<rparr>) = (reset_inode n s)\<lparr>g_library_mutex := b\<rparr>"
  "create_file n i name (s\<lparr>g_library_mutex := b\<rparr>)
     = (create_file n i name s)\<lparr>g_library_mutex := b\<rparr>"
  "delete_file k i (s\<lparr>g_library_mutex := b\<rparr>) = (delete_file k i s)\<lparr>g_library_mutex := b\<rparr>"
  "move_to h off (s\<lparr>g_library_mutex := b\<rparr>) = (move_to h off s)\<lparr>g_library_mutex := b\<rparr>"
  "store h blk bs (s\<lparr>g_library_mutex := b\<rparr>) = (store h blk bs s)\<lparr>g_library_mutex := b\<rparr>"
  "take_block n (s\<lparr>g_library_mutex := b\<rparr>) = (take_block n s)\<lparr>g_library_mutex := b\<rparr>"
  by (simp_all add: open_entry_def trunc_file_def reset_inode_def create_file_def delete_file_def
      move_to_def store_def take_block_def Let_def split: option.splits)

lemma mutex_commutes_open [simp]:
  "open_existing k mode (s\<lparr>g_library_mutex := b\<rparr>)
     = (case open_existing k mode s of (h, t) \<Rightarrow> (h, t\<lparr>g_library_mutex := b\<rparr>))"
  "open_new name (s\<lparr>g_library_mutex := b\<rparr>)
     = (case open_new name s of (h, t) \<Rightarrow> (h, t\<lparr>g_library_mutex := b\<rparr>))"
  by (simp_all add: open_existing_def open_new_def Let_def split: option.splits)

text \<open>Facts about a name the root directory holds.\<close>

lemma root_map_listed: "root_ok s \<Longrightarrow> root_map s x = Some k \<Longrightarrow> listed s k"
  by (auto simp: root_map_def dir_map_Some [OF root_okD(5)] listed_def)

lemma root_map_taken:
  assumes "fs_inv s" and "root_map s x = Some k"
  shows "0 < k" and "inode_taken s k" and "valid_inumber k s" and "file_inode_ok s (inode_of s k)"
    and "nat k < length (inodes s)" and "deletable k s"
proof -
  from assms have "0 < k \<and> inode_taken s k"
    using root_map_listed [OF fs_invD(5)] fs_invD(2) by (auto simp: inv_listed_def)
  with fs_invD(3) [OF assms(1)] tables_okD(1) [OF fs_invD(6) [OF assms(1)]]
  show "0 < k" "inode_taken s k" "valid_inumber k s" "file_inode_ok s (inode_of s k)"
    "nat k < length (inodes s)" "deletable k s"
    by (auto simp: inv_files_def inode_taken_def valid_inumber_def deletable_def file_inode_ok_def
        inode_of_def)
qed

lemma tfs_lookup_run:
  assumes "fs_inv s" and "is_cstring name" and "name \<noteq> []"
  shows "tfs_lookup (Some (47 # name)) ROOT_DIR_INUM s =
     Ret (case root_map s name of None \<Rightarrow> -1 | Some k \<Rightarrow> k, s)"
  using assms fs_invD(5) by (simp add: tfs_lookup.simps find_in_dir_root)

lemma root_inode_get: "fs_inv s \<Longrightarrow> inode_get ROOT_DIR_INUM s = Ret (ROOT_DIR_INUM, s)"
  using fs_invD(7) [of s] by (simp add: inode_get_run inode_taken_def ROOT_DIR_INUM_def)

lemma fresh_slot:
  assumes "fs_inv s" and "first_free (freeinode_ts s) = Some k"
  shows "0 < k" and "k < length (inodes s)" and "k < length (freeinode_ts s)"
    and "\<not> inode_taken s (int k)" and "valid_inumber (int k) s"
proof -
  note t = tables_okD(1,2) [OF fs_invD(6) [OF assms(1)]]
  from assms(2) have "freeinode_ts s ! k = FREE" and "k < length (freeinode_ts s)"
    by (simp_all add: first_free_Some)
  with t fs_invD(7) [OF assms(1)]
  show "0 < k" "k < length (inodes s)" "k < length (freeinode_ts s)"
    "\<not> inode_taken s (int k)" "valid_inumber (int k) s"
    by (auto simp: inode_taken_def valid_inumber_def intro!: gr0I)
qed

text \<open>The part of \<^verbatim>\<open>tfs_open\<close> that creates the file, from a state without that name.\<close>

lemma open_new_run:
  assumes "fs_inv s" and "is_cstring name" and "name \<noteq> []"
  shows "bnd (inode_create T_FILE) (\<lambda>inum.
         if inum = -1 then unlock_return (-1)
         else
           bnd (add_dir_entry ROOT_DIR_INUM name inum) (\<lambda>r.
           if r = -1 then thn (inode_delete inum) (unlock_return (-1))
           else tfs_open_handle inum 0)) s
     = (case open_new name s of (h, t) \<Rightarrow> Ret (h, unlocked t))"
proof (cases "first_free (freeinode_ts s)")
  case None
  with assms(1) show ?thesis
    by (simp add: bnd_def inode_create_file_run fs_invD(6) unlock_return_run open_new_def)
next
  case (Some k)
  note f = fresh_slot [OF assms(1) Some]
  let ?t = "(reset_inode k s)\<lparr>freeinode_ts := (freeinode_ts s)[k := TAKEN]\<rparr>"
  have create: "inode_create T_FILE s = Ret (int k, ?t)"
    using Some by (simp add: inode_create_file_run fs_invD(6) [OF assms(1)])
  have root: "root_ok ?t"
    using fs_invD(5) [OF assms(1)] f(1,2)
    by (simp add: root_ok_def reset_inode_def nents_def tables_ok_def Let_def inode_of_def)
  have del: "deletable (int k) ?t" "valid_inumber (int k) ?t"
    using f by (simp_all add: deletable_def reset_inode_def valid_inumber_def empty_file_def)
  have same: "nents ?t = nents s" "fs_data ?t = fs_data s"
    by (simp_all add: nents_def reset_inode_def)
  have undo: "?t\<lparr>free_blocks := free_blocks ?t, freeinode_ts := (freeinode_ts ?t)[k := FREE]\<rparr>
      = reset_inode k s"
    using Some by (simp add: reset_inode_def first_free_Some list_update_same_conv)
  show ?thesis
  proof (cases "if 40 \<le> length name then None else dir_free (fs_data s) 0 (nents s)")
    case None
    then have "add_dir_entry ROOT_DIR_INUM name (int k) ?t = Ret (-1, ?t)"
      using assms(3) same by (auto simp: add_dir_entry_root [OF root] split: if_splits)
    moreover have "inode_delete (int k) ?t = Ret ((), reset_inode k s)"
      using root_okD(1) [OF root] del undo f(2)
      by (simp add: inode_delete_run) (simp add: reset_inode_def empty_file_def)
    ultimately show ?thesis
      using None Some
      by (simp add: create bnd_Ret unlock_return_run open_new_def)
  next
    case (Some i)
    then have "add_dir_entry ROOT_DIR_INUM name (int k) ?t =
        Ret (0, create_file k i name s)"
      using assms(3) same
      by (auto simp: add_dir_entry_root [OF root] create_file_def split: if_splits)
    moreover have "tables_ok (create_file k i name s)"
      using fs_invD(6) [OF assms(1)] by (simp add: create_file_def reset_inode_def)
    ultimately show ?thesis
      using Some \<open>first_free (freeinode_ts s) = Some k\<close>
      by (simp add: create bnd_Ret tfs_open_handle_run open_new_def)
  qed
qed

lemma trunc_file_run:
  assumes "fs_inv s" and "root_map s x = Some k"
  shows "(if has_flag mode TFS_O_TRUNC \<and> 0 < i_size (inode_of s k)
          then thn (data_block_free (i_data_block (inode_of s k)))
                   (set_inode k (i_size_update (\<lambda>_. 0)))
          else ret ()) s
     = Ret ((), if has_flag mode TFS_O_TRUNC then trunc_file k s else s)"
proof -
  note k = root_map_taken [OF assms]
  then have "0 < i_size (inode_of s k) \<Longrightarrow> valid_block_number (i_data_block (inode_of s k)) s"
    by (simp add: file_inode_ok_def)
  with k fs_invD(6) [OF assms(1)] show ?thesis
    by (auto simp: trunc_file_def ret_def bnd_Ret [OF data_block_free_run] set_inode_run inode_of_def)
qed

lemma tfs_open_run:
  assumes "fs_inv s" and "\<not> g_library_mutex s" and "is_cstring name" and "name \<noteq> []"
  shows "tfs_open (Some (47 # name)) mode s =
     (case open_result name mode s of (h, t) \<Rightarrow> Ret (h, unlocked t))"
proof -
  let ?s = "s\<lparr>g_library_mutex := True\<rparr>"
  have inv: "fs_inv ?s" using assms(1) by simp
  note pre = tfs_open_def bnd_lock assms(2) bnd_Ret root_inode_get [OF inv]
    tfs_lookup_run [OF inv assms(3,4)]
  show ?thesis
  proof (cases "root_map s name")
    case None
    then show ?thesis
      using open_new_run [OF inv assms(3,4)] assms(4)
      unfolding tfs_open_def option.sel list.sel
      by (simp add: pre open_result_def unlock_return_run split: prod.splits)
  next
    case (Some k)
    note k = root_map_taken [OF assms(1) Some]
    have rm: "root_map ?s name = Some k" using Some by simp
    from k have run: "inode_get k ?s = Ret (k, ?s)" "inode_at k ?s = Ret (inode_of s k, ?s)"
      by (simp_all add: inode_get_run inode_at_run inode_of_def valid_inumber_def)
    let ?t = "if has_flag mode TFS_O_TRUNC then trunc_file k ?s else ?s"
    have t: "tables_ok ?t" "inode_at k ?t = Ret (inode_of ?t k, ?t)"
      using k fs_invD(6) [OF inv]
      by (auto simp: trunc_file_def inode_at_run inode_of_def)
    have trunc: "(if has_flag mode TFS_O_TRUNC \<and> 0 < i_size (inode_of s k)
          then thn (data_block_free (i_data_block (inode_of s k)))
                   (set_inode k (i_size_update (\<lambda>_. 0)))
          else ret ()) ?s = Ret ((), ?t)"
      using trunc_file_run [OF inv rm, of mode] by (simp only: mutex_irrelevant)
    have "tfs_open (Some (47 # name)) mode s =
       tfs_open_handle k (if has_flag mode TFS_O_APPEND then i_size (inode_of ?t k) else 0) ?t"
      using Some k(1) assms(4) by (simp add: pre run trunc t(2))
    then show ?thesis
      using Some by (simp add: tfs_open_handle_run [OF t(1)] open_result_def open_existing_def Let_def
          split: prod.splits)
  qed
qed

definition unlink_result :: "cstring \<Rightarrow> fs \<Rightarrow> int \<times> fs" where
  "unlink_result name s =
     (case dir_find (fs_data s) 0 (nents s) name of None \<Rightarrow> (-1, s)
      | Some i \<Rightarrow> (0, delete_file (d_inumber (fs_data s) 0 i) i s))"

lemma dir_find_name:
  assumes "fs_inv s" and "dir_find (fs_data s) 0 (nents s) name = Some i"
  shows "length name < 40" and "i < nents s" and "live (fs_data s) 0 i"
    and "ename (fs_data s) 0 i = name"
    and "root_map s name = Some (d_inumber (fs_data s) 0 i)"
proof -
  note wf = fs_invD(9) [OF assms(1)]
  with assms(2) show i: "i < nents s" "live (fs_data s) 0 i" "ename (fs_data s) 0 i = name"
    by (simp_all add: dir_find_Some)
  show "root_map s name = Some (d_inumber (fs_data s) 0 i)"
    using assms(2) by (simp add: root_map_def dir_map_def)
  have "0 \<in> set (d_name (fs_data s) 0 i)"
    using wf i unfolding dir_wf_def by blast
  from length_cstr [OF this] i(3) show "length name < 40" by (simp add: ename_def)
qed

lemma tfs_unlink_run:
  assumes "fs_inv s" and "\<not> g_library_mutex s" and "is_cstring name" and "name \<noteq> []"
  shows "tfs_unlink (Some (47 # name)) s =
     (case unlink_result name s of (r, t) \<Rightarrow> Ret (r, unlocked t))"
proof -
  let ?s = "s\<lparr>g_library_mutex := True\<rparr>"
  have inv: "fs_inv ?s" using assms(1) by simp
  note pre = tfs_unlink_def bnd_lock assms(2) bnd_Ret root_inode_get [OF inv]
    tfs_lookup_run [OF inv assms(3,4)]
  show ?thesis
  proof (cases "dir_find (fs_data s) 0 (nents s) name")
    case None
    then have "root_map s name = None" by (simp add: root_map_def dir_map_def)
    with None assms(4) show ?thesis by (simp add: pre unlink_result_def unlock_return_run)
  next
    case (Some i)
    note i = dir_find_name [OF assms(1) Some]
    let ?k = "d_inumber (fs_data s) 0 i"
    let ?t = "?s\<lparr>free_blocks := (if 0 < i_size (inode_of s ?k)
         then (free_blocks s)[nat (i_data_block (inode_of s ?k)) := FREE] else free_blocks s),
       freeinode_ts := (freeinode_ts s)[nat ?k := FREE]\<rparr>"
    note k = root_map_taken [OF assms(1) i(5)]
    then have del: "inode_delete ?k ?s = Ret ((), ?t)"
      using fs_invD(6) [OF inv]
      by (simp add: inode_delete_run inode_of_def deletable_def valid_inumber_def
          valid_block_number_def)
    have root: "root_ok ?t"
      using fs_invD(5) [OF assms(1)] k(5)
      by (simp add: root_ok_def nents_def tables_ok_def Let_def inode_of_def)
    have "nents ?t = nents s" by (simp add: nents_def)
    with Some i have "clear_dir_entry ROOT_DIR_INUM name ?t
        = Ret (0, (delete_file ?k i s)\<lparr>g_library_mutex := True\<rparr>)"
      using assms(3,4) by (simp add: clear_dir_entry_root [OF root] delete_file_def)
    with i(5) k(1) Some assms(4) show ?thesis
      by (simp add: pre del unlink_result_def unlock_return_run)
  qed
qed

section \<open>Reading and writing on the model\<close>

definition block_addr :: "fs \<Rightarrow> int \<Rightarrow> nat" where
  "block_addr s b = nat b * block_size (fs_params s)"

lemma open_handle_facts:
  assumes "fs_inv s" and "handle_open s h"
  defines "k \<equiv> of_inumber (handle_entry s h)"
  shows "0 < k" and "valid_inumber k s" and "file_inode_ok s (inode_of s k)"
    and "nat k < length (inodes s)" and "nat h < length (open_file_table s)"
proof -
  show "0 < k" "valid_inumber k s" "file_inode_ok s (inode_of s k)"
    using fs_invD(3) [OF assms(1)] assms(2) by (auto simp: inv_files_def Let_def k_def)
  then show "nat k < length (inodes s)"
    using tables_okD(1) [OF fs_invD(6) [OF assms(1)]] by (auto simp: valid_inumber_def)
  show "nat h < length (open_file_table s)"
    using handle_open_index [OF fs_invD(6) [OF assms(1)] assms(2)] by simp
qed

lemma tfs_read_run:
  assumes "fs_inv s" and "\<not> g_library_mutex s"
  shows "tfs_read h len s =
     (if \<not> handle_open s h then Ret ((-1, []), unlocked s)
      else if len = 0 then Ret ((0, []), unlocked s)
      else
        let f = handle_entry s h; n = inode_of s (of_inumber f);
            a = block_addr s (i_data_block n) + of_offset f in
        if \<not> valid_block_number (i_data_block n) s
        then Panic ''data_block_get: invalid block number''
        else if fs_data_size s < a + len then Undef
        else Ret ((c_ssize len, mem_read (fs_data s) a len),
                  unlocked (move_to h (of_offset f + len) s)))"
proof (cases "handle_open s h")
  case False
  with assms fs_invD(6) show ?thesis
    by (simp add: tfs_read_def bnd_lock bnd_Ret get_open_file_entry_view unlock_return_run)
next
  case True
  note t = open_handle_facts [OF assms(1) True] and tab = fs_invD(6) [OF assms(1)]
  let ?s = "s\<lparr>g_library_mutex := True\<rparr>"
  let ?k = "of_inumber (handle_entry s h)"
  let ?b = "i_data_block (inode_of s ?k)"
  have pre: "open_file_at (nat h) ?s = Ret (handle_entry s h, ?s)"
    "inode_get ?k ?s = Ret (?k, ?s)" "inode_at ?k ?s = Ret (inode_of s ?k, ?s)"
    "get_open_file_entry h ?s = Ret (Some (nat h), ?s)"
    using t tab True
    by (simp_all add: open_file_at_run handle_entry_def inode_get_run inode_at_run inode_of_def
        valid_inumber_def get_open_file_entry_view)
  show ?thesis
  proof (cases "valid_block_number ?b s")
    case False
    then have "data_block_get ?b ?s = Panic ''data_block_get: invalid block number''"
      by (simp add: data_block_get_run valid_block_number_def)
    with False True assms(2) show ?thesis
      by (simp add: tfs_read_def bnd_lock pre bnd_Ret bnd_fails Let_def unlock_return_run)
  next
    case valid: True
    then have "data_block_get ?b ?s = Ret (block_addr s ?b, ?s)"
      by (simp add: data_block_get_run valid_block_number_def block_addr_def)
    moreover have "set_offset (nat h) off ?s = Ret ((), (move_to h off s)\<lparr>g_library_mutex := True\<rparr>)"
      for off using t(5) by (simp add: set_offset_run move_to_def handle_entry_def)
    ultimately show ?thesis
      using valid True assms(2)
      by (auto simp: tfs_read_def bnd_lock pre bnd_Ret Let_def unlock_return_run)
  qed
qed

text \<open>The part of \<^verbatim>\<open>tfs_write\<close> after the block is known.\<close>

lemma write_block_run:
  assumes "tables_ok s" and "nat h < length (open_file_table s)"
    and "k = of_inumber (handle_entry s h)" and "0 \<le> k" and "nat k < length (inodes s)"
    and "valid_block_number b s" and "i_data_block (inode_of s k) = b"
    and "f = handle_entry s h" and "len \<le> length buffer"
  shows "bnd (inode_at k) (\<lambda>ino.
           bnd (data_block_get (i_data_block ino)) (\<lambda>block.
           bnd (open_file_at (nat h)) (\<lambda>f.
           bnd (gets fs_data_size) (\<lambda>sz.
           thn (defined (len \<le> length buffer \<and> block + of_offset f + len \<le> sz))
          (thn (modify (\<lambda>s. s\<lparr>fs_data :=
                  mem_write (fs_data s) (block + of_offset f) (take len buffer)\<rparr>))
          (thn (set_offset (nat h) (of_offset f + len))
          (thn (if of_offset f + len > i_size ino
                then set_inode k (i_size_update (\<lambda>_. of_offset f + len)) else ret ())
               (unlock_return (c_ssize len))))))))) s
     = (if fs_data_size s < block_addr s b + of_offset f + len then Undef
        else Ret (c_ssize len, unlocked (store h b (take len buffer) s)))"
proof -
  let ?bs = "take len buffer"
  let ?n = "inode_of s k"
  let ?off = "of_offset f + len"
  let ?m = "mem_write (fs_data s) (block_addr s b + of_offset f) ?bs"
  let ?t = "(move_to h ?off s)\<lparr>fs_data := ?m\<rparr>"
  have n: "?n\<lparr>i_data_block := b, i_size := z\<rparr> = ?n\<lparr>i_size := z\<rparr>"
    "?n\<lparr>i_data_block := b, i_size := i_size ?n\<rparr> = ?n" for z
    using assms(7) by (cases ?n; simp)+
  have pre: "inode_at k s = Ret (?n, s)" "open_file_at (nat h) s = Ret (f, s)"
    "data_block_get (i_data_block ?n) s = Ret (block_addr s b, s)"
    using assms(2,4-8)
    by (simp_all add: inode_at_run inode_of_def open_file_at_run handle_entry_def
        data_block_get_run block_addr_def)
  have off: "set_offset (nat h) ?off (s\<lparr>fs_data := ?m\<rparr>) = Ret ((), ?t)"
    using assms(2,8) by (simp add: set_offset_run move_to_def handle_entry_def)
  have size: "set_inode k (i_size_update (\<lambda>_. ?off)) ?t =
      Ret ((), ?t\<lparr>inode_table := Some ((inodes s)[nat k := ?n\<lparr>i_size := ?off\<rparr>])\<rparr>)"
    using assms(4,5) by (simp add: set_inode_run move_to_def inode_of_def)
  have store: "store h b ?bs s = ?t\<lparr>inode_table :=
      Some ((inodes s)[nat k := ?n\<lparr>i_data_block := b, i_size := max (i_size ?n) ?off\<rparr>])\<rparr>"
    using assms(3,8,9) by (simp add: store_def Let_def block_addr_def)
  have same: "?t\<lparr>inode_table := Some ((inodes s)[nat k := ?n])\<rparr> = ?t"
    using tables_okD(11) [OF assms(1)] by (auto simp: inode_of_def move_to_def)
  show ?thesis
    unfolding store
    using assms(9)
    by (cases "i_size ?n < ?off")
      (auto simp: pre bnd_Ret off size n same max_def unlock_return_run ret_run)
qed

definition write_result :: "int \<Rightarrow> byte list \<Rightarrow> fs \<Rightarrow> (int \<times> fs) outcome" where
  "write_result h bs s =
     (let f = handle_entry s h; n = inode_of s (of_inumber f) in
      case (if 0 < i_size n then Some (nat (i_data_block n)) else first_free (free_blocks s)) of
        None \<Rightarrow> Ret (-1, s)
      | Some b \<Rightarrow>
          if fs_data_size s < b * block_size (fs_params s) + of_offset f + length bs then Undef
          else Ret (c_ssize (length bs),
                    store h (int b) bs (if 0 < i_size n then s else take_block b s)))"

text \<open>What the call looks up before it writes, and then each way it goes on.\<close>

lemma tfs_write_lookups:
  assumes "fs_inv s" and "handle_open s h"
  defines "k \<equiv> of_inumber (handle_entry s h)" and "u \<equiv> s\<lparr>g_library_mutex := True\<rparr>"
  shows "get_open_file_entry h u = Ret (Some (nat h), u)"
    and "open_file_at (nat h) u = Ret (handle_entry s h, u)"
    and "inode_get k u = Ret (k, u)" and "inode_at k u = Ret (inode_of s k, u)"
  using open_handle_facts [OF assms(1,2)] assms(2) fs_invD(6) [OF assms(1)]
  by (simp_all add: k_def u_def open_file_at_run handle_entry_def inode_get_run inode_at_run inode_of_def
      valid_inumber_def get_open_file_entry_view)

lemma tfs_write_nothing:
  assumes "fs_inv s" and "\<not> g_library_mutex s" and "\<not> handle_open s h \<or> len = 0"
  shows "tfs_write h buffer len s = Ret (if handle_open s h then 0 else -1, unlocked s)"
proof (cases "handle_open s h")
  case True
  then show ?thesis
    using tfs_write_lookups [OF assms(1) True] assms(2,3)
    by (simp add: tfs_write_def bnd_lock bnd_Ret unlock_return_run)
qed (use assms fs_invD(6) in
    \<open>simp add: tfs_write_def bnd_lock bnd_Ret get_open_file_entry_view unlock_return_run\<close>)

lemma tfs_write_has_block:
  assumes "fs_inv s" and "\<not> g_library_mutex s" and "len \<le> length buffer" and op: "handle_open s h"
    and pos: "0 < len" and size: "0 < i_size (inode_of s (of_inumber (handle_entry s h)))"
  shows "tfs_write h buffer len s =
     (case write_result h (take len buffer) s of Ret (r, t) \<Rightarrow> Ret (r, unlocked t) | _ \<Rightarrow> Undef)"
proof -
  note t = open_handle_facts [OF assms(1) op] and tab = fs_invD(6) [OF assms(1)]
  let ?s = "s\<lparr>g_library_mutex := True\<rparr>"
  let ?f = "handle_entry s h"
  let ?k = "of_inumber ?f"
  let ?n = "inode_of s ?k"
  have b: "0 < i_data_block ?n" "valid_block_number (i_data_block ?n) s"
    using t(3) size by (auto simp: file_inode_ok_def)
  have b': "valid_block_number (i_data_block ?n) ?s"
    using b(2) by (simp add: valid_block_number_def)
  have w: "?k = of_inumber (handle_entry ?s h)" "i_data_block (inode_of ?s ?k) = i_data_block ?n"
    "?f = handle_entry ?s h" "0 \<le> ?k" "nat ?k < length (inodes ?s)"
    "nat h < length (open_file_table ?s)" "tables_ok ?s"
    using t tab by simp_all
  note run = write_block_run [OF w(7,6,1,4,5) b' w(2,3) assms(3)]
  show ?thesis
    using size b pos assms(2,3) run tfs_write_lookups [OF assms(1) op]
    by (simp add: tfs_write_def bnd_lock bnd_Ret write_result_def Let_def block_addr_def min_def)
qed

lemma tfs_write_takes_block:
  assumes "fs_inv s" and "\<not> g_library_mutex s" and "len \<le> length buffer" and op: "handle_open s h"
    and pos: "0 < len" and size: "i_size (inode_of s (of_inumber (handle_entry s h))) = 0"
    and Some: "first_free (free_blocks s) = Some b"
  shows "tfs_write h buffer len s =
     (case write_result h (take len buffer) s of Ret (r, t) \<Rightarrow> Ret (r, unlocked t) | _ \<Rightarrow> Undef)"
proof -
  note t = open_handle_facts [OF assms(1) op] and tab = fs_invD(6) [OF assms(1)]
  let ?s = "s\<lparr>g_library_mutex := True\<rparr>"
  let ?f = "handle_entry s h"
  let ?k = "of_inumber ?f"
  let ?n = "inode_of s ?k"
  let ?u = "(take_block b s)\<lparr>g_library_mutex := True\<rparr>"
  let ?v = "?u\<lparr>inode_table := Some ((inodes s)[nat ?k := ?n\<lparr>i_data_block := int b\<rparr>])\<rparr>"
  have alloc: "data_block_alloc ?s = Ret (int b, ?u)"
    using tab Some by (simp add: data_block_alloc_run take_block_def)
  have set: "set_inode ?k (i_data_block_update (\<lambda>_. int b)) ?u = Ret ((), ?v)"
    using t by (simp add: set_inode_run take_block_def inode_of_def)
  have st: "store h (int b) bs ?v = (store h (int b) bs (take_block b s))\<lparr>g_library_mutex := True\<rparr>"
    for bs
    using t(4) by (simp add: store_def Let_def take_block_def move_to_def handle_entry_def
        inode_of_def)
  have vb: "valid_block_number (int b) ?v"
    using Some tables_okD(3) [OF tab]
    by (simp add: first_free_Some valid_block_number_def take_block_def)
  have w: "?k = of_inumber (handle_entry ?v h)" "i_data_block (inode_of ?v ?k) = int b"
    "?f = handle_entry ?v h" "0 \<le> ?k" "nat ?k < length (inodes ?v)"
    "nat h < length (open_file_table ?v)" "tables_ok ?v"
    using t tab by (simp_all add: take_block_def handle_entry_def inode_of_def)
  note run = write_block_run [OF w(7,6,1,4,5) vb w(2,3) assms(3)]
  have "fs_data_size ?v = fs_data_size s" "block_addr ?v (int b) = b * block_size (fs_params s)"
    by (simp_all add: take_block_def block_addr_def)
  with size Some pos assms(2,3) run show ?thesis
    by (simp add: tfs_write_def bnd_lock tfs_write_lookups [OF assms(1) op] alloc set st bnd_Ret
        write_result_def Let_def min_def)
qed

lemma tfs_write_run:
  assumes "fs_inv s" and "\<not> g_library_mutex s" and "len \<le> length buffer"
  shows "tfs_write h buffer len s =
     (if \<not> handle_open s h then Ret (-1, unlocked s)
      else if len = 0 then Ret (0, unlocked s)
      else case write_result h (take len buffer) s of
             Ret (r, t) \<Rightarrow> Ret (r, unlocked t) | _ \<Rightarrow> Undef)"
proof (cases "handle_open s h \<and> len \<noteq> 0")
  case False
  then show ?thesis using tfs_write_nothing [OF assms(1,2)] by auto
next
  case True
  then have op: "handle_open s h" and pos: "0 < len" by auto
  note cases = tfs_write_has_block [OF assms op pos] tfs_write_takes_block [OF assms op pos]
  have "data_block_alloc (s\<lparr>g_library_mutex := True\<rparr>) = Ret (-1, s\<lparr>g_library_mutex := True\<rparr>)"
    if "first_free (free_blocks s) = None"
    using that fs_invD(6) [OF assms(1)] by (simp add: data_block_alloc_run)
  then have "tfs_write h buffer len s =
      (case write_result h (take len buffer) s of Ret (r, t) \<Rightarrow> Ret (r, unlocked t) | _ \<Rightarrow> Undef)"
    if "i_size (inode_of s (of_inumber (handle_entry s h))) = 0" "first_free (free_blocks s) = None"
    using that pos assms(2) tfs_write_lookups [OF assms(1) op]
    by (simp add: tfs_write_def bnd_lock bnd_Ret write_result_def Let_def unlock_return_run)
  with cases op pos show ?thesis by (cases "first_free (free_blocks s)") auto
qed

end
