(* ===== verification/Fs_Keep.thy ===== *)
theory Fs_Keep imports Fs_Inv begin

text \<open>
  Every file system call keeps the invariant: first for the functions the calls were run to, then
  for the calls. The last section starts from initialisation and follows any sequence of calls.
\<close>

section \<open>Views under updates\<close>

text \<open>Each view of the state ignores the fields it does not read.\<close>

lemma view_frame [simp]:
  "nents (s\<lparr>inode_table := Some x1\<rparr>) = nents s"
  "nents (s\<lparr>freeinode_ts := x2\<rparr>) = nents s"
  "nents (s\<lparr>fs_data := x3\<rparr>) = nents s"
  "nents (s\<lparr>free_blocks := x4\<rparr>) = nents s"
  "nents (s\<lparr>open_file_table := x5\<rparr>) = nents s"
  "nents (s\<lparr>free_open_file_entries := x6\<rparr>) = nents s"
  "listed (s\<lparr>inode_table := Some x1\<rparr>) = listed s"
  "listed (s\<lparr>freeinode_ts := x2\<rparr>) = listed s"
  "listed (s\<lparr>free_blocks := x4\<rparr>) = listed s"
  "listed (s\<lparr>open_file_table := x5\<rparr>) = listed s"
  "listed (s\<lparr>free_open_file_entries := x6\<rparr>) = listed s"
  "handle_open (s\<lparr>inode_table := Some x1\<rparr>) = handle_open s"
  "handle_open (s\<lparr>freeinode_ts := x2\<rparr>) = handle_open s"
  "handle_open (s\<lparr>fs_data := x3\<rparr>) = handle_open s"
  "handle_open (s\<lparr>free_blocks := x4\<rparr>) = handle_open s"
  "handle_open (s\<lparr>open_file_table := x5\<rparr>) = handle_open s"
  "handle_entry (s\<lparr>inode_table := Some x1\<rparr>) = handle_entry s"
  "handle_entry (s\<lparr>freeinode_ts := x2\<rparr>) = handle_entry s"
  "handle_entry (s\<lparr>fs_data := x3\<rparr>) = handle_entry s"
  "handle_entry (s\<lparr>free_blocks := x4\<rparr>) = handle_entry s"
  "handle_entry (s\<lparr>free_open_file_entries := x6\<rparr>) = handle_entry s"
  "inode_taken (s\<lparr>inode_table := Some x1\<rparr>) = inode_taken s"
  "inode_taken (s\<lparr>fs_data := x3\<rparr>) = inode_taken s"
  "inode_taken (s\<lparr>free_blocks := x4\<rparr>) = inode_taken s"
  "inode_taken (s\<lparr>open_file_table := x5\<rparr>) = inode_taken s"
  "inode_taken (s\<lparr>free_open_file_entries := x6\<rparr>) = inode_taken s"
  "inode_of (s\<lparr>freeinode_ts := x2\<rparr>) = inode_of s"
  "inode_of (s\<lparr>fs_data := x3\<rparr>) = inode_of s"
  "inode_of (s\<lparr>free_blocks := x4\<rparr>) = inode_of s"
  "inode_of (s\<lparr>open_file_table := x5\<rparr>) = inode_of s"
  "inode_of (s\<lparr>free_open_file_entries := x6\<rparr>) = inode_of s"
  "has_data (s\<lparr>fs_data := x3\<rparr>) = has_data s"
  "has_data (s\<lparr>free_blocks := x4\<rparr>) = has_data s"
  "has_data (s\<lparr>open_file_table := x5\<rparr>) = has_data s"
  "has_data (s\<lparr>free_open_file_entries := x6\<rparr>) = has_data s"
  "file_inode_ok (s\<lparr>inode_table := Some x1\<rparr>) = file_inode_ok s"
  "file_inode_ok (s\<lparr>freeinode_ts := x2\<rparr>) = file_inode_ok s"
  "file_inode_ok (s\<lparr>fs_data := x3\<rparr>) = file_inode_ok s"
  "file_inode_ok (s\<lparr>free_blocks := x4\<rparr>) = file_inode_ok s"
  "file_inode_ok (s\<lparr>open_file_table := x5\<rparr>) = file_inode_ok s"
  "file_inode_ok (s\<lparr>free_open_file_entries := x6\<rparr>) = file_inode_ok s"
  "valid_inumber i (s\<lparr>inode_table := Some x1\<rparr>) = valid_inumber i s"
  "valid_inumber i (s\<lparr>freeinode_ts := x2\<rparr>) = valid_inumber i s"
  "valid_inumber i (s\<lparr>fs_data := x3\<rparr>) = valid_inumber i s"
  "valid_inumber i (s\<lparr>free_blocks := x4\<rparr>) = valid_inumber i s"
  "valid_inumber i (s\<lparr>open_file_table := x5\<rparr>) = valid_inumber i s"
  "valid_inumber i (s\<lparr>free_open_file_entries := x6\<rparr>) = valid_inumber i s"
  "valid_block_number b (s\<lparr>inode_table := Some x1\<rparr>) = valid_block_number b s"
  "valid_block_number b (s\<lparr>freeinode_ts := x2\<rparr>) = valid_block_number b s"
  "valid_block_number b (s\<lparr>fs_data := x3\<rparr>) = valid_block_number b s"
  "valid_block_number b (s\<lparr>free_blocks := x4\<rparr>) = valid_block_number b s"
  "valid_block_number b (s\<lparr>open_file_table := x5\<rparr>) = valid_block_number b s"
  "valid_block_number b (s\<lparr>free_open_file_entries := x6\<rparr>) = valid_block_number b s"
  "valid_file_handle h (s\<lparr>inode_table := Some x1\<rparr>) = valid_file_handle h s"
  "valid_file_handle h (s\<lparr>freeinode_ts := x2\<rparr>) = valid_file_handle h s"
  "valid_file_handle h (s\<lparr>fs_data := x3\<rparr>) = valid_file_handle h s"
  "valid_file_handle h (s\<lparr>free_blocks := x4\<rparr>) = valid_file_handle h s"
  "valid_file_handle h (s\<lparr>open_file_table := x5\<rparr>) = valid_file_handle h s"
  "valid_file_handle h (s\<lparr>free_open_file_entries := x6\<rparr>) = valid_file_handle h s"
  by (simp_all add: view_defs fun_eq_iff)

section \<open>The functions on the state\<close>

lemma root_ok_frame:
  assumes "root_ok s" and "tables_ok t" and "fs_params t = fs_params s"
    and "inodes t ! 0 = inodes s ! 0" and "dir_wf (fs_data t) 0 (nents s)"
  shows "root_ok t"
  using assms by (simp add: root_ok_def nents_def)

lemmas inv_defs = fs_inv_def inv_root_def inv_listed_def inv_files_def inv_blocks_def

text \<open>A change of the open file table alone has to be checked for the handles only.\<close>

lemma open_table_inv:
  assumes "fs_inv s" and "length t1 = length (free_open_file_entries s)"
    and "length t2 = length (open_file_table s)"
    and "\<And>h. valid_file_handle h s \<Longrightarrow> t1 ! nat h = TAKEN \<Longrightarrow>
       (let k = of_inumber (t2 ! nat h) in
        0 < k \<and> valid_inumber k s \<and> file_inode_ok s (inode_of s k))"
  shows "fs_inv (s\<lparr>free_open_file_entries := t1, open_file_table := t2\<rparr>)" (is "fs_inv ?t")
proof -
  have "root_ok ?t"
    by (rule root_ok_frame [OF fs_invD(5) [OF assms(1)]])
      (use assms fs_invD(6,9) [OF assms(1)] in \<open>simp_all\<close>)
  moreover have "inv_files ?t"
    using fs_invD(3) [OF assms(1)] assms(4)
    by (simp add: inv_files_def Let_def handle_open_def handle_entry_def)
  ultimately show ?thesis
    using assms(1) by (simp add: inv_defs)
qed

lemma handle_in_range:
  assumes "fs_inv s" and "valid_file_handle h s"
  shows "0 \<le> h" and "nat h < length (free_open_file_entries s)" and "nat h < length (open_file_table s)"
  using assms(2) tables_okD(5,6) [OF fs_invD(6) [OF assms(1)]] by (auto simp: valid_file_handle_def)

lemma handles_ok:
  assumes "fs_inv s" and "valid_file_handle h s" and "free_open_file_entries s ! nat h = TAKEN"
  shows "let k = of_inumber (open_file_table s ! nat h) in
     0 < k \<and> valid_inumber k s \<and> file_inode_ok s (inode_of s k)"
  using open_handle_facts(1-3) [OF assms(1), of h] assms(2,3)
  by (simp add: handle_open_def handle_entry_def Let_def)

lemma open_entry_inv [inv_intros]:
  assumes "fs_inv s" and "0 < k" and "valid_inumber k s" and "file_inode_ok s (inode_of s k)"
  shows "fs_inv (snd (open_entry k off s))"
proof (cases "first_free (free_open_file_entries s)")
  case None
  with assms(1) show ?thesis by (simp add: open_entry_def)
next
  case (Some i)
  then have "i < length (free_open_file_entries s)" "i < length (open_file_table s)"
    using tables_okD(5,6) [OF fs_invD(6) [OF assms(1)]] by (simp_all add: first_free_Some)
  then show ?thesis
    using Some assms handles_ok [OF assms(1)]
    by (auto simp: open_entry_def nth_list_update intro!: open_table_inv)
qed

lemma close_inv [inv_intros]:
  assumes "fs_inv s"
  shows "fs_inv (s\<lparr>free_open_file_entries := (free_open_file_entries s)[nat h := FREE]\<rparr>)"
proof -
  have "fs_inv (s\<lparr>free_open_file_entries := (free_open_file_entries s)[nat h := FREE],
       open_file_table := open_file_table s\<rparr>)"
    using assms handles_ok [OF assms(1)]
    by (intro open_table_inv)
      (auto simp: nth_list_update_neq, metis allocation_state_t.distinct(1) nth_list_update_eq
          nth_list_update_neq handle_in_range(2) [OF assms(1)])
  then show ?thesis by simp
qed

lemma same_target: "of_inumber (xs[i := (xs ! i)\<lparr>of_offset := off\<rparr>] ! j) = of_inumber (xs ! j)"
  by (cases "i = j"; cases "j < length xs") (simp_all add: list_update_beyond)

lemma move_to_inv [inv_intros]:
  assumes "fs_inv s"
  shows "fs_inv (move_to h off s)"
proof -
  have "fs_inv (s\<lparr>free_open_file_entries := free_open_file_entries s,
       open_file_table := (open_file_table s)[nat h := (handle_entry s h)\<lparr>of_offset := off\<rparr>]\<rparr>)"
    using assms handles_ok [OF assms(1)]
    by (intro open_table_inv) (simp_all add: handle_entry_def same_target)
  then show ?thesis by (simp add: move_to_def)
qed

text \<open>
  A change of one file's inode, and of the block table: what has to be checked is that the other
  files keep their blocks and that this one's block is its own.
\<close>

lemma inode_of_table [simp]: "inode_of (s\<lparr>inode_table := Some t\<rparr>) k = t ! nat k"
  by (simp add: inode_of_def)

lemma valid_inumber_index:
  "tables_ok s \<Longrightarrow> valid_inumber k s \<Longrightarrow> 0 \<le> k \<and> nat k < length (inodes s) \<and> nat k < length (freeinode_ts s)"
  using tables_okD(1,2) [of s] by (auto simp: valid_inumber_def)

lemma inode_update_at:
  assumes "0 < k" and "0 < j" and "nat k < length (inodes s)"
  shows "(inodes s)[nat k := n] ! nat j = (if j = k then n else inode_of s j)"
  using assms by (auto simp: inode_of_def nth_list_update eq_nat_nat_iff)

lemma inode_change_inv:
  assumes inv: "fs_inv s" and k: "0 < k" "valid_inumber k s" and n: "file_inode_ok s n"
    and fb: "length fb = length (free_blocks s)" "fb ! 0 = TAKEN"
    and others: "\<And>j. j \<noteq> k \<Longrightarrow> has_data s j \<Longrightarrow> fb ! nat (i_data_block (inode_of s j)) = TAKEN"
    and own: "inode_taken s k \<Longrightarrow> 0 < i_size n \<Longrightarrow> fb ! nat (i_data_block n) = TAKEN \<and>
      (\<forall>j. j \<noteq> k \<longrightarrow> has_data s j \<longrightarrow> i_data_block (inode_of s j) \<noteq> i_data_block n)"
  shows "fs_inv (s\<lparr>free_blocks := fb, inode_table := Some ((inodes s)[nat k := n])\<rparr>)" (is "fs_inv ?t")
proof -
  note tab = fs_invD(6) [OF inv]
  note i = valid_inumber_index [OF tab k(2)]
  have at: "inode_of ?t j = (if j = k then n else inode_of s j)" if "0 < j" for j
    using inode_update_at [OF k(1) that] i by simp
  have "root_ok ?t"
    by (rule root_ok_frame [OF fs_invD(5) [OF inv]])
      (use tab fs_invD(9) [OF inv] fb(1) k(1) in \<open>simp_all\<close>)
  moreover have "inv_files ?t"
    using fs_invD(3) [OF inv] n by (auto simp: inv_files_def Let_def at simp del: inode_of_table)
  moreover have data: "has_data ?t j \<longleftrightarrow> (if j = k then inode_taken s k \<and> 0 < i_size n else has_data s j)" for j
    using k(1) by (auto simp: has_data_def at simp del: inode_of_table)
  have "inv_blocks ?t"
    unfolding inv_blocks_def
  proof (intro conjI allI impI)
    fix j assume j: "has_data ?t j"
    then have "0 < j" by (simp add: has_data_def)
    with j others own show "free_blocks ?t ! nat (i_data_block (inode_of ?t j)) = TAKEN"
      by (auto simp: data at simp del: inode_of_table split: if_splits)
  next
    fix j l assume jl: "has_data ?t j" "has_data ?t l"
      "i_data_block (inode_of ?t j) = i_data_block (inode_of ?t l)"
    then have pos: "0 < j" "0 < l" by (simp_all add: has_data_def)
    have distinct: "j = l" if "has_data s j" "has_data s l"
      "i_data_block (inode_of s j) = i_data_block (inode_of s l)"
      using that fs_invD(4) [OF inv] unfolding inv_blocks_def by blast
    have apart: False if "i \<noteq> k" "has_data s i" "has_data ?t k"
      "i_data_block (inode_of s i) = i_data_block n" for i
      using own that data [of k] by simp
    consider "j = k" "l = k" | "j = k" "l \<noteq> k" | "j \<noteq> k" "l = k" | "j \<noteq> k" "l \<noteq> k"
      by blast
    then show "j = l"
    proof cases
      case 2
      with jl apart [of l] data [of l] show ?thesis by (simp add: at [OF pos(1)] at [OF pos(2)] at [OF k(1)] del: inode_of_table)
    next
      case 3
      with jl apart [of j] data [of j] show ?thesis by (simp add: at [OF pos(1)] at [OF pos(2)] at [OF k(1)] del: inode_of_table)
    next
      case 4
      with jl distinct data [of j] data [of l] show ?thesis
        by (simp add: at [OF pos(1)] at [OF pos(2)] at [OF k(1)] del: inode_of_table)
    qed simp
  qed
  ultimately show ?thesis
    using inv fb(2) by (simp add: inv_defs)
qed

lemma taken_block_range:
  assumes "fs_inv s" and "has_data s k"
  shows "0 < i_data_block (inode_of s k)" and "valid_block_number (i_data_block (inode_of s k)) s"
    and "nat (i_data_block (inode_of s k)) < length (free_blocks s)"
  using fs_invD(3) [OF assms(1)] assms(2) tables_okD(3) [OF fs_invD(6) [OF assms(1)]]
  by (auto simp: inv_files_def has_data_def file_inode_ok_def valid_block_number_def)

lemma release_block_others:
  assumes "fs_inv s" and "has_data s k" and "j \<noteq> k" and "has_data s j"
  shows "(free_blocks s)[nat (i_data_block (inode_of s k)) := FREE] !
     nat (i_data_block (inode_of s j)) = TAKEN"
    and "(free_blocks s)[nat (i_data_block (inode_of s k)) := FREE] ! 0 = TAKEN"
  using fs_invD(4,8) [OF assms(1)] taken_block_range [OF assms(1,2)]
    taken_block_range [OF assms(1,4)] assms(2-4)
  by (auto simp: inv_blocks_def nth_list_update eq_nat_nat_iff)

lemma trunc_file_inv [inv_intros]:
  assumes "fs_inv s" and "0 < k" and "inode_taken s k"
  shows "fs_inv (trunc_file k s)"
proof (cases "0 < i_size (inode_of s k)")
  case True
  then have d: "has_data s k" using assms by (simp add: has_data_def)
  have "file_inode_ok s (inode_of s k)" using fs_invD(3) [OF assms(1)] assms(2,3) by (simp add: inv_files_def)
  with assms d True show ?thesis
    unfolding trunc_file_def if_P [OF True]
    using release_block_others [OF assms(1) d] fs_invD(8) [OF assms(1)] taken_block_range [OF assms(1) d]
    by (intro inode_change_inv)
      (auto simp: file_inode_ok_def inode_taken_def nth_list_update)
qed (simp add: trunc_file_def assms)

lemma reset_inode_inv [inv_intros]:
  assumes "fs_inv s" and "0 < k" and "\<not> inode_taken s (int k)" and "valid_inumber (int k) s"
  shows "fs_inv (reset_inode k s)"
proof -
  have "fs_inv (s\<lparr>free_blocks := free_blocks s, inode_table := Some ((inodes s)[nat (int k) := empty_file])\<rparr>)"
    using assms fs_invD(4,8) [OF assms(1)]
    by (intro inode_change_inv) (auto simp: file_inode_ok_def empty_file_def inv_blocks_def)
  then show ?thesis by (simp add: reset_inode_def)
qed

text \<open>A store into the blocks beyond the root directory's.\<close>

lemma data_change_inv [inv_intros]:
  assumes "fs_inv s" and "block_size (fs_params s) \<le> a"
  shows "fs_inv (s\<lparr>fs_data := mem_write (fs_data s) a bs\<rparr>)" (is "fs_inv ?t")
proof -
  have same: "d_name (mem_write (fs_data s) a bs) 0 i = d_name (fs_data s) 0 i"
    "d_inumber (mem_write (fs_data s) a bs) 0 i = d_inumber (fs_data s) 0 i" if "i < nents s" for i
    using that assms(2) entries_write_outside [of i "fs_params s" 0 a] by (simp_all add: nents_def)
  then have "dir_wf (mem_write (fs_data s) a bs) 0 (nents s)"
    using fs_invD(9) [OF assms(1)] by (simp add: dir_wf_def live_def ename_def)
  then have "root_ok ?t"
    using fs_invD(5,6) [OF assms(1)] by simp
  moreover have "listed ?t k = listed s k" for k
    using same by (auto simp: listed_def live_def)
  ultimately show ?thesis
    using assms(1) by (simp add: inv_defs)
qed

lemma inode_taken_table:
  "inode_taken (s\<lparr>freeinode_ts := x\<rparr>) k \<longleftrightarrow> valid_inumber k s \<and> x ! nat k = TAKEN"
  by (simp add: inode_taken_def)

lemma create_file_inv [inv_intros]:
  assumes inv: "fs_inv s" and k: "first_free (freeinode_ts s) = Some k"
    and i: "dir_free (fs_data s) 0 (nents s) = Some i"
    and name: "is_cstring name" "name \<noteq> []" "length name < 40" "root_map s name = None"
  shows "fs_inv (create_file k i name s)" (is "fs_inv ?t")
proof -
  note f = fresh_slot [OF inv k] and tab = fs_invD(6) [OF inv] and wf = fs_invD(9) [OF inv]
  let ?s = "reset_inode k s"
  have inv': "fs_inv ?s" using inv f by (auto intro: reset_inode_inv)
  have k31: "int k < 2 ^ 31" using f(5) tables_okD(8) [OF tab] by (simp add: valid_inumber_def)
  have new: "\<not> listed s (int k)" using fs_invD(2) [OF inv] f(4) by (simp add: inv_listed_def)
  then have un: "\<forall>j<nents s. live (fs_data s) 0 j \<longrightarrow> d_inumber (fs_data s) 0 j \<noteq> int k"
    by (auto simp: listed_def)
  have "dir_wf (put_entry 0 i name (int k) (fs_data s)) 0 (nents s)"
    using put_entry_wf [OF wf i _ name(1-3) _ k31 un] name(4) by (simp add: root_map_def)
  then have "root_ok ?t"
    by (intro root_ok_frame [OF fs_invD(5) [OF inv]])
      (use tab f(1,2) in \<open>simp_all add: create_file_def reset_inode_def\<close>)
  moreover have listed: "listed ?t j \<longleftrightarrow> j = int k \<or> listed s j" for j
    using dir_free_Some [OF i] k31 name(1,3)
    by (auto simp: listed_def create_file_def reset_inode_def nents_def put_entry_fields)
  moreover have taken: "inode_taken ?t j \<longleftrightarrow> j = int k \<or> inode_taken s j" for j
    using f valid_inumber_index [OF tab, of j]
    by (auto simp: create_file_def reset_inode_def inode_taken_def valid_inumber_def nth_list_update)
  moreover have at: "inode_of ?t = inode_of ?s" "free_blocks ?t = free_blocks s"
    "handle_open ?t = handle_open s" "handle_entry ?t = handle_entry s"
    "valid_inumber j ?t = valid_inumber j s" "file_inode_ok ?t = file_inode_ok s"
    "free_blocks ?s = free_blocks s" "handle_open ?s = handle_open s"
    "handle_entry ?s = handle_entry s" "valid_inumber j ?s = valid_inumber j s"
    "file_inode_ok ?s = file_inode_ok s" "inode_taken ?s = inode_taken s" for j
    by (simp_all add: create_file_def reset_inode_def view_defs fun_eq_iff)
  moreover have fresh: "inode_of ?s (int k) = empty_file"
    using f(2) by (simp add: reset_inode_def)
  moreover have "has_data ?t j = has_data ?s j" for j
    using fresh by (auto simp: has_data_def taken at empty_file_def)
  moreover have "file_inode_ok s empty_file" by (simp add: file_inode_ok_def empty_file_def)
  ultimately show ?thesis
    using fs_invD(2) [OF inv] fs_invD(3,4,7,8) [OF inv'] f(1)
    by (auto simp: fs_inv_def inv_root_def inv_listed_def inv_files_def inv_blocks_def Let_def)
qed

lemma delete_file_inv [inv_intros]:
  assumes inv: "fs_inv s" and i: "i < nents s" "live (fs_data s) 0 i"
    and k: "d_inumber (fs_data s) 0 i = k"
  shows "fs_inv (delete_file k i s)" (is "fs_inv ?t")
proof -
  note tab = fs_invD(6) [OF inv] and wf = fs_invD(9) [OF inv]
  have ls: "listed s k" using i k by (auto simp: listed_def)
  then have tk: "0 < k" "inode_taken s k" using fs_invD(2) [OF inv] by (auto simp: inv_listed_def)
  have "root_ok ?t"
    by (intro root_ok_frame [OF fs_invD(5) [OF inv]])
      (use tab wipe_entry_wf [OF wf] in \<open>simp_all add: delete_file_def\<close>)
  moreover have "listed ?t j \<longleftrightarrow> j \<noteq> k \<and> listed s j" for j
    using wf i k by (auto simp: listed_def delete_file_def nents_def wipe_entry_fields dir_wf_def)
  moreover have taken: "inode_taken ?t j \<longleftrightarrow> j \<noteq> k \<and> inode_taken s j" for j
    using tk valid_inumber_index [OF tab, of j] valid_inumber_index [OF tab, of k]
    by (auto simp: delete_file_def inode_taken_def nth_list_update valid_inumber_def eq_nat_nat_iff)
  moreover have at: "inode_of ?t = inode_of s" "handle_open ?t = handle_open s"
    "handle_entry ?t = handle_entry s" "valid_inumber j ?t = valid_inumber j s"
    "file_inode_ok ?t = file_inode_ok s" for j
    by (simp_all add: delete_file_def view_defs fun_eq_iff)
  moreover have data: "has_data ?t j \<longleftrightarrow> j \<noteq> k \<and> has_data s j" for j
    by (auto simp: has_data_def taken at)
  moreover have "free_blocks ?t ! nat (i_data_block (inode_of s j)) = TAKEN"
    if "j \<noteq> k" "has_data s j" for j
    using release_block_others(1) [OF inv _ that] fs_invD(4) [OF inv] that tk
    by (auto simp: delete_file_def has_data_def inv_blocks_def)
  moreover have "free_blocks ?t ! 0 = TAKEN"
    using taken_block_range [OF inv, of k] fs_invD(8) [OF inv] tk
    by (cases "0 < i_size (inode_of s k)")
      (auto simp: delete_file_def has_data_def nth_list_update)
  ultimately show ?thesis
    using fs_invD(2,3,4,7) [OF inv] tk(1)
    by (auto simp: fs_inv_def inv_root_def inv_listed_def inv_files_def inv_blocks_def Let_def)
qed

lemma store_inv [inv_intros]:
  assumes inv: "fs_inv s" and h: "handle_open s h"
    and b: "if 0 < i_size (inode_of s (of_inumber (handle_entry s h)))
            then int b = i_data_block (inode_of s (of_inumber (handle_entry s h)))
            else first_free (free_blocks s) = Some b"
    and bs: "bs \<noteq> []"
  shows "fs_inv (store h (int b) bs
     (if 0 < i_size (inode_of s (of_inumber (handle_entry s h))) then s else take_block b s))"
    (is "fs_inv ?t")
proof -
  define k where "k = of_inumber (handle_entry s h)"
  define n where "n = inode_of s k"
  let ?off = "of_offset (handle_entry s h)"
  let ?n = "n\<lparr>i_data_block := int b, i_size := max (i_size n) (?off + length bs)\<rparr>"
  let ?fb = "if 0 < i_size n then free_blocks s else (free_blocks s)[b := TAKEN]"
  note o = open_handle_facts [OF inv h, folded k_def] and tab = fs_invD(6) [OF inv]
  have free: "b < length (free_blocks s)" "free_blocks s ! b = FREE" if "i_size n = 0"
    using b that by (auto simp: k_def n_def first_free_Some)
  have b0: "0 < b" and vb: "valid_block_number (int b) s"
    using b o(3) fs_invD(8) [OF inv] tables_okD(3) [OF tab] free
    by (auto simp: k_def n_def file_inode_ok_def valid_block_number_def intro!: gr0I split: if_splits)
  have keep: "?fb ! nat (i_data_block (inode_of s j)) = TAKEN" if "has_data s j" for j
    using fs_invD(4) [OF inv] taken_block_range [OF inv that] that free
    by (auto simp: inv_blocks_def nth_list_update)
  have "fs_inv (s\<lparr>free_blocks := ?fb, inode_table := Some ((inodes s)[nat k := ?n])\<rparr>)"
  proof (rule inode_change_inv [OF inv o(1,2)])
    show "file_inode_ok s ?n"
      using o(3) b0 vb by (simp add: file_inode_ok_def n_def)
    show "?fb ! 0 = TAKEN" using fs_invD(8) [OF inv] b0 by simp
    show "?fb ! nat (i_data_block ?n) = TAKEN \<and>
      (\<forall>j. j \<noteq> k \<longrightarrow> has_data s j \<longrightarrow> i_data_block (inode_of s j) \<noteq> i_data_block ?n)"
      if "inode_taken s k" and "0 < i_size ?n"
    proof (cases "0 < i_size n")
      case True
      then have "has_data s k" "int b = i_data_block n"
        using b o(1) that(1) by (simp_all add: has_data_def n_def k_def)
      then show ?thesis
        using True keep [of k] fs_invD(4) [OF inv] by (auto simp: inv_blocks_def n_def)
    next
      case False
      then show ?thesis
        using free fs_invD(4) [OF inv] by (auto simp: inv_blocks_def)
    qed
  qed (use keep in auto)
  then have "fs_inv (move_to h (?off + length bs)
      (s\<lparr>free_blocks := ?fb, inode_table := Some ((inodes s)[nat k := ?n])\<rparr>))" (is "fs_inv ?u")
    by (rule move_to_inv)
  moreover have "block_size (fs_params ?u) \<le> b * block_size (fs_params s) + ?off"
    using b0 by (cases b) (simp_all add: move_to_def)
  ultimately have "fs_inv (?u\<lparr>fs_data :=
      mem_write (fs_data ?u) (b * block_size (fs_params s) + ?off) bs\<rparr>)"
    by (rule data_change_inv)
  moreover have "?t = ?u\<lparr>fs_data :=
      mem_write (fs_data ?u) (b * block_size (fs_params s) + ?off) bs\<rparr>"
    by (simp add: store_def Let_def move_to_def handle_entry_def take_block_def inode_of_def
        k_def n_def)
  ultimately show ?thesis by simp
qed

section \<open>The calls\<close>

text \<open>
  Whatever a call returns, the state it returns in satisfies the invariant; and a call that returns
  leaves the mutex unlocked, but for a rewind at offset 0.
\<close>

lemma open_new_inv:
  assumes "fs_inv s" and "is_cstring name" and "name \<noteq> []" and "root_map s name = None"
  shows "fs_inv (snd (open_new name s))"
proof (cases "first_free (freeinode_ts s)")
  case None
  with assms(1) show ?thesis by (simp add: open_new_def)
next
  case (Some k)
  note f = fresh_slot [OF assms(1) Some] and tab = fs_invD(6) [OF assms(1)]
  show ?thesis
  proof (cases "if 40 \<le> length name then None else dir_free (fs_data s) 0 (nents s)")
    case None
    with Some assms(1) f show ?thesis by (auto simp: open_new_def intro: reset_inode_inv)
  next
    case i: (Some i)
    then have d: "dir_free (fs_data s) 0 (nents s) = Some i" "length name < 40"
      by (auto split: if_splits)
    let ?t = "create_file k i name s"
    have "fs_inv ?t" using create_file_inv [OF assms(1) Some d(1) assms(2,3) d(2) assms(4)] .
    moreover have "inode_of ?t (int k) = empty_file" "valid_inumber (int k) ?t"
      using f by (simp_all add: create_file_def reset_inode_def)
    ultimately have "fs_inv (snd (open_entry (int k) 0 ?t))"
      using f(1) by (auto intro!: open_entry_inv simp: file_inode_ok_def empty_file_def)
    with Some i show ?thesis by (simp add: open_new_def)
  qed
qed

lemma open_existing_inv:
  assumes "fs_inv s" and "root_map s name = Some k"
  shows "fs_inv (snd (open_existing k mode s))"
proof -
  note k = root_map_taken [OF assms]
  let ?t = "if has_flag mode TFS_O_TRUNC then trunc_file k s else s"
  have inv: "fs_inv ?t" using assms k by (auto intro: trunc_file_inv)
  have "inode_taken ?t k"
    using k(2) by (auto simp: trunc_file_def inode_taken_def)
  with fs_invD(3) [OF inv] k(1) have "file_inode_ok ?t (inode_of ?t k)" "valid_inumber k ?t"
    by (auto simp: inv_files_def inode_taken_def)
  with inv k(1) show ?thesis
    by (simp add: open_existing_def Let_def open_entry_inv)
qed

lemma not_pathname:
  "\<not> valid_pathname name \<Longrightarrow> \<not> g_library_mutex s \<Longrightarrow> tfs_open name mode s = Ret (-1, unlocked s)"
  "\<not> valid_pathname name \<Longrightarrow> \<not> g_library_mutex s \<Longrightarrow> tfs_unlink name s = Ret (-1, unlocked s)"
  by (simp_all add: tfs_open_def tfs_unlink_def bnd_lock unlock_return_run)

lemma valid_pathname_iff:
  "valid_pathname name \<longleftrightarrow> (\<exists>x. name = Some (47 # x) \<and> x \<noteq> [])"
proof (cases name)
  case (Some y)
  then show ?thesis by (cases y) auto
qed simp

definition name_ok :: "cstring option \<Rightarrow> bool" where
  "name_ok name \<longleftrightarrow> (case name of None \<Rightarrow> True | Some x \<Rightarrow> is_cstring x)"

lemma tfs_open_inv:
  assumes "fs_inv s" and "\<not> g_library_mutex s" and "name_ok name"
  shows "\<exists>h t. tfs_open name mode s = Ret (h, t) \<and> fs_inv t \<and> \<not> g_library_mutex t"
proof (cases "valid_pathname name")
  case False
  with assms(1,2) show ?thesis by (simp add: not_pathname)
next
  case True
  then obtain x where x: "name = Some (47 # x)" "x \<noteq> []" by (auto simp: valid_pathname_iff)
  then have cs: "is_cstring x" using assms(3) by (simp add: name_ok_def)
  have "fs_inv (snd (open_result x mode s))"
    using assms(1) open_new_inv [OF assms(1) cs x(2)] open_existing_inv [OF assms(1)]
    by (auto simp: open_result_def split: option.splits)
  then show ?thesis
    using tfs_open_run [OF assms(1,2) cs x(2), of mode] x
    by (auto split: prod.splits)
qed

text \<open>Opening keeps the parameters.\<close>

lemma tfs_open_params:
  assumes "fs_inv s" and "\<not> g_library_mutex s" and "is_cstring x" and "x \<noteq> []"
    and "tfs_open (Some (47 # x)) mode s = Ret (h, t)"
  shows "fs_params t = fs_params s"
proof -
  obtain u where u: "open_result x mode s = (h, u)" "t = unlocked u"
    using tfs_open_run [OF assms(1-4), of mode] assms(5) by (auto split: prod.splits)
  have "fs_params u = fs_params s"
    using u(1) by (auto simp: open_result_def open_existing_def open_new_def open_entry_def
        trunc_file_def create_file_def reset_inode_def Let_def split: option.splits if_splits)
  with u(2) show ?thesis by simp
qed

lemma tfs_close_inv:
  assumes "fs_inv s" and "\<not> g_library_mutex s"
  shows "\<exists>r t. tfs_close h s = Ret (r, t) \<and> fs_inv t \<and> \<not> g_library_mutex t"
  using assms close_inv [OF assms(1)] fs_invD(6) [OF assms(1)] by (auto simp: tfs_close_run)

lemma tfs_rewind_offset_inv:
  assumes "fs_inv s" and "\<not> g_library_mutex s"
  shows "\<exists>r t. tfs_rewind_offset h s = Ret (r, t) \<and> fs_inv t"
  using assms move_to_inv [OF assms(1)] by (auto simp: tfs_rewind_offset_run)

lemma tfs_unlink_inv:
  assumes "fs_inv s" and "\<not> g_library_mutex s" and "name_ok name"
  shows "\<exists>r t. tfs_unlink name s = Ret (r, t) \<and> fs_inv t \<and> \<not> g_library_mutex t"
proof (cases "valid_pathname name")
  case False
  with assms(1,2) show ?thesis by (simp add: not_pathname)
next
  case True
  then obtain x where x: "name = Some (47 # x)" "x \<noteq> []" by (auto simp: valid_pathname_iff)
  then have cs: "is_cstring x" using assms(3) by (simp add: name_ok_def)
  have "fs_inv (snd (unlink_result x s))"
    using assms(1) dir_find_name [OF assms(1), of x]
    by (auto simp: unlink_result_def delete_file_inv split: option.splits)
  then show ?thesis
    using tfs_unlink_run [OF assms(1,2) cs x(2)] x by (auto split: prod.splits)
qed

lemma write_result_inv:
  assumes "fs_inv s" and "handle_open s h" and "bs \<noteq> []" and "write_result h bs s = Ret (r, t)"
  shows "fs_inv t"
proof (cases "if 0 < i_size (inode_of s (of_inumber (handle_entry s h)))
    then Some (nat (i_data_block (inode_of s (of_inumber (handle_entry s h)))))
    else first_free (free_blocks s)")
  case None
  with assms show ?thesis by (simp add: write_result_def Let_def)
next
  case (Some b)
  have "file_inode_ok s (inode_of s (of_inumber (handle_entry s h)))"
    using open_handle_facts(3) [OF assms(1,2)] .
  then have "if 0 < i_size (inode_of s (of_inumber (handle_entry s h)))
      then int b = i_data_block (inode_of s (of_inumber (handle_entry s h)))
      else first_free (free_blocks s) = Some b"
    using Some by (auto simp: file_inode_ok_def split: if_splits)
  from store_inv [OF assms(1,2) this assms(3)] Some assms(4) show ?thesis
    by (auto simp: write_result_def Let_def split: if_splits)
qed

lemma tfs_write_inv:
  assumes "fs_inv s" and "\<not> g_library_mutex s" and "len \<le> length buffer"
    and "tfs_write h buffer len s = Ret (r, t)"
  shows "fs_inv t \<and> \<not> g_library_mutex t"
  using assms(4) tfs_write_run [OF assms(1-3), of h] assms(1-3)
    write_result_inv [OF assms(1), of h "take len buffer"]
  by (cases "buffer = []") (auto split: if_splits outcome.splits prod.splits)

lemma tfs_read_inv:
  assumes "fs_inv s" and "\<not> g_library_mutex s" and "tfs_read h len s = Ret (r, t)"
  shows "fs_inv t \<and> \<not> g_library_mutex t"
  using assms move_to_inv [OF assms(1)]
  by (auto simp: tfs_read_run Let_def split: if_splits)

section \<open>Sequences of calls\<close>

datatype fs_call =
    Open "cstring option" nat
  | Close int
  | Write int "byte list" nat
  | Read int nat
  | Rewind int
  | Unlink "cstring option"

fun run_call :: "fs_call \<Rightarrow> (fs, int) prog" where
  "run_call (Open name mode) = tfs_open name mode"
| "run_call (Close h) = tfs_close h"
| "run_call (Write h buffer len) = tfs_write h buffer len"
| "run_call (Read h len) = bnd (tfs_read h len) (\<lambda>(n, bytes). ret n)"
| "run_call (Rewind h) = tfs_rewind_offset h"
| "run_call (Unlink name) = tfs_unlink name"

fun run_calls :: "fs_call list \<Rightarrow> (fs, int list) prog" where
  "run_calls [] = ret []"
| "run_calls (c # cs) = bnd (run_call c) (\<lambda>r. bnd (run_calls cs) (\<lambda>rs. ret (r # rs)))"

text \<open>Names are strings, and a buffer holds at least the bytes to be written from it.\<close>

fun call_ok :: "fs_call \<Rightarrow> bool" where
  "call_ok (Open name mode) = name_ok name"
| "call_ok (Unlink name) = name_ok name"
| "call_ok (Write h buffer len) = (len \<le> length buffer)"
| "call_ok _ = True"

lemma locked_deadlocks:
  "g_library_mutex s \<Longrightarrow> run_call c s = Deadlock"
  by (cases c) (auto simp: tfs_open_def tfs_close_def tfs_write_def tfs_read_def
      tfs_rewind_offset_def tfs_unlink_def bnd_def mutex_lock_run)

lemma run_call_inv:
  assumes "fs_inv s" and "call_ok c" and "run_call c s = Ret (r, t)"
  shows "fs_inv t"
proof -
  have m: "\<not> g_library_mutex s" using locked_deadlocks [of s c] assms(3) by auto
  show ?thesis
  proof (cases c)
    case (Open n mode)
    with assms m tfs_open_inv [of s n mode] show ?thesis by auto
  next
    case (Close h)
    with assms m tfs_close_inv [of s h] show ?thesis by auto
  next
    case (Write h b l)
    with assms m tfs_write_inv [of s l b h] show ?thesis by auto
  next
    case (Read h l)
    with assms(3) obtain v where "tfs_read h l s = Ret (v, t)"
      by (auto simp: bnd_def ret_def split: outcome.splits prod.splits)
    with assms m tfs_read_inv [of s h l] show ?thesis by auto
  next
    case (Rewind h)
    with assms m tfs_rewind_offset_inv [of s h] show ?thesis by auto
  next
    case (Unlink n)
    with assms m tfs_unlink_inv [of s n] show ?thesis by auto
  qed
qed

lemma run_calls_inv:
  "fs_inv s \<Longrightarrow> list_all call_ok cs \<Longrightarrow> run_calls cs s = Ret (rs, t) \<Longrightarrow> fs_inv t"
proof (induction cs arbitrary: s rs)
  case Nil
  then show ?case by (simp add: ret_def)
next
  case (Cons c cs)
  from Cons.prems(3) obtain r u rs' where c: "run_call c s = Ret (r, u)"
    and cs: "run_calls cs u = Ret (rs', t)"
    by (auto simp: bnd_def ret_def split: outcome.splits prod.splits)
  from Cons.prems c have "fs_inv u" by (auto intro: run_call_inv)
  from Cons.IH [OF this _ cs] Cons.prems(2) show ?case by simp
qed

end
