(* ===== verification/Fs_Start.thy ===== *)
theory Fs_Start imports Fs_Keep begin

text \<open>
  Initialisation establishes the invariant: \<^verbatim>\<open>tfs_init\<close> on the static state of a fresh process,
  with a heap that serves every request and whose memory for the blocks starts zeroed where the
  names of the root directory lie. \<^verbatim>\<open>tfs_init\<close> does not clear these names and \<^verbatim>\<open>clear_dir_entry\<close> reads them in
  unused entries too, so the code relies on it. It is so for the blocks of the default parameters, 1 MiB:
  a request of at least \<^verbatim>\<open>M_MMAP_THRESHOLD\<close> bytes (128 KiB) is served with fresh pages, which are zero.
\<close>

section \<open>The static state and good parameters\<close>

text \<open>The static variables before any call: zero, so every pointer is NULL.\<close>

definition fs_static :: fs where
  "fs_static = \<lparr>fs_params = \<lparr>max_inode_count = 0, max_block_count = 0,
       max_open_files_count = 0, block_size = 0\<rparr>,
     inode_table = None, freeinode_ts = [], fs_data = (\<lambda>_. 0), fs_data_size = 0, free_blocks = [],
     open_file_table = [], free_open_file_entries = [], g_library_mutex = False\<rparr>"

definition good_params :: "tfs_params \<Rightarrow> bool" where
  "good_params p \<longleftrightarrow> 0 < max_inode_count p \<and> 0 < max_block_count p \<and> 0 < block_size p \<and>
     max_inode_count p < 2 ^ 31 \<and> max_block_count p < 2 ^ 31 \<and>
     max_open_files_count p < 2 ^ 31 \<and> max_block_count p * block_size p < 2 ^ 63"

definition good_heap :: "c_heap \<Rightarrow> tfs_params \<Rightarrow> bool" where
  "good_heap h p \<longleftrightarrow> (\<forall>k\<in>{1..6}. \<forall>n. malloc_ok h k n) \<and>
     (\<forall>i < max_dir_entries p. junk_byte h (entry_addr 0 i) = 0)"

text \<open>
  What is documented of \<^verbatim>\<open>malloc\<close>: a request that reaches the threshold gets pages of \<^verbatim>\<open>mmap\<close>, which are
  zero; the memory of a smaller one holds anything.
\<close>

definition MMAP_THRESHOLD :: nat where
  "MMAP_THRESHOLD = 131072"

definition documented_heap :: "c_heap \<Rightarrow> tfs_params \<Rightarrow> bool" where
  "documented_heap h p \<longleftrightarrow> (\<forall>k\<in>{1..6}. \<forall>n. malloc_ok h k n) \<and>
     (MMAP_THRESHOLD \<le> max_block_count p * block_size p \<longrightarrow>
       (\<forall>a < max_block_count p * block_size p. junk_byte h a = 0))"

lemma documented_heap_good:
  assumes "good_params p" and "documented_heap h p" and "MMAP_THRESHOLD \<le> max_block_count p * block_size p"
  shows "good_heap h p"
proof -
  have "junk_byte h (entry_addr 0 i) = 0" if "i < max_dir_entries p" for i
  proof -
    have "44 * Suc i \<le> block_size p"
      using that by (simp add: max_dir_entries_def sizeof_dir_entry_def)
    also have "\<dots> \<le> max_block_count p * block_size p" using assms(1) by (simp add: good_params_def)
    finally show ?thesis
      using assms(2,3) by (simp add: documented_heap_def entry_addr_def sizeof_dir_entry_def)
  qed
  then show ?thesis using assms(2) by (simp add: good_heap_def documented_heap_def)
qed

section \<open>The empty directory\<close>

definition init_entries :: "nat \<Rightarrow> nat \<Rightarrow> mem \<Rightarrow> mem" where
  "init_entries dir n m = fold (\<lambda>i. set_d_inumber dir i (-1)) [0..<n] m"

lemma init_entries_fields:
  "d_name (init_entries dir n m) dir j = d_name m dir j \<and>
   d_inumber (init_entries dir n m) dir j = (if j < n then -1 else d_inumber m dir j)"
  by (induction n) (auto simp: init_entries_def)

lemma init_dir_block_run:
  assumes "\<And>i. i < nents s \<Longrightarrow> entry_ok dir i s"
  shows "init_dir_block dir s =
     Ret (None, s\<lparr>fs_data := init_entries dir (nents s) (fs_data s)\<rparr>)"
proof -
  have fold: "fold (\<lambda>i t. t\<lparr>fs_data := set_d_inumber dir i (-1) (fs_data t)\<rparr>) xs s
      = s\<lparr>fs_data := fold (\<lambda>i. set_d_inumber dir i (-1)) xs (fs_data s)\<rparr>" for xs and s :: fs
    by (induction xs arbitrary: s) simp_all
  show ?thesis
    unfolding init_dir_block_def bnd_gets nents_def [symmetric] init_entries_def
    by (subst for_loop_run_from [where
          I = "\<lambda>t. fs_data_size t = fs_data_size s" and
          step = "\<lambda>i t. t\<lparr>fs_data := set_d_inumber dir i (-1) (fs_data t)\<rparr>"])
      (use assms in \<open>auto simp: entry_ok_def ret_def fold\<close>)
qed

lemma init_entries_wf:
  assumes "\<forall>i < n. m (entry_addr dir i) = 0"
  shows "dir_wf (init_entries dir n m) dir n"
proof -
  have "ename m dir i = [] \<and> 0 \<in> set (d_name m dir i)" if "i < n" for i
  proof -
    have "d_name m dir i = m (entry_addr dir i) # mem_read m (Suc (entry_addr dir i)) 39"
      by (simp add: d_name_def MAX_FILE_NAME_def mem_read_def upt_conv_Cons del: upt_Suc)
    with assms that show ?thesis by (simp add: ename_def)
  qed
  then show ?thesis
    by (simp add: dir_wf_def live_def ename_def init_entries_fields)
qed

section \<open>Initialisation\<close>

definition started :: "c_heap \<Rightarrow> tfs_params \<Rightarrow> fs" where
  "started h p = \<lparr>fs_params = p,
     inode_table = Some ((map (junk_inode h) [0..<max_inode_count p])
       [0 := \<lparr>i_node_type = T_DIRECTORY, i_size = block_size p, i_data_block = 0\<rparr>]),
     freeinode_ts = (replicate (max_inode_count p) FREE)[0 := TAKEN],
     fs_data = init_entries 0 (max_dir_entries p) (junk_byte h),
     fs_data_size = max_block_count p * block_size p,
     free_blocks = (replicate (max_block_count p) FREE)[0 := TAKEN],
     open_file_table = map (junk_open h) [0..<max_open_files_count p],
     free_open_file_entries = replicate (max_open_files_count p) FREE,
     g_library_mutex = False\<rparr>"

lemma state_init_run:
  assumes "good_params p" and "good_heap h p"
  shows "state_init h p fs_static = Ret (0, \<lparr>fs_params = p,
     inode_table = Some (map (junk_inode h) [0..<max_inode_count p]),
     freeinode_ts = replicate (max_inode_count p) FREE,
     fs_data = junk_byte h, fs_data_size = max_block_count p * block_size p,
     free_blocks = replicate (max_block_count p) FREE,
     open_file_table = map (junk_open h) [0..<max_open_files_count p],
     free_open_file_entries = replicate (max_open_files_count p) FREE,
     g_library_mutex = False\<rparr>)"
  using assms
  by (simp add: state_init_def fs_static_def Let_def good_heap_def good_params_def malloc_table_def
      sizeof_inode_def sizeof_alloc_state_def sizeof_open_file_def ret_def)

lemma first_free_replicate: "0 < n \<Longrightarrow> first_free (replicate n FREE) = Some 0"
  by (simp add: first_free_Some)

lemma tfs_init_run:
  assumes "good_params p" and "good_heap h p"
  shows "tfs_init h (Some p) fs_static = Ret (0, started h p)"
proof -
  let ?s = "\<lparr>fs_params = p,
     inode_table = Some (map (junk_inode h) [0..<max_inode_count p]),
     freeinode_ts = replicate (max_inode_count p) FREE,
     fs_data = junk_byte h, fs_data_size = max_block_count p * block_size p,
     free_blocks = replicate (max_block_count p) FREE,
     open_file_table = map (junk_open h) [0..<max_open_files_count p],
     free_open_file_entries = replicate (max_open_files_count p) FREE,
     g_library_mutex = False\<rparr>"
  let ?n = "\<lparr>i_node_type = T_DIRECTORY, i_size = block_size p, i_data_block = 0\<rparr>"
  let ?t = "?s\<lparr>freeinode_ts := (freeinode_ts ?s)[0 := TAKEN],
     free_blocks := (free_blocks ?s)[0 := TAKEN], inode_table := Some ((inodes ?s)[0 := ?n])\<rparr>"
  have tab: "tables_ok ?s" using assms(1) by (simp add: tables_ok_def good_params_def)
  have alloc: "inode_alloc ?s = Ret (0, ?s\<lparr>freeinode_ts := (freeinode_ts ?s)[0 := TAKEN]\<rparr>)"
    using tab assms(1) by (simp add: inode_alloc_run first_free_replicate good_params_def)
  let ?u = "?s\<lparr>freeinode_ts := (freeinode_ts ?s)[0 := TAKEN],
     inode_table := Some ((inodes ?s)[0 := (inodes ?s ! 0)\<lparr>i_node_type := T_DIRECTORY\<rparr>])\<rparr>"
  have "tables_ok ?u" using assms(1) by (simp add: tables_ok_def good_params_def)
  then have block: "data_block_alloc ?u = Ret (0, ?u\<lparr>free_blocks := (free_blocks ?u)[0 := TAKEN]\<rparr>)"
    using assms(1) by (simp add: data_block_alloc_run first_free_replicate good_params_def)
  have node: "n\<lparr>i_node_type := T_DIRECTORY, i_size := b, i_data_block := 0\<rparr>
      = \<lparr>i_node_type = T_DIRECTORY, i_size = b, i_data_block = 0\<rparr>" for n b
    by (cases n) simp
  have "entry_ok 0 i ?t" if "i < nents ?t" for i
  proof -
    from that have "44 * Suc i \<le> block_size p"
      by (simp add: nents_def max_dir_entries_def sizeof_dir_entry_def)
    also have "\<dots> \<le> max_block_count p * block_size p" using assms(1) by (simp add: good_params_def)
    finally show ?thesis by (simp add: entry_ok_def entry_addr_def sizeof_dir_entry_def)
  qed
  then have dir: "init_dir_block 0 ?t = Ret (None, started h p)"
    by (simp add: init_dir_block_run) (simp add: started_def nents_def)
  have "inode_create T_DIRECTORY ?s = Ret (0, started h p)"
    using alloc block dir assms(1)
    by (simp add: inode_create_def bnd_Ret set_inode_run data_block_get_run valid_block_number_def
        good_params_def node ret_run)
  then show ?thesis
    using state_init_run [OF assms]
    by (simp add: tfs_init_def bnd_Ret ROOT_DIR_INUM_def ret_run)
qed

lemma started_views:
  assumes "good_params p" and "good_heap h p"
  shows "fs_inv (started h p)" and "root_map (started h p) = Map.empty"
    and "\<not> g_library_mutex (started h p)" and "\<not> handle_open (started h p) i"
proof -
  let ?s = "started h p"
  have wf: "dir_wf (fs_data ?s) 0 (nents ?s)"
    using assms(2) by (auto simp: started_def nents_def good_heap_def intro: init_entries_wf)
  have dead: "\<not> live (fs_data ?s) 0 i" if "i < nents ?s" for i
    using that by (simp add: started_def nents_def live_def init_entries_fields)
  have root: "root_ok ?s"
    using assms(1) wf by (simp add: root_ok_def tables_ok_def good_params_def started_def)
  have taken: "inode_taken ?s k \<longleftrightarrow> k = 0" for k
    using assms(1)
    by (auto simp: inode_taken_def valid_inumber_def started_def good_params_def nth_list_update)
  show closed: "\<not> handle_open ?s i" for i
    by (auto simp: handle_open_def valid_file_handle_def started_def)
  show "fs_inv ?s"
    using root dead taken closed assms(1)
    by (auto simp: fs_inv_def inv_root_def inv_listed_def inv_files_def inv_blocks_def listed_def
        has_data_def) (simp add: started_def good_params_def)
  show "root_map ?s = Map.empty"
    using dead by (auto simp: root_map_def dir_map_None)
  show "\<not> g_library_mutex ?s" by (simp add: started_def)
qed

end
