(* ===== verification/Fs_Files.thy ===== *)
theory Fs_Files imports Fs_Start begin

text \<open>
  What a user of the file system sees: names and the bytes of their files. \<open>content\<close> is the bytes of
  a file as the inode's size and block give them, \<open>files\<close> the map from names to contents. The
  lemmas give the effect of every call on that map.
\<close>

section \<open>Contents\<close>

definition content :: "fs \<Rightarrow> int \<Rightarrow> byte list" where
  "content s k =
     mem_read (fs_data s) (block_addr s (i_data_block (inode_of s k))) (i_size (inode_of s k))"

definition files :: "fs \<Rightarrow> cstring \<Rightarrow> byte list option" where
  "files s x = map_option (content s) (root_map s x)"

text \<open>Every file fits its block.\<close>

definition small_files :: "fs \<Rightarrow> bool" where
  "small_files s \<longleftrightarrow> (\<forall>k. 0 < k \<longrightarrow> inode_taken s k \<longrightarrow>
     i_size (inode_of s k) \<le> block_size (fs_params s))"

text \<open>A file's bytes after \<open>bs\<close> was written at offset \<open>off\<close>, at most its length.\<close>

definition overwrite :: "byte list \<Rightarrow> nat \<Rightarrow> byte list \<Rightarrow> byte list" where
  "overwrite old off bs = take off old @ bs @ drop (off + length bs) old"

lemma mem_read_drop: "m = mem_read d a n \<Longrightarrow> k \<le> n \<Longrightarrow> drop k m = mem_read d (a + k) (n - k)"
  by (rule nth_equalityI) (auto simp: add.assoc)

lemma mem_read_take: "m = mem_read d a n \<Longrightarrow> k \<le> n \<Longrightarrow> take k m = mem_read d a k"
  by (rule nth_equalityI) auto

lemma mem_read_overwrite:
  assumes "off \<le> n"
  shows "mem_read (mem_write m (a + off) bs) a (max n (off + length bs))
       = overwrite (mem_read m a n) off bs"
  unfolding overwrite_def
  by (rule nth_equalityI) (use assms in \<open>auto simp: nth_append mem_write_def\<close>)

lemma mem_read_cong: "(\<And>x. a \<le> x \<Longrightarrow> x < a + n \<Longrightarrow> m x = m' x) \<Longrightarrow> mem_read m a n = mem_read m' a n"
  by (simp add: mem_read_def)

text \<open>Contents only depend on the inode and the memory past the root directory's block.\<close>

lemma content_frame:
  assumes "fs_inv s" and "0 < k" and "inode_taken s k"
    and "inode_of t k = inode_of s k" and "fs_params t = fs_params s"
    and "\<And>x. block_size (fs_params s) \<le> x \<Longrightarrow> fs_data t x = fs_data s x"
  shows "content t k = content s k"
proof (cases "0 < i_size (inode_of s k)")
  case True
  then have "0 < i_data_block (inode_of s k)"
    using taken_block_range(1) [OF assms(1), of k] assms(2,3) by (simp add: has_data_def)
  then have "block_size (fs_params s) \<le> block_addr s (i_data_block (inode_of s k))"
    by (cases "nat (i_data_block (inode_of s k))") (simp_all add: block_addr_def)
  then have "mem_read (fs_data t) (block_addr s (i_data_block (inode_of s k))) n
      = mem_read (fs_data s) (block_addr s (i_data_block (inode_of s k))) n" for n
    by (intro mem_read_cong assms(6)) (erule order_trans)
  then show ?thesis
    using assms(4,5) by (simp add: content_def block_addr_def)
qed (simp add: content_def assms(4) mem_read_def)

lemma entry_write_inside:
  assumes "i < nents s" and "block_size (fs_params s) \<le> x"
  shows "put_entry 0 i name k m x = m x" and "wipe_entry 0 i m x = m x"
proof -
  from assms(1) have "44 * Suc i \<le> block_size (fs_params s)"
    by (simp add: nents_def max_dir_entries_def sizeof_dir_entry_def)
  with assms(2) have "44 * i + 44 \<le> x" by simp
  then show "put_entry 0 i name k m x = m x" "wipe_entry 0 i m x = m x"
    by (auto simp: put_entry_def wipe_entry_def set_d_name_def set_d_inumber_def mem_write_def
        entry_addr_def sizeof_dir_entry_def MAX_FILE_NAME_def)
qed

lemma root_map_frame:
  "fs_data t = fs_data s \<Longrightarrow> fs_params t = fs_params s \<Longrightarrow> root_map t = root_map s"
  by (simp add: root_map_def nents_def)

text \<open>No two names share an inode.\<close>

lemma root_map_inj:
  assumes "fs_inv s" and "root_map s x = Some k" and "root_map s y = Some k"
  shows "x = y"
  using assms(2,3) fs_invD(9) [OF assms(1)]
  by (auto simp: root_map_def dir_map_Some [OF fs_invD(9) [OF assms(1)]]) (auto simp: dir_wf_def)

text \<open>The map of files changes at one name only when the others keep their inode and contents.\<close>

lemma files_at:
  assumes "\<And>y. y \<noteq> x \<Longrightarrow> root_map t y = root_map s y"
    and "\<And>y j. y \<noteq> x \<Longrightarrow> root_map s y = Some j \<Longrightarrow> content t j = content s j"
  shows "files t = (files s)(x := files t x)"
proof
  fix y
  show "files t y = ((files s)(x := files t x)) y"
    using assms by (cases "y = x"; cases "root_map s y") (simp_all add: files_def)
qed

lemma files_same:
  assumes "root_map t = root_map s" and "\<And>x j. root_map s x = Some j \<Longrightarrow> content t j = content s j"
  shows "files t = files s"
proof
  fix y
  show "files t y = files s y"
    using assms by (cases "root_map s y") (simp_all add: files_def)
qed

section \<open>Opening\<close>

lemma open_entry_views:
  assumes "open_entry k off s = (h, t)"
  shows "root_map t = root_map s" and "content t = content s" and "inode_taken t = inode_taken s"
    and "inode_of t = inode_of s" and "files t = files s" and "small_files t = small_files s"
proof -
  show "root_map t = root_map s" "content t = content s" "inode_taken t = inode_taken s"
    "inode_of t = inode_of s"
    using assms by (auto simp: open_entry_def content_def block_addr_def fun_eq_iff root_map_def nents_def
        inode_taken_def valid_inumber_def inode_of_def split: option.splits)
  moreover have "fs_params t = fs_params s"
    using assms by (auto simp: open_entry_def split: option.splits)
  ultimately show "files t = files s" "small_files t = small_files s"
    by (simp_all add: files_def [abs_def] small_files_def)
qed

lemma open_entry_handle:
  assumes "tables_ok s" and "open_entry k off s = (h, t)"
  shows "if first_free (free_open_file_entries s) = None then h = -1 \<and> t = s
    else 0 \<le> h \<and> \<not> handle_open s h \<and> handle_open t h
       \<and> handle_entry t h = \<lparr>of_inumber = k, of_offset = off\<rparr>
       \<and> (\<forall>g. g \<noteq> h \<longrightarrow> handle_open t g = handle_open s g
            \<and> (handle_open s g \<longrightarrow> handle_entry t g = handle_entry s g))"
proof (cases "first_free (free_open_file_entries s)")
  case None
  with assms(2) show ?thesis by (auto simp: open_entry_def)
next
  case (Some i)
  then have i: "i < max_open_files_count (fs_params s)" "free_open_file_entries s ! i = FREE"
    using tables_okD(5,6) [OF assms(1)] by (simp_all add: first_free_Some)
  from assms(2) Some have "h = int i" and t: "t = s\<lparr>
      free_open_file_entries := (free_open_file_entries s)[i := TAKEN],
      open_file_table := (open_file_table s)[i := \<lparr>of_inumber = k, of_offset = off\<rparr>]\<rparr>"
    by (simp_all add: open_entry_def)
  then show ?thesis
    using Some i tables_okD(5,6) [OF assms(1)]
    by (auto simp: t handle_open_def handle_entry_def valid_file_handle_def
        nth_list_update eq_nat_nat_iff)
qed

lemma trunc_file_views:
  assumes "fs_inv s" and "root_map s x = Some k"
  shows "root_map (trunc_file k s) = root_map s"
    and "inode_taken (trunc_file k s) = inode_taken s"
    and "files (trunc_file k s) = (files s)(x \<mapsto> [])"
    and "small_files s \<Longrightarrow> small_files (trunc_file k s)"
    and "i_size (inode_of (trunc_file k s) k) = 0"
proof -
  note k = root_map_taken [OF assms]
  show rm: "root_map (trunc_file k s) = root_map s"
    by (auto simp: trunc_file_def intro: root_map_frame)
  show tk: "inode_taken (trunc_file k s) = inode_taken s" by (simp add: trunc_file_def)
  show size: "i_size (inode_of (trunc_file k s) k) = 0"
    using k(5) by (simp add: trunc_file_def)
  have same: "inode_of (trunc_file k s) j = inode_of s j" if "0 < j" "j \<noteq> k" for j
    using inode_update_at [OF k(1) that(1) k(5)] that by (simp add: trunc_file_def)
  have "content (trunc_file k s) j = content s j" if "root_map s y = Some j" "y \<noteq> x" for y j
  proof -
    have "j \<noteq> k" using root_map_inj [OF assms] that by auto
    with root_map_taken(1,2) [OF assms(1) that(1)] show ?thesis
      by (intro content_frame [OF assms(1)] same) (simp_all add: trunc_file_def)
  qed
  then have "files (trunc_file k s) = (files s)(x := files (trunc_file k s) x)"
    by (intro files_at) (simp_all add: rm)
  moreover have "files (trunc_file k s) x = Some []"
    using assms(2) by (simp add: files_def rm content_def size mem_read_def)
  ultimately show "files (trunc_file k s) = (files s)(x \<mapsto> [])" by simp
  show "small_files (trunc_file k s)" if "small_files s"
    unfolding small_files_def tk
  proof (intro allI impI)
    fix j assume "0 < j" "inode_taken s j"
    with that show "i_size (inode_of (trunc_file k s) j) \<le> block_size (fs_params (trunc_file k s))"
      using size same [of j] by (cases "j = k") (simp_all add: small_files_def trunc_file_def)
  qed
qed

lemma create_file_views:
  assumes "fs_inv s" and "first_free (freeinode_ts s) = Some k"
    and "dir_free (fs_data s) 0 (nents s) = Some i"
    and "is_cstring name" and "name \<noteq> []" and "length name < 40" and "root_map s name = None"
  shows "root_map (create_file k i name s) = (root_map s)(name \<mapsto> int k)"
    and "files (create_file k i name s) = (files s)(name \<mapsto> [])"
    and "small_files s \<Longrightarrow> small_files (create_file k i name s)"
proof -
  let ?t = "create_file k i name s"
  note f = fresh_slot [OF assms(1,2)] and tab = fs_invD(6) [OF assms(1)] and wf = fs_invD(9) [OF assms(1)]
  have k31: "int k < 2 ^ 31" using f(5) tables_okD(8) [OF tab] by (simp add: valid_inumber_def)
  have "\<not> listed s (int k)" using fs_invD(2) [OF assms(1)] f(4) by (simp add: inv_listed_def)
  then have un: "\<forall>j<nents s. live (fs_data s) 0 j \<longrightarrow> d_inumber (fs_data s) 0 j \<noteq> int k"
    by (auto simp: listed_def)
  show rm: "root_map ?t = (root_map s)(name \<mapsto> int k)"
    using put_entry_map [OF wf assms(3) _ assms(4-6) _ k31 un] assms(7)
    by (simp add: root_map_def create_file_def reset_inode_def nents_def)
  have fresh: "inode_of ?t (int k) = empty_file"
    using f(2) by (simp add: create_file_def reset_inode_def)
  have same: "inode_of ?t j = inode_of s j" if "0 < j" "j \<noteq> int k" for j
    using inode_update_at [of "int k" j s empty_file] f(1,2) that
    by (simp add: create_file_def reset_inode_def)
  have "content ?t j = content s j" if "root_map s y = Some j" for y j
  proof -
    note j = root_map_taken(1,2) [OF assms(1) that]
    with f(4) have "j \<noteq> int k" by auto
    with j show ?thesis
      using dir_free_Some [OF assms(3)]
      by (intro content_frame [OF assms(1)] same)
        (simp_all add: create_file_def reset_inode_def entry_write_inside [of i s])
  qed
  then have "files ?t = (files s)(name := files ?t name)"
    by (intro files_at) (simp_all add: rm)
  moreover have "files ?t name = Some []"
    by (simp add: files_def rm content_def fresh empty_file_def mem_read_def)
  ultimately show "files ?t = (files s)(name \<mapsto> [])" by simp
  show "small_files ?t" if "small_files s"
    unfolding small_files_def
  proof (intro allI impI)
    fix j assume j: "0 < j" "inode_taken ?t j"
    have p: "fs_params ?t = fs_params s" by (simp add: create_file_def reset_inode_def)
    show "i_size (inode_of ?t j) \<le> block_size (fs_params ?t)"
    proof (cases "j = int k")
      case True
      then show ?thesis by (simp add: fresh empty_file_def)
    next
      case False
      then have "inode_taken s j"
        using j f(1,3) by (auto simp: create_file_def reset_inode_def inode_taken_def
            valid_inumber_def nth_list_update)
      with that j False show ?thesis by (simp add: small_files_def same p)
    qed
  qed
qed

section \<open>Unlinking\<close>

lemma delete_file_views:
  assumes "fs_inv s" and "dir_find (fs_data s) 0 (nents s) name = Some i"
  shows "root_map (delete_file (d_inumber (fs_data s) 0 i) i s) = (root_map s)(name := None)"
    and "files (delete_file (d_inumber (fs_data s) 0 i) i s) = (files s)(name := None)"
    and "small_files s \<Longrightarrow> small_files (delete_file (d_inumber (fs_data s) 0 i) i s)"
proof -
  let ?k = "d_inumber (fs_data s) 0 i"
  let ?t = "delete_file ?k i s"
  note i = dir_find_name [OF assms] and wf = fs_invD(9) [OF assms(1)]
  show rm: "root_map ?t = (root_map s)(name := None)"
    using wipe_entry_map [OF wf i(2-4)] by (simp add: root_map_def delete_file_def nents_def)
  have at: "inode_of ?t = inode_of s" "fs_params ?t = fs_params s"
    by (simp_all add: delete_file_def)
  have "content ?t j = content s j" if "root_map s y = Some j" for y j
    using root_map_taken(1,2) [OF assms(1) that] i(2)
    by (intro content_frame [OF assms(1)])
      (simp_all add: at delete_file_def entry_write_inside [of i s])
  then have "files ?t = (files s)(name := files ?t name)"
    by (intro files_at) (simp_all add: rm)
  moreover have "files ?t name = None" by (simp add: files_def rm)
  ultimately show "files ?t = (files s)(name := None)" by simp
  have "inode_taken s j" if "inode_taken ?t j" for j
    using that by (cases "nat j = nat ?k"; cases "nat j < length (freeinode_ts s)")
      (auto simp: delete_file_def inode_taken_def valid_inumber_def list_update_beyond)
  then show "small_files ?t" if "small_files s"
    using that by (auto simp: small_files_def at)
qed

section \<open>Writing and reading\<close>

text \<open>
  A write that stays inside the block: the file it goes to is overwritten from the offset on, every
  other file keeps its contents.
\<close>

lemma block_apart:
  assumes "(a::nat) \<noteq> b" and "off + len \<le> n" and "sz \<le> n"
  shows "a * n + sz \<le> b * n + off \<or> b * n + off + len \<le> a * n"
proof (cases "a < b")
  case True
  then have "Suc a * n \<le> b * n" by (intro mult_le_mono1) simp
  with assms(3) show ?thesis by simp
next
  case False
  then have "Suc b * n \<le> a * n" using assms(1) by (intro mult_le_mono1) simp
  with assms(2) show ?thesis by simp
qed

text \<open>The block a write through \<open>h\<close> goes to, and the state with that block taken.\<close>

definition target_block :: "int \<Rightarrow> fs \<Rightarrow> nat option" where
  "target_block h s =
     (let n = inode_of s (of_inumber (handle_entry s h)) in
      if 0 < i_size n then Some (nat (i_data_block n)) else first_free (free_blocks s))"

definition write_to :: "int \<Rightarrow> nat \<Rightarrow> byte list \<Rightarrow> fs \<Rightarrow> fs" where
  "write_to h b bs s = store h (int b) bs
     (if 0 < i_size (inode_of s (of_inumber (handle_entry s h))) then s else take_block b s)"

lemma write_to_inode:
  assumes "fs_inv s" and "handle_open s h" and "0 < j"
  defines "k \<equiv> of_inumber (handle_entry s h)"
  shows "inode_of (write_to h b bs s) j = (if j = k
     then (inode_of s k)\<lparr>i_data_block := int b,
       i_size := max (i_size (inode_of s k)) (of_offset (handle_entry s h) + length bs)\<rparr>
     else inode_of s j)"
  using inode_update_at [OF open_handle_facts(1) [OF assms(1,2)] assms(3)
      open_handle_facts(4) [OF assms(1,2)]] open_handle_facts(4) [OF assms(1,2)]
  by (simp add: write_to_def store_def Let_def take_block_def k_def move_to_def)

lemma write_to_views:
  shows "fs_data (write_to h b bs s) = mem_write (fs_data s)
      (b * block_size (fs_params s) + of_offset (handle_entry s h)) bs"
    and "fs_params (write_to h b bs s) = fs_params s"
    and "inode_taken (write_to h b bs s) = inode_taken s"
    and "handle_open (write_to h b bs s) = handle_open s"
  by (simp_all add: write_to_def store_def Let_def take_block_def move_to_def fun_eq_iff inode_taken_def
      valid_inumber_def handle_open_def valid_file_handle_def)

lemma write_to_handle:
  assumes "fs_inv s" and "handle_open s h"
  shows "handle_entry (write_to h b bs s) h = (handle_entry s h)\<lparr>of_offset :=
     of_offset (handle_entry s h) + length bs\<rparr>"
  using open_handle_facts(5) [OF assms]
  by (simp add: write_to_def store_def Let_def take_block_def move_to_def handle_entry_def)

lemma target_block_facts:
  assumes "fs_inv s" and "handle_open s h" and "target_block h s = Some b"
  shows "0 < b" and "b < max_block_count (fs_params s)"
    and "has_data s j \<Longrightarrow> j \<noteq> of_inumber (handle_entry s h) \<Longrightarrow>
         inode_taken s (of_inumber (handle_entry s h)) \<Longrightarrow> i_data_block (inode_of s j) \<noteq> int b"
proof -
  note o = open_handle_facts [OF assms(1,2)] and tab = fs_invD(6) [OF assms(1)]
  have free: "b < length (free_blocks s)" "free_blocks s ! b = FREE"
    if "i_size (inode_of s (of_inumber (handle_entry s h))) = 0"
    using assms(3) that by (simp_all add: target_block_def Let_def first_free_Some)
  show "0 < b" "b < max_block_count (fs_params s)"
    using assms(3) o(3) free fs_invD(8) [OF assms(1)] tables_okD(3) [OF tab]
    by (auto simp: target_block_def Let_def file_inode_ok_def valid_block_number_def
        intro!: gr0I split: if_splits)
  assume j: "has_data s j" "j \<noteq> of_inumber (handle_entry s h)"
    "inode_taken s (of_inumber (handle_entry s h))"
  show "i_data_block (inode_of s j) \<noteq> int b"
  proof (cases "0 < i_size (inode_of s (of_inumber (handle_entry s h)))")
    case True
    then have k: "has_data s (of_inumber (handle_entry s h))" using j(3) o(1) by (simp add: has_data_def)
    with True assms(3) taken_block_range(1) [OF assms(1) k] fs_invD(4) [OF assms(1)] j(1,2)
    show ?thesis by (auto simp: target_block_def inv_blocks_def)
  next
    case False
    then show ?thesis
      using free fs_invD(4) [OF assms(1)] j(1) by (auto simp: inv_blocks_def)
  qed
qed

lemma dir_map_cong:
  assumes "\<And>i. i < n \<Longrightarrow> d_name m dir i = d_name m' dir i \<and> d_inumber m dir i = d_inumber m' dir i"
  shows "dir_map m dir n = dir_map m' dir n"
proof
  fix x
  have f: "dir_find m dir n x = dir_find m' dir n x"
    unfolding dir_find_def by (rule find_cong) (use assms in \<open>auto simp: live_def ename_def\<close>)
  show "dir_map m dir n x = dir_map m' dir n x"
  proof (cases "dir_find m' dir n x")
    case (Some i)
    then have "i < n" by (auto simp: dir_find_def find_Some_iff)
    with Some f assms show ?thesis by (simp add: dir_map_def)
  qed (simp add: f dir_map_def)
qed

lemma write_to_root_map:
  assumes "fs_inv s" and "0 < b"
  shows "root_map (write_to h b bs s) = root_map s"
proof -
  have "block_size (fs_params s) \<le> b * block_size (fs_params s) + of_offset (handle_entry s h)"
    using assms(2) by (cases b) simp_all
  then have "d_name (fs_data (write_to h b bs s)) 0 i = d_name (fs_data s) 0 i \<and>
      d_inumber (fs_data (write_to h b bs s)) 0 i = d_inumber (fs_data s) 0 i" if "i < nents s" for i
    using that by (simp add: write_to_views nents_def entries_write_outside)
  then have "dir_map (fs_data (write_to h b bs s)) 0 (nents s) = dir_map (fs_data s) 0 (nents s)"
    by (rule dir_map_cong)
  then show ?thesis by (simp add: root_map_def nents_def write_to_views)
qed

lemma write_to_files:
  assumes inv: "fs_inv s" and h: "handle_open s h" and b: "target_block h s = Some b"
    and k: "root_map s x = Some (of_inumber (handle_entry s h))"
    and small: "small_files s" and old: "files s x = Some old"
    and off: "of_offset (handle_entry s h) \<le> length old"
    and fits: "of_offset (handle_entry s h) + length bs \<le> block_size (fs_params s)"
  shows "files (write_to h b bs s) = (files s)(x \<mapsto> overwrite old (of_offset (handle_entry s h)) bs)"
    and "small_files (write_to h b bs s)"
proof -
  let ?t = "write_to h b bs s"
  let ?k = "of_inumber (handle_entry s h)"
  let ?off = "of_offset (handle_entry s h)"
  note kk = root_map_taken [OF inv k] and tb = target_block_facts [OF inv h b]
    and rm = write_to_root_map [OF inv tb(1), of h bs]
  have len: "length old = i_size (inode_of s ?k)" and old': "old = content s ?k"
    using old k by (auto simp: files_def content_def)
  note at = write_to_inode [OF inv h, of _ b bs]
  have "content ?t j = content s j" if "root_map s y = Some j" and "y \<noteq> x" for y j
  proof -
    note j = root_map_taken [OF inv that(1)]
    have ne: "j \<noteq> ?k" using root_map_inj [OF inv] that k by auto
    then have ino: "inode_of ?t j = inode_of s j" using at [OF j(1)] by simp
    show ?thesis
    proof (cases "0 < i_size (inode_of s j)")
      case True
      then have d: "has_data s j" using j by (simp add: has_data_def)
      then have "nat (i_data_block (inode_of s j)) \<noteq> b"
        using tb(3) [OF d ne kk(2)] taken_block_range(1) [OF inv d] by auto
      moreover have "i_size (inode_of s j) \<le> block_size (fs_params s)"
        using small j by (simp add: small_files_def)
      ultimately show ?thesis
        using block_apart [OF _ fits] by (auto simp: content_def block_addr_def ino write_to_views
            intro!: mem_read_other)
    qed (simp add: content_def ino mem_read_def)
  qed
  then have "files ?t = (files s)(x := files ?t x)"
    by (intro files_at) (simp_all add: rm)
  moreover have "content ?t ?k = overwrite old ?off bs"
  proof -
    have "content ?t ?k = mem_read (mem_write (fs_data s) (b * block_size (fs_params s) + ?off) bs)
        (b * block_size (fs_params s)) (max (i_size (inode_of s ?k)) (?off + length bs))"
      using at [OF kk(1)] by (simp add: content_def block_addr_def write_to_views)
    also have "\<dots> = overwrite (mem_read (fs_data s) (b * block_size (fs_params s))
        (i_size (inode_of s ?k))) ?off bs"
      using off len by (intro mem_read_overwrite) simp
    also have "mem_read (fs_data s) (b * block_size (fs_params s)) (i_size (inode_of s ?k)) = old"
      using b by (cases "0 < i_size (inode_of s ?k)")
        (simp_all add: old' content_def block_addr_def target_block_def mem_read_def)
    finally show ?thesis .
  qed
  ultimately show "files ?t = (files s)(x \<mapsto> overwrite old ?off bs)"
    using k by (simp add: files_def rm)
  show "small_files ?t"
    unfolding small_files_def
  proof (intro allI impI)
    fix j assume "0 < j" "inode_taken ?t j"
    then show "i_size (inode_of ?t j) \<le> block_size (fs_params ?t)"
      using small fits kk(1,2) by (auto simp: at small_files_def write_to_views)
  qed
qed

text \<open>\<^verbatim>\<open>tfs_write\<close> on a handle to a file of the root directory, inside the block.\<close>

lemma c_ssize_block:
  assumes "tables_ok s" and "0 < max_block_count (fs_params s)" and "n \<le> block_size (fs_params s)"
  shows "c_ssize n = int n"
proof -
  have "1 * block_size (fs_params s) \<le> max_block_count (fs_params s) * block_size (fs_params s)"
    using assms(2) by (intro mult_le_mono1) simp
  also have "\<dots> < 2 ^ 63" using tables_okD(12) [OF assms(1)] .
  finally show ?thesis using assms(3) by simp
qed

lemma write_in_bounds:
  assumes "tables_ok s" and "b < max_block_count (fs_params s)" and "m \<le> block_size (fs_params s)"
  shows "b * block_size (fs_params s) + m \<le> fs_data_size s"
proof -
  have "Suc b * block_size (fs_params s) \<le> max_block_count (fs_params s) * block_size (fs_params s)"
    using assms(2) by (intro mult_le_mono1) simp
  with assms(3) show ?thesis by (simp add: tables_okD(4) [OF assms(1)])
qed

lemma tfs_write_file:
  assumes inv: "fs_inv s" and "\<not> g_library_mutex s" and h: "handle_open s h"
    and k: "root_map s x = Some (of_inumber (handle_entry s h))"
    and len: "0 < len" "len \<le> length buffer"
    and fits: "of_offset (handle_entry s h) + len \<le> block_size (fs_params s)"
  shows "tfs_write h buffer len s =
     (case target_block h s of None \<Rightarrow> Ret (-1, unlocked s)
      | Some b \<Rightarrow> Ret (int len, unlocked (write_to h b (take len buffer) s)))"
proof (cases "target_block h s")
  case None
  then have "write_result h (take len buffer) s = Ret (-1, s)"
    by (simp add: write_result_def target_block_def Let_def)
  with None assms show ?thesis by (simp add: tfs_write_run)
next
  case (Some b)
  note tb = target_block_facts [OF inv h Some] and tab = fs_invD(6) [OF inv]
  have "b * block_size (fs_params s) + (of_offset (handle_entry s h) + len) \<le> fs_data_size s"
    using write_in_bounds [OF tab tb(2) fits] .
  moreover have "c_ssize len = int len"
    using tb(2) fits by (intro c_ssize_block [OF tab]) simp_all
  ultimately have "write_result h (take len buffer) s
      = Ret (int len, write_to h b (take len buffer) s)"
    using Some len by (auto simp: write_result_def target_block_def Let_def write_to_def min_def)
  with Some assms show ?thesis by (simp add: tfs_write_run)
qed

text \<open>\<^verbatim>\<open>tfs_read\<close> inside the contents of a file.\<close>

lemma move_to_views [simp]:
  "root_map (move_to h off s) = root_map s" "content (move_to h off s) = content s"
  "files (move_to h off s) = files s" "small_files (move_to h off s) = small_files s"
  "handle_open (move_to h off s) = handle_open s" "nents (move_to h off s) = nents s"
  "g_library_mutex (move_to h off s) = g_library_mutex s"
proof -
  show c: "content (move_to h off s) = content s"
    by (simp add: move_to_def content_def block_addr_def fun_eq_iff)
  show r: "root_map (move_to h off s) = root_map s"
    by (simp add: move_to_def root_map_def)
  show "files (move_to h off s) = files s" by (simp add: files_def c r fun_eq_iff)
qed (simp_all add: move_to_def small_files_def)

lemma move_to_entry:
  "nat h < length (open_file_table s) \<Longrightarrow>
   handle_entry (move_to h off s) h = (handle_entry s h)\<lparr>of_offset := off\<rparr>"
  by (simp add: move_to_def handle_entry_def)

lemma mutex_views [simp]:
  "content (s\<lparr>g_library_mutex := m\<rparr>) = content s" "files (s\<lparr>g_library_mutex := m\<rparr>) = files s"
  "small_files (s\<lparr>g_library_mutex := m\<rparr>) = small_files s"
proof -
  show c: "content (s\<lparr>g_library_mutex := m\<rparr>) = content s"
    by (simp add: content_def block_addr_def fun_eq_iff)
  show "files (s\<lparr>g_library_mutex := m\<rparr>) = files s" by (simp add: files_def c fun_eq_iff)
qed (simp add: small_files_def)

lemma close_views [simp]:
  "root_map (s\<lparr>free_open_file_entries := x\<rparr>) = root_map s"
  "content (s\<lparr>free_open_file_entries := x\<rparr>) = content s"
  "files (s\<lparr>free_open_file_entries := x\<rparr>) = files s"
  "small_files (s\<lparr>free_open_file_entries := x\<rparr>) = small_files s"
proof -
  show c: "content (s\<lparr>free_open_file_entries := x\<rparr>) = content s"
    by (simp add: content_def block_addr_def fun_eq_iff)
  show r: "root_map (s\<lparr>free_open_file_entries := x\<rparr>) = root_map s"
    by (simp add: root_map_def)
  show "files (s\<lparr>free_open_file_entries := x\<rparr>) = files s" by (simp add: files_def c r fun_eq_iff)
qed (simp add: small_files_def)

lemma tfs_read_file:
  assumes inv: "fs_inv s" and "\<not> g_library_mutex s" and h: "handle_open s h"
    and k: "root_map s x = Some (of_inumber (handle_entry s h))"
    and small: "small_files s" and old: "files s x = Some old" and "0 < len"
    and fits: "of_offset (handle_entry s h) + len \<le> length old"
  shows "tfs_read h len s =
     Ret ((int len, take len (drop (of_offset (handle_entry s h)) old)),
          unlocked (move_to h (of_offset (handle_entry s h) + len) s))"
proof -
  let ?k = "of_inumber (handle_entry s h)"
  let ?off = "of_offset (handle_entry s h)"
  let ?a = "block_addr s (i_data_block (inode_of s ?k))"
  note kk = root_map_taken [OF inv k] and tab = fs_invD(6) [OF inv]
  have len: "length old = i_size (inode_of s ?k)" and old': "old = content s ?k"
    using old k by (auto simp: files_def content_def)
  then have d: "has_data s ?k" using kk fits assms(7) by (simp add: has_data_def)
  note b = taken_block_range [OF inv d]
  have size: "?off + len \<le> block_size (fs_params s)"
    using small kk fits len by (auto simp: small_files_def dest: le_trans)
  have nb: "nat (i_data_block (inode_of s ?k)) < max_block_count (fs_params s)"
    using b by (simp add: valid_block_number_def)
  have "?a + (?off + len) \<le> fs_data_size s"
    using write_in_bounds [OF tab nb size] by (simp add: block_addr_def)
  moreover have "take len (drop ?off old) = mem_read (fs_data s) (?a + ?off) len"
    using fits len by (intro nth_equalityI) (auto simp: old' content_def add.assoc)
  moreover have "c_ssize len = int len"
    using nb size by (intro c_ssize_block [OF tab]) simp_all
  ultimately show ?thesis
    using assms(2,7) h b by (simp add: tfs_read_run [OF inv] Let_def add.assoc)
qed

section \<open>Opening by name\<close>

definition can_create :: "cstring \<Rightarrow> fs \<Rightarrow> bool" where
  "can_create name s \<longleftrightarrow> first_free (freeinode_ts s) \<noteq> None \<and> length name < 40 \<and> root_room s"

text \<open>What \<^verbatim>\<open>tfs_open\<close> promises about the map of files.\<close>

definition spec_open ::
  "cstring \<Rightarrow> nat \<Rightarrow> bool \<Rightarrow> (cstring \<Rightarrow> byte list option) \<Rightarrow> (cstring \<Rightarrow> byte list option)" where
  "spec_open name mode creatable fm =
     (case fm name of
        Some _ \<Rightarrow> if has_flag mode TFS_O_TRUNC then fm(name \<mapsto> []) else fm
      | None \<Rightarrow> if has_flag mode TFS_O_CREAT \<and> creatable then fm(name \<mapsto> []) else fm)"

definition open_failed :: "cstring \<Rightarrow> nat \<Rightarrow> fs \<Rightarrow> bool" where
  "open_failed name mode s \<longleftrightarrow>
     name \<notin> dom (files s) \<and> \<not> (has_flag mode TFS_O_CREAT \<and> can_create name s) \<or>
     first_free (free_open_file_entries s) = None"

lemma open_existing_files:
  assumes inv: "fs_inv s" and "small_files s" and k: "root_map s name = Some k"
    and t: "open_existing k mode s = (h, t)"
  shows "small_files t \<and> files t = spec_open name mode c (files s) \<and>
     (if open_failed name mode s then h = -1
      else 0 \<le> h \<and> \<not> handle_open s h \<and> handle_open t h \<and>
        root_map t name = Some (of_inumber (handle_entry t h)) \<and>
        of_offset (handle_entry t h) =
          (if has_flag mode TFS_O_APPEND then length (the (files t name)) else 0))"
proof -
  let ?u = "if has_flag mode TFS_O_TRUNC then trunc_file k s else s"
  have open_u: "open_entry k (if has_flag mode TFS_O_APPEND then i_size (inode_of ?u k) else 0) ?u = (h, t)"
    using t by (simp add: open_existing_def Let_def)
  note tv = trunc_file_views [OF inv k] and ov = open_entry_views [OF open_u]
  have "fs_inv ?u" using inv k root_map_taken(1,2) [OF inv k] by (simp add: trunc_file_inv)
  note oh = open_entry_handle [OF fs_invD(6) [OF this] open_u]
  have files: "files s name \<noteq> None" "files ?u = spec_open name mode c (files s)" "root_map ?u = root_map s"
    "small_files ?u"
    using k tv assms(2) by (auto simp: files_def spec_open_def split: option.splits)
  have same: "free_open_file_entries ?u = free_open_file_entries s" "handle_open ?u = handle_open s"
    by (simp_all add: trunc_file_def)
  have "length (the (files ?u name)) = i_size (inode_of ?u k)"
    using files(3) k by (simp add: files_def content_def)
  moreover have "open_failed name mode s \<longleftrightarrow> first_free (free_open_file_entries s) = None"
    using files(1) by (auto simp: open_failed_def)
  ultimately show ?thesis
    using oh files k unfolding ov same by (auto simp del: not_None_eq)
qed

lemma reset_inode_views:
  assumes inv: "fs_inv s" and k: "first_free (freeinode_ts s) = Some k"
  shows "files (reset_inode k s) = files s" and "small_files (reset_inode k s) = small_files s"
    and "root_map (reset_inode k s) = root_map s"
proof -
  note f = fresh_slot [OF inv k]
  have same: "inode_of (reset_inode k s) j = inode_of s j" if "0 < j" "inode_taken s j" for j
  proof -
    have "j \<noteq> int k" using f(4) that(2) by auto
    moreover have "(inodes s)[nat (int k) := empty_file] ! nat j
        = (if j = int k then empty_file else inode_of s j)"
      using f(1,2) that(1) by (intro inode_update_at) simp_all
    ultimately show ?thesis by (simp only: reset_inode_def inode_of_table nat_int if_False)
  qed
  show rm: "root_map (reset_inode k s) = root_map s"
    by (simp add: root_map_def reset_inode_def)
  have at: "fs_params (reset_inode k s) = fs_params s" "fs_data (reset_inode k s) = fs_data s"
    "inode_taken (reset_inode k s) = inode_taken s"
    by (simp_all add: reset_inode_def)
  have "content (reset_inode k s) j = content s j" if "root_map s x = Some j" for x j
    using root_map_taken(1,2) [OF inv that]
    by (intro content_frame [OF inv]) (simp_all add: same at)
  then show "files (reset_inode k s) = files s" using rm by (intro files_same)
  show "small_files (reset_inode k s) = small_files s"
    using same by (auto simp: small_files_def at)
qed

lemma open_new_files:
  assumes inv: "fs_inv s" and "small_files s" and name: "is_cstring name" "name \<noteq> []"
    and new: "root_map s name = None" and t: "open_new name s = (h, t)"
  shows "small_files t \<and> files t = (if can_create name s then (files s)(name \<mapsto> []) else files s) \<and>
     (if can_create name s \<and> first_free (free_open_file_entries s) \<noteq> None
      then 0 \<le> h \<and> \<not> handle_open s h \<and> handle_open t h \<and>
        root_map t name = Some (of_inumber (handle_entry t h)) \<and> of_offset (handle_entry t h) = 0
      else h = -1)"
proof (cases "first_free (freeinode_ts s)")
  case None
  with assms show ?thesis by (auto simp: open_new_def can_create_def)
next
  case (Some k)
  note rv = reset_inode_views [OF inv Some]
  show ?thesis
  proof (cases "can_create name s")
    case False
    then have "h = -1" "t = reset_inode k s"
      using t Some by (auto simp: open_new_def can_create_def root_room_def split: if_splits option.splits)
    with False rv assms(2) show ?thesis by simp
  next
    case True
    then obtain i where i: "dir_free (fs_data s) 0 (nents s) = Some i" and len: "length name < 40"
      by (auto simp: can_create_def root_room_def)
    let ?u = "create_file k i name s"
    from t Some i len have open_u: "open_entry (int k) 0 ?u = (h, t)" by (simp add: open_new_def)
    note cv = create_file_views [OF inv Some i name len new] and ov = open_entry_views [OF open_u]
    have "fs_inv ?u" using create_file_inv [OF inv Some i name len new] .
    note oh = open_entry_handle [OF fs_invD(6) [OF this] open_u]
    have same: "free_open_file_entries ?u = free_open_file_entries s" "handle_open ?u = handle_open s"
      by (simp_all add: create_file_def reset_inode_def)
    show ?thesis
      using oh cv True assms(2) unfolding ov same by (auto simp del: not_None_eq)
  qed
qed

lemma tfs_open_files:
  assumes inv: "fs_inv s" and "\<not> g_library_mutex s" and "small_files s"
    and name: "is_cstring name" "name \<noteq> []"
  shows "\<exists>h t. tfs_open (Some (47 # name)) mode s = Ret (h, t) \<and>
     fs_inv t \<and> \<not> g_library_mutex t \<and> small_files t \<and>
     files t = spec_open name mode (can_create name s) (files s) \<and>
     (if open_failed name mode s then h = -1
      else 0 \<le> h \<and> \<not> handle_open s h \<and> handle_open t h \<and>
        root_map t name = Some (of_inumber (handle_entry t h)) \<and>
        of_offset (handle_entry t h) =
          (if has_flag mode TFS_O_APPEND then length (the (files t name)) else 0))"
proof -
  obtain h t where t: "open_result name mode s = (h, t)" by fastforce
  have run: "tfs_open (Some (47 # name)) mode s = Ret (h, unlocked t)"
    using tfs_open_run [OF inv assms(2) name, of mode] t by simp
  have "fs_inv (unlocked t)"
    using tfs_open_inv [OF inv assms(2), of "Some (47 # name)" mode] run name
    by (auto simp: name_ok_def)
  moreover have "small_files t \<and> files t = spec_open name mode (can_create name s) (files s) \<and>
     (if open_failed name mode s then h = -1
      else 0 \<le> h \<and> \<not> handle_open s h \<and> handle_open t h \<and>
        root_map t name = Some (of_inumber (handle_entry t h)) \<and>
        of_offset (handle_entry t h) =
          (if has_flag mode TFS_O_APPEND then length (the (files t name)) else 0))"
  proof (cases "root_map s name")
    case (Some k)
    with open_existing_files [OF inv assms(3) Some] t show ?thesis
      by (simp add: open_result_def)
  next
    case None
    then have nf: "files s name = None" by (simp add: files_def)
    show ?thesis
    proof (cases "has_flag mode TFS_O_CREAT")
      case True
      with None t have "open_new name s = (h, t)" by (simp add: open_result_def)
      from open_new_files [OF inv assms(3) name None this] True nf show ?thesis
        by (auto simp: spec_open_def open_failed_def domIff split: if_splits)
    next
      case False
      with None t nf assms(3) show ?thesis
        by (auto simp: open_result_def spec_open_def open_failed_def domIff)
    qed
  qed
  ultimately show ?thesis
    using run by auto
qed

section \<open>Unlinking by name\<close>

lemma tfs_unlink_files:
  assumes inv: "fs_inv s" and "\<not> g_library_mutex s" and "small_files s"
    and name: "is_cstring name" "name \<noteq> []"
  shows "\<exists>t. tfs_unlink (Some (47 # name)) s = Ret (if name \<in> dom (files s) then 0 else -1, t) \<and>
     fs_inv t \<and> \<not> g_library_mutex t \<and> small_files t \<and> files t = (files s)(name := None)"
proof -
  note run = tfs_unlink_run [OF inv assms(2) name]
  show ?thesis
  proof (cases "dir_find (fs_data s) 0 (nents s) name")
    case None
    then have "files s name = None" by (simp add: files_def root_map_def dir_map_def)
    with None run inv assms(2,3) show ?thesis
      by (auto simp: unlink_result_def domIff fun_upd_idem)
  next
    case (Some i)
    then have "files s name \<noteq> None" by (simp add: files_def root_map_def dir_map_def)
    with Some run delete_file_views [OF inv Some] assms(3)
      delete_file_inv [OF inv dir_find_name(2,3) [OF inv Some] refl]
    show ?thesis by (auto simp: unlink_result_def)
  qed
qed
section \<open>The calls on a handle\<close>

lemma tfs_write_spec:
  assumes inv: "fs_inv s" and unlocked: "\<not> g_library_mutex s" and small: "small_files s"
    and h: "handle_open s h" and k: "root_map s x = Some (of_inumber (handle_entry s h))"
    and old: "files s x = Some old" and off: "of_offset (handle_entry s h) \<le> length old"
    and len: "0 < len" "len \<le> length buffer"
    and fits: "of_offset (handle_entry s h) + len \<le> block_size (fs_params s)"
  shows "\<exists>n t. tfs_write h buffer len s = Ret (n, t) \<and> fs_inv t \<and> \<not> g_library_mutex t \<and>
     small_files t \<and> handle_open t = handle_open s \<and>
     (if old = [] \<and> taken (free_blocks s) = max_block_count (fs_params s)
      then n = -1 \<and> files t = files s
      else n = int len \<and>
        files t = (files s)(x \<mapsto> overwrite old (of_offset (handle_entry s h)) (take len buffer)) \<and>
        handle_entry t h = (handle_entry s h)\<lparr>of_offset := of_offset (handle_entry s h) + len\<rparr>)"
proof -
  have size: "i_size (inode_of s (of_inumber (handle_entry s h))) = length old"
    using old k by (auto simp: files_def content_def)
  have full: "target_block h s = None \<longleftrightarrow> old = [] \<and> taken (free_blocks s) = max_block_count (fs_params s)"
    using tables_okD(3) [OF fs_invD(6) [OF inv]] taken_full [of "free_blocks s"]
    by (auto simp: target_block_def Let_def size first_free_None)
  note run = tfs_write_file [OF inv unlocked h k len fits]
  show ?thesis
  proof (cases "target_block h s")
    case None
    with run full inv unlocked small show ?thesis by auto
  next
    case (Some b)
    let ?t = "write_to h b (take len buffer) s"
    have fits': "of_offset (handle_entry s h) + length (take len buffer) \<le> block_size (fs_params s)"
      using fits len by simp
    note wf = write_to_files [OF inv h Some k small old off fits']
    have "fs_inv (unlocked ?t)"
      using tfs_write_inv [OF inv unlocked len(2), of h] run Some by simp
    with Some run wf full write_to_handle [OF inv h, of b "take len buffer"] len(2)
    show ?thesis
      by (auto simp: write_to_views min_def)
  qed
qed

lemma tfs_read_spec:
  assumes "fs_inv s" and "\<not> g_library_mutex s" and "small_files s" and "handle_open s h"
    and "root_map s x = Some (of_inumber (handle_entry s h))" and "files s x = Some old"
    and "0 < len" and "of_offset (handle_entry s h) + len \<le> length old"
  shows "\<exists>t. tfs_read h len s =
       Ret ((int len, take len (drop (of_offset (handle_entry s h)) old)), t) \<and>
     fs_inv t \<and> \<not> g_library_mutex t \<and> files t = files s \<and>
     handle_entry t h = (handle_entry s h)\<lparr>of_offset := of_offset (handle_entry s h) + len\<rparr>"
  using tfs_read_file [OF assms(1,2,4,5,3,6-8)] move_to_inv [OF assms(1)]
    open_handle_facts(5) [OF assms(1,4)]
  by (simp add: move_to_entry)

end
