(* ===== verification/Fs_Props.thy ===== *)
theory Fs_Props imports Fs_Files begin

text \<open>
  The properties of the file system, each with a small instance: a file system of 4 inodes, 4 blocks
  of 128 bytes and 2 handles on a heap of zeros.
\<close>

section \<open>A small instance\<close>

definition demo_params :: tfs_params where
  "demo_params = \<lparr>max_inode_count = 4, max_block_count = 4, max_open_files_count = 2,
     block_size = 128\<rparr>"

definition demo_heap :: c_heap where
  "demo_heap = \<lparr>malloc_ok = (\<lambda>_ _. True),
     junk_inode = (\<lambda>_. \<lparr>i_node_type = T_FILE, i_size = 0, i_data_block = 0\<rparr>),
     junk_state = (\<lambda>_. FREE), junk_byte = (\<lambda>_. 0),
     junk_open = (\<lambda>_. \<lparr>of_inumber = 0, of_offset = 0\<rparr>)\<rparr>"

definition demo :: fs where
  "demo = started demo_heap demo_params"

lemma demo_lists:
  "replicate 4 x = [x, x, x, x]" "replicate 2 x = [x, x]" "[0..<4] = [0, 1, 2, 3]" "[0..<2] = [0, 1]"
  by (simp_all add: eval_nat_numeral)

lemma demo_good: "good_params demo_params" "good_heap demo_heap demo_params"
  by (simp_all add: good_params_def good_heap_def demo_params_def demo_heap_def)

lemma files_started:
  "good_params p \<Longrightarrow> good_heap h p \<Longrightarrow> files (started h p) = Map.empty"
  by (simp add: files_def fun_eq_iff started_views(2))

lemma small_files_started:
  assumes "good_params p" and "good_heap h p"
  shows "small_files (started h p)"
proof -
  have "\<not> inode_taken (started h p) k" if "0 < k" for k
    using that by (auto simp: inode_taken_def valid_inumber_def started_def nth_list_update)
  then show ?thesis by (simp add: small_files_def)
qed

lemma demo_state:
  "fs_inv demo" "files demo = Map.empty" "root_map demo = Map.empty" "small_files demo"
  "\<not> g_library_mutex demo" "\<not> handle_open demo h"
  unfolding demo_def
  using started_views [OF demo_good] files_started [OF demo_good] small_files_started [OF demo_good]
  by auto

section \<open>Starting\<close>

text \<open>
  On a process that has not used the file system yet, with enough memory, \<^verbatim>\<open>tfs_init\<close> succeeds and
  gives an empty file system that satisfies the invariant, with no handle open and the mutex free.
\<close>

theorem tfs_init_ready:
  assumes "good_params p" and "good_heap h p"
  shows "\<exists>s. tfs_init h (Some p) fs_static = Ret (0, s) \<and> fs_inv s \<and> files s = Map.empty \<and>
     small_files s \<and> \<not> g_library_mutex s \<and> (\<forall>i. \<not> handle_open s i)"
  using tfs_init_run [OF assms] started_views [OF assms] files_started [OF assms]
    small_files_started [OF assms] by blast

lemma tfs_init_ready_witness:
  "\<exists>s. tfs_init demo_heap (Some demo_params) fs_static = Ret (0, s) \<and> fs_inv s \<and>
     files s = Map.empty \<and> small_files s \<and> \<not> g_library_mutex s \<and> (\<forall>i. \<not> handle_open s i)"
  by (rule tfs_init_ready) (rule demo_good)+

text \<open>
  Whatever sequence of calls a program makes after a successful \<^verbatim>\<open>tfs_init\<close>, with names that are
  strings and buffers as long as it says, if the calls return then the file system still satisfies
  the invariant: the root directory lists exactly the inodes in use, files have distinct taken
  blocks, open handles refer to file inodes.
\<close>

theorem fs_inv_reachable:
  assumes "good_params p" and "good_heap h p"
    and "tfs_init h (Some p) fs_static = Ret (0, s)"
    and "list_all call_ok cs" and "run_calls cs s = Ret (rs, t)"
  shows "fs_inv t"
proof -
  have "s = started h p" using tfs_init_run [OF assms(1,2)] assms(3) by simp
  then show ?thesis
    using run_calls_inv [OF _ assms(4,5)] started_views(1) [OF assms(1,2)] by simp
qed

text \<open>The file \<^verbatim>\<open>/a\<close> created in the small instance.\<close>

definition demo1 :: fs where
  "demo1 = (create_file 1 0 [97] demo)\<lparr>free_open_file_entries := [TAKEN, FREE],
     open_file_table := [\<lparr>of_inumber = 1, of_offset = 0\<rparr>, \<lparr>of_inumber = 0, of_offset = 0\<rparr>]\<rparr>"

lemma demo_slots:
  "first_free (freeinode_ts demo) = Some 1" "first_free (free_open_file_entries demo) = Some 0"
  "dir_free (fs_data demo) 0 (nents demo) = Some 0"
proof -
  show "first_free (freeinode_ts demo) = Some 1" "first_free (free_open_file_entries demo) = Some 0"
    by (auto simp: first_free_Some demo_def started_def demo_params_def)
  have "nents demo = 2" "d_inumber (fs_data demo) 0 0 = -1"
    by (simp_all add: nents_def demo_def started_def demo_params_def max_dir_entries_def
        sizeof_dir_entry_def init_entries_fields)
  then show "dir_free (fs_data demo) 0 (nents demo) = Some 0"
    by (auto simp: dir_free_def find_Some_iff live_def demo_lists intro!: exI [of _ 0])
qed

lemma demo1_run:
  assumes "has_flag mode TFS_O_CREAT"
  shows "tfs_open (Some [47, 97]) mode demo = Ret (0, demo1)"
proof -
  have "open_result [97] mode demo = (0, demo1)"
    using demo_slots demo_state(3) assms
    by (simp add: open_result_def open_new_def open_entry_def create_file_def reset_inode_def)
      (simp add: demo1_def create_file_def reset_inode_def demo_def started_def demo_params_def
        demo_heap_def demo_lists)
  moreover have "unlocked demo1 = demo1"
    by (simp add: demo1_def create_file_def reset_inode_def demo_def started_def)
  ultimately show ?thesis
    using tfs_open_run [OF demo_state(1,5), of "[97]" mode] by simp
qed

lemma demo1_state:
  "fs_inv demo1" "\<not> g_library_mutex demo1" "small_files demo1" "files demo1 = [[97] \<mapsto> []]"
  "handle_open demo1 0" "root_map demo1 [97] = Some (of_inumber (handle_entry demo1 0))"
  "of_offset (handle_entry demo1 0) = 0"
proof -
  have "can_create [97] demo" and "\<not> open_failed [97] TFS_O_CREAT demo"
    using demo_slots by (simp_all add: can_create_def root_room_def open_failed_def)
  then show "fs_inv demo1" "\<not> g_library_mutex demo1" "small_files demo1" "files demo1 = [[97] \<mapsto> []]"
    "handle_open demo1 0" "root_map demo1 [97] = Some (of_inumber (handle_entry demo1 0))"
    "of_offset (handle_entry demo1 0) = 0"
    using tfs_open_files [OF demo_state(1,5,4), of "[97]" TFS_O_CREAT] demo1_run
    by (auto simp: spec_open_def demo_state)
qed

lemma demo1_fields:
  "fs_params demo1 = demo_params" "free_blocks demo1 = [TAKEN, FREE, FREE, FREE]"
  "handle_entry demo1 0 = \<lparr>of_inumber = 1, of_offset = 0\<rparr>"
  by (simp_all add: demo1_def create_file_def reset_inode_def demo_def started_def handle_entry_def)
    (simp add: demo_params_def demo_lists)

lemma fs_inv_reachable_witness:
  "run_calls [Open (Some [47, 97]) TFS_O_CREAT] demo = Ret ([0], demo1) \<and> fs_inv demo1"
proof -
  have run: "run_calls [Open (Some [47, 97]) TFS_O_CREAT] (started demo_heap demo_params)
      = Ret ([0], demo1)"
    using demo1_run by (simp add: demo_def bnd_def ret_def)
  moreover have "fs_inv demo1"
    by (rule fs_inv_reachable [OF demo_good tfs_init_run [OF demo_good] _ run])
      (simp add: name_ok_def)
  ultimately show ?thesis by (simp add: demo_def)
qed

section \<open>Opening, unlinking, closing\<close>

text \<open>
  C8: \<^verbatim>\<open>tfs_open\<close> refines the map of files. An existing file is left alone or, with \<^verbatim>\<open>TFS_O_TRUNC\<close>,
  emptied; a new name is bound to an empty file when \<^verbatim>\<open>TFS_O_CREAT\<close> is set, an inode is free, the name
  has at most 39 bytes and the directory has room. It fails exactly when there is no such file at
  the end or no free handle; otherwise the handle is one that was not in use, refers to that file
  and starts at its end with \<^verbatim>\<open>TFS_O_APPEND\<close>, at 0 without.
\<close>

theorem tfs_open_refines:
  assumes "fs_inv s" and "\<not> g_library_mutex s" and "small_files s"
    and "is_cstring name" and "name \<noteq> []"
  shows "\<exists>h t. tfs_open (Some (47 # name)) mode s = Ret (h, t) \<and>
     fs_inv t \<and> \<not> g_library_mutex t \<and> small_files t \<and>
     files t = spec_open name mode (can_create name s) (files s) \<and>
     (if open_failed name mode s then h = -1
      else 0 \<le> h \<and> \<not> handle_open s h \<and> handle_open t h \<and>
        root_map t name = Some (of_inumber (handle_entry t h)) \<and>
        of_offset (handle_entry t h) =
          (if has_flag mode TFS_O_APPEND then length (the (files t name)) else 0))"
  by (rule tfs_open_files [OF assms])

lemma tfs_open_refines_witness:
  "\<exists>h t. tfs_open (Some [47, 97]) TFS_O_APPEND demo = Ret (h, t) \<and> files t = Map.empty \<and> h = -1"
  using tfs_open_refines [OF demo_state(1,5,4), of "[97]" TFS_O_APPEND]
  by (auto simp: spec_open_def open_failed_def demo_state)

text \<open>
  C11: \<^verbatim>\<open>tfs_unlink\<close> removes the name from the map of files and leaves every other file as it is; it
  fails exactly when the name is not there, and then changes nothing.
\<close>

theorem tfs_unlink_refines:
  assumes "fs_inv s" and "\<not> g_library_mutex s" and "small_files s"
    and "is_cstring name" and "name \<noteq> []"
  shows "\<exists>t. tfs_unlink (Some (47 # name)) s = Ret (if name \<in> dom (files s) then 0 else -1, t) \<and>
     fs_inv t \<and> \<not> g_library_mutex t \<and> small_files t \<and> files t = (files s)(name := None)"
  by (rule tfs_unlink_files [OF assms])

lemma tfs_unlink_refines_witness:
  "\<exists>t. tfs_unlink (Some [47, 97]) demo1 = Ret (0, t) \<and> files t = Map.empty"
  using tfs_unlink_refines [OF demo1_state(1-3), of "[97]"] by (auto simp: demo1_state)

text \<open>
  \<^verbatim>\<open>tfs_close\<close> gives the handle back once: it succeeds exactly for an open handle, changes no file,
  and closing again fails.
\<close>

theorem tfs_close_once:
  assumes "fs_inv s" and "\<not> g_library_mutex s"
  shows "\<exists>t. tfs_close h s = Ret (if handle_open s h then 0 else -1, t) \<and> fs_inv t \<and>
     \<not> handle_open t h \<and> (\<forall>g. g \<noteq> h \<longrightarrow> handle_open t g = handle_open s g) \<and> files t = files s \<and>
     tfs_close h t = Ret (-1, t)"
proof (cases "handle_open s h")
  case False
  then show ?thesis
    using assms fs_invD(6) [OF assms(1)] by (auto simp: tfs_close_run)
next
  case True
  let ?t = "unlocked (s\<lparr>free_open_file_entries := (free_open_file_entries s)[nat h := FREE]\<rparr>)"
  note tab = fs_invD(6) [OF assms(1)]
  have inv: "fs_inv ?t" using close_inv [OF assms(1)] by simp
  have i: "0 \<le> h" "nat h < length (free_open_file_entries s)"
    using True handle_open_index [OF tab] tables_okD(5,6) [OF tab] by auto
  have "\<not> handle_open ?t h" "\<forall>g. g \<noteq> h \<longrightarrow> handle_open ?t g = handle_open s g"
    using i by (auto simp: handle_open_def valid_file_handle_def nth_list_update eq_nat_nat_iff)
  with inv True tab assms(2) show ?thesis
    using fs_invD(6) [OF inv] by (auto simp: tfs_close_run)
qed

lemma tfs_close_once_witness:
  "\<exists>t. tfs_close 0 demo1 = Ret (0, t) \<and> tfs_close 0 t = Ret (-1, t)"
  using tfs_close_once [OF demo1_state(1,2), of 0] by (auto simp: demo1_state)

section \<open>Writing and reading\<close>

text \<open>
  C9: a write through a handle that stays inside the block overwrites the file's bytes from the
  handle's offset on, moves the offset and leaves every other file alone. It fails exactly when the
  file is empty and no block is free.
\<close>

theorem tfs_write_refines:
  assumes inv: "fs_inv s" and unlocked: "\<not> g_library_mutex s" and small: "small_files s"
    and h: "handle_open s h" and k: "root_map s x = Some (of_inumber (handle_entry s h))"
    and old: "files s x = Some old" and off: "of_offset (handle_entry s h) \<le> length old"
    and len: "0 < len" "len \<le> length buffer"
    and fits: "of_offset (handle_entry s h) + len \<le> block_size (fs_params s)"
  shows "\<exists>n t. tfs_write h buffer len s = Ret (n, t) \<and> fs_inv t \<and> \<not> g_library_mutex t \<and>
     small_files t \<and> handle_open t = handle_open s \<and>
     (if old = [] \<and> taken (free_blocks s) = max_block_count (fs_params s)
      then n = -1 \<and> files t = files s
      else n = int len \<and>
        files t = (files s)(x \<mapsto> overwrite old (of_offset (handle_entry s h)) (take len buffer)) \<and>
        handle_entry t h = (handle_entry s h)\<lparr>of_offset := of_offset (handle_entry s h) + len\<rparr>)"
  by (rule tfs_write_spec [OF assms])

lemma tfs_write_refines_witness:
  "\<exists>t. tfs_write 0 [104, 105] 2 demo1 = Ret (2, t) \<and> files t = [[97] \<mapsto> [104, 105]]"
  using tfs_write_refines [OF demo1_state(1-3,5,6), of "[]" 2 "[104, 105]"]
  by (auto simp: demo1_state(4,7) demo1_fields demo_params_def overwrite_def taken_def)

text \<open>
  C10: a read inside a file returns the requested number of bytes of its contents from the handle's
  offset on, moves the offset and changes no file.
\<close>

theorem tfs_read_refines:
  assumes "fs_inv s" and "\<not> g_library_mutex s" and "small_files s" and "handle_open s h"
    and "root_map s x = Some (of_inumber (handle_entry s h))" and "files s x = Some old"
    and "0 < len" and "of_offset (handle_entry s h) + len \<le> length old"
  shows "\<exists>t. tfs_read h len s =
       Ret ((int len, take len (drop (of_offset (handle_entry s h)) old)), t) \<and>
     fs_inv t \<and> \<not> g_library_mutex t \<and> files t = files s \<and>
     handle_entry t h = (handle_entry s h)\<lparr>of_offset := of_offset (handle_entry s h) + len\<rparr>"
  by (rule tfs_read_spec [OF assms])

text \<open>The file \<^verbatim>\<open>/a\<close> with two bytes, its handle at offset 0.\<close>

definition demo2 :: fs where
  "demo2 = move_to 0 0 (write_to 0 1 [104, 105] demo1)"

lemma demo2_write:
  "target_block 0 demo1 = Some 1"
  "tfs_write 0 [104, 105] 2 demo1 = Ret (2, unlocked (write_to 0 1 [104, 105] demo1))"
proof -
  have "i_size (inode_of demo1 1) = 0"
    by (simp add: demo1_def create_file_def reset_inode_def demo_def started_def demo_params_def
        demo_lists empty_file_def inode_of_def inodes_def)
  then show "target_block 0 demo1 = Some 1"
    by (simp add: target_block_def demo1_fields first_free_Some)
  then show "tfs_write 0 [104, 105] 2 demo1 = Ret (2, unlocked (write_to 0 1 [104, 105] demo1))"
    using tfs_write_file [OF demo1_state(1,2,5,6), of 2 "[104, 105]"]
    by (simp add: demo1_fields demo_params_def)
qed

lemma demo2_state:
  "fs_inv demo2" "\<not> g_library_mutex demo2" "small_files demo2" "files demo2 = [[97] \<mapsto> [104, 105]]"
  "handle_open demo2 0" "root_map demo2 [97] = Some (of_inumber (handle_entry demo2 0))"
  "of_offset (handle_entry demo2 0) = 0" "fs_params demo2 = demo_params"
proof -
  let ?t = "write_to 0 1 [104, 105] demo1"
  note b = demo2_write(1) and run = demo2_write(2)
  have m: "\<not> g_library_mutex ?t"
    using demo1_state(2) by (simp add: write_to_def store_def Let_def take_block_def move_to_def)
  have inv: "fs_inv ?t"
    using tfs_write_inv [OF demo1_state(1,2) _ run] by simp
  note wf = write_to_files [OF demo1_state(1,5) b demo1_state(6,3), of "[]" "[104, 105]"]
  note h = write_to_handle [OF demo1_state(1,5), of 1 "[104, 105]"]
  have "handle_entry demo2 0 = \<lparr>of_inumber = 1, of_offset = 0\<rparr>"
    using h open_handle_facts(5) [OF inv, of 0]
    by (simp add: demo2_def move_to_entry demo1_fields write_to_views demo1_state)
  then show "fs_inv demo2" "\<not> g_library_mutex demo2" "small_files demo2"
    "files demo2 = [[97] \<mapsto> [104, 105]]" "handle_open demo2 0"
    "root_map demo2 [97] = Some (of_inumber (handle_entry demo2 0))"
    "of_offset (handle_entry demo2 0) = 0"
    using inv m wf demo1_state(4-6) write_to_root_map [OF demo1_state(1), of 1 0 "[104, 105]"]
    by (simp_all add: demo2_def move_to_inv write_to_views demo1_fields demo_params_def overwrite_def)
  show "fs_params demo2 = demo_params"
    by (simp add: demo2_def move_to_def write_to_views demo1_fields)
qed

lemma tfs_read_refines_witness:
  "\<exists>t. tfs_read 0 2 demo2 = Ret ((2, [104, 105]), t) \<and> files t = files demo2"
  using tfs_read_refines [OF demo2_state(1-3,5,6), of "[104, 105]" 2]
  by (auto simp: demo2_state(4,7))

text \<open>
  C31: what is written is what is read. A program that opens a file with \<^verbatim>\<open>TFS_O_CREAT | TFS_O_TRUNC\<close>,
  writes at most a block, closes the handle, opens the file again and reads that many bytes gets the
  bytes it wrote; every call after a successful write succeeds.
\<close>

theorem write_then_read:
  assumes inv: "fs_inv s" and m: "\<not> g_library_mutex s" and small: "small_files s"
    and name: "is_cstring x" "x \<noteq> []"
    and opened: "tfs_open (Some (47 # x)) 3 s = Ret (h, s1)" "0 \<le> h"
    and bs: "bs \<noteq> []" "length bs \<le> block_size (fs_params s1)"
    and written: "tfs_write h bs (length bs) s1 = Ret (n, s2)" "n \<noteq> -1"
  shows "\<exists>s3 h' s4 s5. tfs_close h s2 = Ret (0, s3) \<and>
     tfs_open (Some (47 # x)) 0 s3 = Ret (h', s4) \<and> 0 \<le> h' \<and>
     tfs_read h' (length bs) s4 = Ret ((int (length bs), bs), s5)"
proof -
  have mode: "has_flag 3 TFS_O_CREAT" "has_flag 3 TFS_O_TRUNC" "\<not> has_flag 3 TFS_O_APPEND"
    by (simp_all add: has_flag_def TFS_O_CREAT_def TFS_O_TRUNC_def TFS_O_APPEND_def)
  have s1: "fs_inv s1" "\<not> g_library_mutex s1" "small_files s1" "handle_open s1 h"
    "root_map s1 x = Some (of_inumber (handle_entry s1 h))" "of_offset (handle_entry s1 h) = 0"
    "files s1 = spec_open x 3 (can_create x s) (files s)"
    using tfs_open_files [OF inv m small name, of 3] opened mode by (auto split: if_splits)
  have "files s1 x \<noteq> None" using s1(5) by (simp add: files_def)
  then have e: "files s1 x = Some []"
    unfolding s1(7) using mode by (auto simp: spec_open_def split: option.splits if_splits)
  have s2: "fs_inv s2" "\<not> g_library_mutex s2" "small_files s2" "handle_open s2 h" "files s2 x = Some bs"
    using tfs_write_spec [OF s1(1-5) e, of "length bs" bs] written bs s1(4,6)
    by (auto simp: overwrite_def split: if_splits)
  note tab = fs_invD(6) [OF s2(1)]
  let ?s3 = "unlocked (s2\<lparr>free_open_file_entries := (free_open_file_entries s2)[nat h := FREE]\<rparr>)"
  have s3: "tfs_close h s2 = Ret (0, ?s3)" "fs_inv ?s3" "\<not> g_library_mutex ?s3" "small_files ?s3"
    "files ?s3 x = Some bs" "first_free (free_open_file_entries ?s3) \<noteq> None"
    using s2 tab close_inv [OF s2(1)] handle_open_index [OF tab s2(4)] tables_okD(5,6) [OF tab]
    by (auto simp: tfs_close_run first_free_None intro!: bexI [of _ FREE] set_update_memI)
  then have "\<not> open_failed x 0 ?s3" by (auto simp: open_failed_def)
  then obtain h' s4 where s4: "tfs_open (Some (47 # x)) 0 ?s3 = Ret (h', s4)" "0 \<le> h'" "fs_inv s4"
    "\<not> g_library_mutex s4" "small_files s4" "handle_open s4 h'" "files s4 x = Some bs"
    "root_map s4 x = Some (of_inumber (handle_entry s4 h'))" "of_offset (handle_entry s4 h') = 0"
    using tfs_open_files [OF s3(2-4) name, of 0] s3(5) by (auto simp: spec_open_def)
  then show ?thesis
    using tfs_read_spec [OF s4(3-6,8,7), of "length bs"] bs s3(1) by auto
qed

lemma write_then_read_witness:
  "\<exists>s3 h' s4 s5. tfs_close 0 (unlocked (write_to 0 1 [104, 105] demo1)) = Ret (0, s3) \<and>
     tfs_open (Some [47, 97]) 0 s3 = Ret (h', s4) \<and> 0 \<le> h' \<and>
     tfs_read h' 2 s4 = Ret ((2, [104, 105]), s5)"
proof -
  have op: "tfs_open (Some (47 # [97])) 3 demo = Ret (0, demo1)"
    using demo1_run [of 3] by (simp add: has_flag_def TFS_O_CREAT_def)
  have wr: "tfs_write 0 [104, 105] (length [104, 105 :: byte]) demo1
      = Ret (2, unlocked (write_to 0 1 [104, 105] demo1))"
    using demo2_write(2) by (simp add: numeral_2_eq_2)
  have cs: "is_cstring [97]" "[97 :: byte] \<noteq> []" by simp_all
  have fits: "length [104, 105 :: byte] \<le> block_size (fs_params demo1)"
    by (simp add: demo1_fields demo_params_def)
  show ?thesis
    using write_then_read [OF demo_state(1,5,4) cs op _ _ fits wr] by (simp add: numeral_2_eq_2)
qed

text \<open>
  A handle opened with \<^verbatim>\<open>TFS_O_APPEND\<close> appends: a write that fits in the block after the bytes the
  file has makes the contents the old bytes followed by the new ones.
\<close>

theorem append_extends:
  assumes "fs_inv s" and "\<not> g_library_mutex s" and "small_files s"
    and "is_cstring x" and "x \<noteq> []" and "files s x = Some old"
    and "tfs_open (Some (47 # x)) TFS_O_APPEND s = Ret (h, s1)" and "0 \<le> h"
    and "bs \<noteq> []" and "length old + length bs \<le> block_size (fs_params s1)"
    and "tfs_write h bs (length bs) s1 = Ret (n, s2)" and "n \<noteq> -1"
  shows "n = int (length bs) \<and> files s2 = (files s)(x \<mapsto> old @ bs)"
proof -
  have s1: "fs_inv s1" "\<not> g_library_mutex s1" "small_files s1" "handle_open s1 h"
    "root_map s1 x = Some (of_inumber (handle_entry s1 h))"
    "of_offset (handle_entry s1 h) = length old" "files s1 = files s"
    using tfs_open_files [OF assms(1-5), of TFS_O_APPEND] assms(6-8)
    by (auto simp: spec_open_def split: if_splits)
  show ?thesis
    using tfs_write_spec [OF s1(1-5), of old "length bs" bs] assms(6,9-12) s1(6,7)
    by (auto simp: overwrite_def split: if_splits)
qed

lemma append_extends_witness:
  "\<exists>h s1 s2. tfs_open (Some [47, 97]) TFS_O_APPEND demo2 = Ret (h, s1) \<and>
     tfs_write h [33] 1 s1 = Ret (1, s2) \<and> files s2 = [[97] \<mapsto> [104, 105, 33]]"
proof -
  have "first_free (free_open_file_entries demo2) = Some 1"
    by (auto simp: first_free_Some demo2_def move_to_def write_to_def store_def Let_def take_block_def
        demo1_def)
  then have "\<not> open_failed [97] TFS_O_APPEND demo2"
    by (simp add: open_failed_def demo2_state)
  then obtain h s1 where op: "tfs_open (Some (47 # [97])) TFS_O_APPEND demo2 = Ret (h, s1)" "0 \<le> h"
    and s1: "fs_inv s1" "\<not> g_library_mutex s1" "small_files s1" "handle_open s1 h"
      "root_map s1 [97] = Some (of_inumber (handle_entry s1 h))" "files s1 = [[97] \<mapsto> [104, 105]]"
      "of_offset (handle_entry s1 h) = 2"
    using tfs_open_files [OF demo2_state(1-3), of "[97]" TFS_O_APPEND]
    by (auto simp: spec_open_def demo2_state(4) split: if_splits)
  have p: "block_size (fs_params s1) = 128"
    using tfs_open_params [OF demo2_state(1,2) _ _ op(1)] by (simp add: demo2_state(8) demo_params_def)
  obtain n s2 where wr: "tfs_write h [33] (length [33 :: byte]) s1 = Ret (n, s2)" "n \<noteq> -1"
    using tfs_write_spec [OF s1(1-5), of "[104, 105]" 1 "[33]"] s1(6,7) p by auto
  from append_extends [OF demo2_state(1-3) _ _ _ op _ _ wr, of "[104, 105]"] p op wr
  show ?thesis by (auto simp: demo2_state(4))
qed

section \<open>Where the code leaves the contract\<close>

text \<open>
  C32: a write that leaves its block is not shortened. It reports all its bytes as written and
  stores those beyond the block over the first bytes of the file that owns the next block.
\<close>

theorem write_overflows_into_next_file:
  assumes inv: "fs_inv s" and m: "\<not> g_library_mutex s" and h: "handle_open s h"
    and b: "target_block h s = Some b" and y: "root_map s y = Some j" "files s y = Some old"
    and ne: "j \<noteq> of_inumber (handle_entry s h)"
    and next_block: "i_data_block (inode_of s j) = int b + 1"
    and len: "len \<le> length buffer" "of_offset (handle_entry s h) \<le> block_size (fs_params s)"
      "of_offset (handle_entry s h) + len = block_size (fs_params s) + over"
      "0 < over" "over \<le> length old" "over \<le> block_size (fs_params s)"
  shows "\<exists>t. tfs_write h buffer len s = Ret (int len, t) \<and>
     files t y = Some (take over (drop (block_size (fs_params s) - of_offset (handle_entry s h)) buffer)
                       @ drop over old)"
proof -
  let ?off = "of_offset (handle_entry s h)"
  let ?bs = "block_size (fs_params s)"
  let ?t = "write_to h b (take len buffer) s"
  note tab = fs_invD(6) [OF inv] and j = root_map_taken [OF inv y(1)]
    and tb = target_block_facts [OF inv h b]
  have old: "old = content s j" "length old = i_size (inode_of s j)"
    using y by (auto simp: files_def content_def)
  then have "has_data s j" using j len by (simp add: has_data_def)
  then have "Suc b < max_block_count (fs_params s)"
    using taken_block_range(2) [OF inv] next_block by (fastforce simp: valid_block_number_def)
  then have "Suc b * ?bs + over \<le> fs_data_size s"
    using write_in_bounds [OF tab _ len(6)] by blast
  then have fit: "b * ?bs + (?off + len) \<le> fs_data_size s" unfolding len(3) by simp
  then have "c_ssize len = int len"
    using tables_okD(4,12) [OF tab] by simp
  moreover have "0 < len" using len by linarith
  ultimately have run: "tfs_write h buffer len s = Ret (int len, unlocked ?t)"
    using fit b h len(1)
    by (simp add: tfs_write_run [OF inv m len(1)] write_result_def target_block_def Let_def
        write_to_def min_def add.assoc split: if_splits)
  have "content ?t j = take over (drop (?bs - ?off) (take len buffer)) @ drop over old"
  proof (rule nth_equalityI)
    have ino: "inode_of ?t j = inode_of s j"
      using write_to_inode [OF inv h j(1), of b "take len buffer"] ne by simp
    show "length (content ?t j) = length (take over (drop (?bs - ?off) (take len buffer)) @ drop over old)"
      using len old(2) by (simp add: content_def ino)
    fix i assume "i < length (content ?t j)"
    then have i: "i < length old" by (simp add: content_def ino old(2))
    have a: "block_addr ?t (i_data_block (inode_of s j)) = b * ?bs + ?bs"
      using next_block by (simp add: block_addr_def write_to_views nat_add_distrib)
    have e: "len + ?off = ?bs + over" using len(3) by simp
    show "content ?t j ! i = (take over (drop (?bs - ?off) (take len buffer)) @ drop over old) ! i"
      using i len old(2) next_block
      by (auto simp: content_def ino a write_to_views mem_write_def nth_append old(1) block_addr_def
          nat_add_distrib add.assoc e)
  qed
  moreover have "take over (drop (?bs - ?off) (take len buffer)) = take over (drop (?bs - ?off) buffer)"
  proof -
    have "len - (?bs - ?off) = over" using len by linarith
    then show ?thesis by (simp add: drop_take)
  qed
  ultimately show ?thesis
    using run y(1) write_to_root_map [OF inv tb(1)] by (simp add: files_def)
qed

text \<open>A second file \<^verbatim>\<open>/b\<close> of one byte, in the block after that of \<^verbatim>\<open>/a\<close>.\<close>

definition demo3_open :: fs where
  "demo3_open = (create_file 2 1 [98] demo2)\<lparr>free_open_file_entries := [TAKEN, TAKEN],
     open_file_table := [\<lparr>of_inumber = 1, of_offset = 0\<rparr>, \<lparr>of_inumber = 2, of_offset = 0\<rparr>]\<rparr>"

definition demo3 :: fs where
  "demo3 = write_to 1 2 [7] demo3_open"

lemmas demo_defs = demo3_def demo3_open_def demo2_def demo1_def demo_def create_file_def
  reset_inode_def started_def write_to_def store_def Let_def take_block_def move_to_def
  handle_entry_def inode_of_def inodes_def empty_file_def

lemma demo2_fields:
  "freeinode_ts demo2 = [TAKEN, TAKEN, FREE, FREE]" "free_open_file_entries demo2 = [TAKEN, FREE]"
  "open_file_table demo2 = [\<lparr>of_inumber = 1, of_offset = 0\<rparr>, \<lparr>of_inumber = 0, of_offset = 0\<rparr>]"
  "dir_free (fs_data demo2) 0 (nents demo2) = Some 1" "root_map demo2 [98] = None"
proof -
  show "freeinode_ts demo2 = [TAKEN, TAKEN, FREE, FREE]" "free_open_file_entries demo2 = [TAKEN, FREE]"
    "open_file_table demo2 = [\<lparr>of_inumber = 1, of_offset = 0\<rparr>, \<lparr>of_inumber = 0, of_offset = 0\<rparr>]"
    by (simp_all add: demo_defs demo_params_def demo_heap_def demo_lists)
  have n: "nents demo2 = 2"
    by (simp add: nents_def demo2_state(8) demo_params_def max_dir_entries_def sizeof_dir_entry_def)
  have "fs_data demo2 = mem_write (put_entry 0 0 [97] 1 (fs_data demo)) 128 [104, 105]"
    using demo1_fields
    by (simp add: demo2_def write_to_views demo1_fields demo_params_def move_to_def)
      (simp add: demo1_def create_file_def reset_inode_def)
  then have "d_inumber (fs_data demo2) 0 i = (if i = 0 then 1 else -1)" if "i < 2" for i
    using that entries_write_outside(2) [of i demo_params 0 128]
    by (simp add: demo_params_def max_dir_entries_def sizeof_dir_entry_def put_entry_fields)
      (simp add: demo_def started_def init_entries_fields demo_params_def max_dir_entries_def
        sizeof_dir_entry_def)
  then show "dir_free (fs_data demo2) 0 (nents demo2) = Some 1"
    unfolding n by (auto simp: dir_free_def find_Some_iff live_def demo_lists intro!: exI [of _ 1])
  have "files demo2 [98] = None" by (simp add: demo2_state(4))
  then show "root_map demo2 [98] = None" by (simp add: files_def)
qed

lemma demo3_open_state:
  "fs_inv demo3_open" "\<not> g_library_mutex demo3_open" "small_files demo3_open"
  "files demo3_open = [[97] \<mapsto> [104, 105], [98] \<mapsto> []]" "handle_open demo3_open 1"
  "root_map demo3_open [98] = Some 2" "fs_params demo3_open = demo_params"
  "handle_entry demo3_open 1 = \<lparr>of_inumber = 2, of_offset = 0\<rparr>"
proof -
  have k: "first_free (freeinode_ts demo2) = Some 2" "first_free (free_open_file_entries demo2) = Some 1"
    by (auto simp: demo2_fields first_free_Some less_Suc_eq numeral_2_eq_2)
  have "open_result [98] TFS_O_CREAT demo2 = (1, demo3_open)"
    using k demo2_fields
    by (simp add: open_result_def open_new_def open_entry_def create_file_def reset_inode_def)
      (simp add: demo3_open_def create_file_def reset_inode_def demo2_fields)
  then have run: "tfs_open (Some (47 # [98])) TFS_O_CREAT demo2 = Ret (1, demo3_open)"
    using tfs_open_run [OF demo2_state(1,2), of "[98]" TFS_O_CREAT] demo2_state(2)
    by (simp add: demo3_open_def create_file_def reset_inode_def)
  have "can_create [98] demo2" using k demo2_fields by (simp add: can_create_def root_room_def)
  then show "fs_inv demo3_open" "\<not> g_library_mutex demo3_open" "small_files demo3_open"
    "files demo3_open = [[97] \<mapsto> [104, 105], [98] \<mapsto> []]" "handle_open demo3_open 1"
    using tfs_open_files [OF demo2_state(1-3), of "[98]" TFS_O_CREAT] run k
    by (auto simp: spec_open_def open_failed_def demo2_state(4))
  show h: "handle_entry demo3_open 1 = \<lparr>of_inumber = 2, of_offset = 0\<rparr>"
    by (simp add: demo3_open_def handle_entry_def)
  show "root_map demo3_open [98] = Some 2"
    using tfs_open_files [OF demo2_state(1-3), of "[98]" TFS_O_CREAT] run k h
      \<open>can_create [98] demo2\<close>
    by (auto simp: open_failed_def)
  show "fs_params demo3_open = demo_params"
    using tfs_open_params [OF demo2_state(1,2) _ _ run] by (simp add: demo2_state(8))
qed

lemma demo3_state:
  "fs_inv demo3" "\<not> g_library_mutex demo3" "handle_open demo3 0" "target_block 0 demo3 = Some 1"
  "root_map demo3 [98] = Some 2" "files demo3 [98] = Some [7]" "fs_params demo3 = demo_params"
  "i_data_block (inode_of demo3 2) = 2"
  "handle_entry demo3 0 = \<lparr>of_inumber = 1, of_offset = 0\<rparr>"
proof -
  have nodes: "inode_of demo3_open 1 = \<lparr>i_node_type = T_FILE, i_size = 2, i_data_block = 1\<rparr>"
    "inode_of demo3_open 2 = empty_file" "free_blocks demo3_open = [TAKEN, TAKEN, FREE, FREE]"
    by (simp_all add: demo_defs demo_params_def demo_heap_def demo_lists)
  then have b: "target_block 1 demo3_open = Some 2"
    by (auto simp: target_block_def demo3_open_state first_free_Some empty_file_def less_Suc_eq
        numeral_2_eq_2)
  have run: "tfs_write 1 [7] 1 demo3_open = Ret (1, unlocked demo3)"
    using tfs_write_file [OF demo3_open_state(1,2,5), of "[98]" 1 "[7]"] b
    by (simp add: demo3_open_state demo3_def demo_params_def)
  note at = write_to_inode [OF demo3_open_state(1,5), of _ 2 "[7]", folded demo3_def]
  show inv: "fs_inv demo3" using tfs_write_inv [OF demo3_open_state(1,2) _ run] by simp
  show "\<not> g_library_mutex demo3"
    using demo3_open_state(2) by (simp add: demo3_def write_to_def store_def Let_def take_block_def move_to_def)
  show "handle_open demo3 0"
    by (simp add: demo3_def write_to_views)
      (simp add: demo3_open_def handle_open_def valid_file_handle_def demo_params_def
        demo2_state(8) create_file_def reset_inode_def)
  show h: "handle_entry demo3 0 = \<lparr>of_inumber = 1, of_offset = 0\<rparr>"
    by (simp add: demo3_def write_to_def store_def Let_def take_block_def move_to_def
        demo3_open_def handle_entry_def)
  show "target_block 0 demo3 = Some 1" "i_data_block (inode_of demo3 2) = 2"
    using at [of 1] at [of 2] nodes by (simp_all add: target_block_def h demo3_open_state)
  show "root_map demo3 [98] = Some 2"
    using write_to_root_map [OF demo3_open_state(1), of 2 1 "[7]"]
    by (simp add: demo3_def demo3_open_state)
  show "files demo3 [98] = Some [7]"
    using write_to_files [OF demo3_open_state(1,5) b, of "[98]" "[]" "[7]"]
    by (simp add: demo3_def demo3_open_state demo_params_def overwrite_def)
  show "fs_params demo3 = demo_params"
    by (simp add: demo3_def write_to_views demo3_open_state)
qed

lemma write_overflows_into_next_file_witness:
  "\<exists>t. tfs_write 0 (replicate 129 9) 129 demo3 = Ret (129, t) \<and> files t [98] = Some [9]"
  using write_overflows_into_next_file [OF demo3_state(1-6), of 129 "replicate 129 9" 1]
  by (simp add: demo3_state(7-9)) (simp add: demo_params_def)

text \<open>
  Rewinding a handle that is at offset 0 leaves the library mutex locked, so the call returns 0
  and every later call on the file system blocks for ever. From any other offset the handle is moved
  to 0 and the mutex released.
\<close>

theorem rewind_at_start_deadlocks:
  assumes "fs_inv s" and "\<not> g_library_mutex s" and "handle_open s h"
  shows "\<exists>t. tfs_rewind_offset h s = Ret (0, t) \<and> of_offset (handle_entry t h) = 0 \<and>
     files t = files s \<and> g_library_mutex t = (of_offset (handle_entry s h) = 0) \<and>
     (of_offset (handle_entry s h) = 0 \<longrightarrow> (\<forall>c. run_call c t = Deadlock))"
  using assms open_handle_facts(5) [OF assms(1,3)]
  by (simp add: tfs_rewind_offset_run locked_deadlocks move_to_entry)

lemma rewind_at_start_deadlocks_witness:
  "\<exists>t. tfs_rewind_offset 0 demo2 = Ret (0, t) \<and> run_call (Close 0) t = Deadlock"
  using rewind_at_start_deadlocks [OF demo2_state(1,2,5)] demo2_state(7) by blast

text \<open>
  A read is not limited by the file's size. On a file that was never written it ends the process
  with the panic of \<^verbatim>\<open>data_block_get\<close> on block -1; on a file with data it returns the requested count, as
  long as the bytes lie inside the memory of the blocks, whatever the size is.
\<close>

theorem read_ignores_size:
  assumes "fs_inv s" and "\<not> g_library_mutex s" and "handle_open s h" and "0 < len"
  shows "if i_data_block (inode_of s (of_inumber (handle_entry s h))) = -1
     then tfs_read h len s = Panic ''data_block_get: invalid block number''
     else 0 < i_size (inode_of s (of_inumber (handle_entry s h))) \<and>
       block_addr s (i_data_block (inode_of s (of_inumber (handle_entry s h)))) +
         of_offset (handle_entry s h) + len \<le> fs_data_size s \<longrightarrow>
       (\<exists>bytes t. tfs_read h len s = Ret ((int len, bytes), t) \<and> length bytes = len)"
proof -
  note tab = fs_invD(6) [OF assms(1)] and o = open_handle_facts [OF assms(1,3)]
  have "c_ssize len = int len" if "a + len \<le> fs_data_size s" for a
    using that tables_okD(4,12) [OF tab] by simp
  then show ?thesis
    using assms o(3)
    by (auto simp: tfs_read_run Let_def valid_block_number_def file_inode_ok_def)
qed

lemma read_ignores_size_witness:
  "tfs_read 0 5 demo1 = Panic ''data_block_get: invalid block number''"
proof -
  have "i_data_block (inode_of demo1 (of_inumber (handle_entry demo1 0))) = -1"
    by (simp add: demo1_fields) (simp add: demo1_def create_file_def reset_inode_def demo_def
        started_def demo_params_def demo_lists empty_file_def inode_of_def inodes_def)
  then show ?thesis using read_ignores_size [OF demo1_state(1,2,5), of 5] by simp
qed

section \<open>The tables and the root directory\<close>

text \<open>
  \<^verbatim>\<open>data_block_alloc\<close> fails exactly when every block is taken; otherwise it takes the free block
  with the smallest number and no other.
\<close>

theorem data_block_alloc_lowest:
  assumes "tables_ok s" and "data_block_alloc s = Ret (i, t)"
  shows "(i = -1 \<longleftrightarrow> taken (free_blocks s) = length (free_blocks s)) \<and>
     (i \<noteq> -1 \<longrightarrow> 0 \<le> i \<and> nat i < length (free_blocks s) \<and> free_blocks s ! nat i = FREE \<and>
        (\<forall>j < nat i. free_blocks s ! j = TAKEN) \<and> free_blocks t = (free_blocks s)[nat i := TAKEN])"
  using blocks.alloc_full_iff [OF assms] blocks.alloc_fresh [OF assms] by blast

lemma data_block_alloc_lowest_witness:
  "\<exists>t. data_block_alloc demo1 = Ret (1, t) \<and> free_blocks t = [TAKEN, TAKEN, FREE, FREE]"
proof -
  obtain t where t: "data_block_alloc demo1 = Ret (1, t)"
    using data_block_alloc_run [OF fs_invD(6) [OF demo1_state(1)]]
    by (auto simp: demo1_fields first_free_def)
  with data_block_alloc_lowest [OF fs_invD(6) [OF demo1_state(1)] t] show ?thesis
    by (simp add: demo1_fields)
qed

text \<open>
  In a root directory with room, adding a name that is not there and then clearing it gives the
  directory back, and after the addition a search finds the new name and still finds the others.
\<close>

theorem add_then_clear_entry:
  assumes "root_ok s" and "file_name x" and "file_name y" and "root_map s x = None"
    and "unlisted k s" and "root_room s"
  shows "\<exists>s' s''. add_dir_entry ROOT_DIR_INUM x k s = Ret (0, s') \<and>
     find_in_dir ROOT_DIR_INUM y s' =
       Ret (if y = x then k else case root_map s y of None \<Rightarrow> -1 | Some k \<Rightarrow> k, s') \<and>
     clear_dir_entry ROOT_DIR_INUM x s' = Ret (0, s'') \<and> root_ok s'' \<and> root_map s'' = root_map s"
  using root.search_after_insert [OF assms(1-6)] root.remove_undoes_insert [OF assms(1,2,4-6)]
  by fastforce

lemma add_then_clear_entry_witness:
  "\<exists>s' s''. add_dir_entry ROOT_DIR_INUM [98] 3 demo2 = Ret (0, s') \<and>
     find_in_dir ROOT_DIR_INUM [97] s' = Ret (1, s') \<and>
     clear_dir_entry ROOT_DIR_INUM [98] s' = Ret (0, s'') \<and> root_map s'' = root_map demo2"
proof -
  have "\<not> listed demo2 3"
    using fs_invD(2) [OF demo2_state(1)] by (simp add: inv_listed_def inode_taken_def demo2_fields)
  then have "unlisted 3 demo2" by (auto simp: unlisted_def listed_def)
  moreover have "root_map demo2 [97] = Some 1"
    using demo2_state(6) by (simp add: handle_entry_def demo2_fields)
  ultimately show ?thesis
    using add_then_clear_entry [OF fs_invD(5) [OF demo2_state(1)], of "[98]" "[97]" 3]
    by (auto simp: file_name_def root_room_def demo2_fields)
qed

end
