(* ===== verification/Pcq.thy ===== *)
theory Pcq imports C_Prelude begin

text \<open>
  The bounded queue of \<^verbatim>\<open>producer-consumer/producer-consumer.c\<close>: its state with its five mutexes and
  two condition variables, and the code of \<^verbatim>\<open>pcq_enqueue\<close> and \<^verbatim>\<open>pcq_dequeue\<close> as one action per line
  that a thread can be preempted at. \<^verbatim>\<open>Pcq_Threads\<close> interleaves the actions of several threads; here a
  thread runs alone.

  A mutex is the thread that holds it. Locking and unlocking a default mutex that the code has
  initialised and pairs correctly returns 0, and so do the calls on condition variables, so the
  branches that return -1 or NULL are never taken and have no counterpart. \<^verbatim>\<open>pcq_enqueue\<close> copies 8 bytes
  from where its element points to into a local variable that nothing reads: the copy changes nothing,
  but is undefined when these bytes cannot be read.

  A line is one action on a memory that all threads see in the same order. The mutexes give that for
  the buffer, the indices and the writes of the size, each of which has a mutex of its own. The tests of the size
  in the loops hold another mutex than the one under which it is written, which in C is a data race
  (\<^verbatim>\<open>Pcq_Props\<close> has an interleaving); here such a test reads the size before or after the write, as it does
  with the aligned 64-bit accesses of x86-64.
\<close>

section \<open>The queue\<close>

record 'e pc_queue_t =
  pcq_buffer :: "'e list option"
  pcq_capacity :: nat
  pcq_current_size :: nat
  pcq_head :: nat
  pcq_tail :: nat
  pcq_current_size_lock :: "nat option"
  pcq_head_lock :: "nat option"
  pcq_tail_lock :: "nat option"
  pcq_pusher_condvar_lock :: "nat option"
  pcq_popper_condvar_lock :: "nat option"
  pcq_pusher_condvar :: "nat set"
  pcq_popper_condvar :: "nat set"

text \<open>
  \<open>malloc\<close> gives a buffer with whatever elements were there, or fails. A condition variable is the
  set of threads waiting on it.
\<close>

definition pcq_create :: "'e list option \<Rightarrow> nat \<Rightarrow> 'e pc_queue_t \<Rightarrow> int \<times> 'e pc_queue_t" where
  "pcq_create malloc capacity q =
     (let q = q\<lparr>pcq_capacity := capacity, pcq_current_size := 0, pcq_head := 0, pcq_tail := 0,
                pcq_buffer := malloc\<rparr> in
      if malloc = None then (-1, q)
      else (0, q\<lparr>pcq_current_size_lock := None, pcq_head_lock := None, pcq_tail_lock := None,
                 pcq_pusher_condvar_lock := None, pcq_popper_condvar_lock := None,
                 pcq_pusher_condvar := {}, pcq_popper_condvar := {}\<rparr>))"

text \<open>The destroyed mutexes and condition variables are not used again; they keep their value.\<close>

definition pcq_destroy :: "'e pc_queue_t \<Rightarrow> int \<times> 'e pc_queue_t" where
  "pcq_destroy q =
     (if pcq_buffer q = None then (-1, q)
      else (0, q\<lparr>pcq_buffer := None, pcq_capacity := 0, pcq_current_size := 0, pcq_head := 0,
                 pcq_tail := 0\<rparr>))"

section \<open>The code of a thread\<close>

text \<open>The lines a thread can be at, \<open>Idle\<close> between two calls.\<close>

datatype pcq_line =
    Idle
  | EnqLock | EnqTest | EnqWaiting | EnqUnlock | EnqTailLock | EnqStore | EnqTail | EnqSizeLock
  | EnqSize | EnqSizeUnlock | EnqTailUnlock | EnqPopLock | EnqSignal | EnqPopUnlock
  | DeqLock | DeqTest | DeqWaiting | DeqUnlock | DeqHeadLock | DeqLoad | DeqHead | DeqSizeLock
  | DeqSize | DeqSizeUnlock | DeqHeadUnlock | DeqPushLock | DeqSignal | DeqPushUnlock

text \<open>
  A call that adds a pointer \<open>e\<close> to 8 bytes or more that can be read, one that adds a pointer to fewer, and
  one that takes.
\<close>

datatype 'e pcq_call = Enq 'e | Enq_unreadable 'e | Deq

text \<open>
  A thread: the line it is at, the calls it still has to make (the one it is in first), its local
  \<^verbatim>\<open>elem\<close> in \<^verbatim>\<open>pcq_dequeue\<close> and what its finished calls to \<^verbatim>\<open>pcq_dequeue\<close> returned.
\<close>

record 'e thread =
  line :: pcq_line
  todo :: "'e pcq_call list"
  elem :: "'e option"
  returned :: "'e list"

abbreviation goto :: "pcq_line \<Rightarrow> 'e thread \<Rightarrow> 'e thread" where
  "goto l t \<equiv> t\<lparr>line := l\<rparr>"

text \<open>
  One line, executed by thread \<open>i\<close>. \<open>w\<close> is the waiting thread that \<^verbatim>\<open>pthread_cond_signal\<close> wakes, if
  any. A thread in \<^verbatim>\<open>pthread_cond_wait\<close> goes on when it is no longer in the set and the mutex is free.
  The size is a \<^verbatim>\<open>size_t\<close>.
\<close>

fun act_line ::
  "pcq_line \<Rightarrow> nat \<Rightarrow> nat option \<Rightarrow> 'e pc_queue_t \<Rightarrow> 'e thread \<Rightarrow> ('e pc_queue_t \<times> 'e thread) outcome" where
  "act_line Idle i w q t =
     (case todo t of
     [] \<Rightarrow> Blocked
     | Enq _ # _ \<Rightarrow> Ret (q, goto EnqLock t)
     | Enq_unreadable _ # _ \<Rightarrow> Ret (q, goto EnqLock t)
     | Deq # _ \<Rightarrow> Ret (q, goto DeqLock t))"
| "act_line EnqLock i w q t =
     (if pcq_pusher_condvar_lock q = None
     then Ret (q\<lparr>pcq_pusher_condvar_lock := Some i\<rparr>, goto EnqTest t) else Blocked)"
| "act_line EnqTest i w q t =
     (if pcq_current_size q = pcq_capacity q
     then Ret (q\<lparr>pcq_pusher_condvar_lock := None,
       pcq_pusher_condvar := insert i (pcq_pusher_condvar q)\<rparr>, goto EnqWaiting t)
     else Ret (q, goto EnqUnlock t))"
| "act_line EnqWaiting i w q t =
     (if i \<notin> pcq_pusher_condvar q \<and> pcq_pusher_condvar_lock q = None
     then Ret (q\<lparr>pcq_pusher_condvar_lock := Some i\<rparr>, goto EnqTest t) else Blocked)"
| "act_line EnqUnlock i w q t =
     Ret (q\<lparr>pcq_pusher_condvar_lock := None\<rparr>, goto EnqTailLock t)"
| "act_line EnqTailLock i w q t =
     (if pcq_tail_lock q = None
     then Ret (q\<lparr>pcq_tail_lock := Some i\<rparr>, goto EnqStore t) else Blocked)"
| "act_line EnqStore i w q t =
     (case (pcq_buffer q, todo t) of
     (Some buf, Enq e # _) \<Rightarrow>
     if pcq_tail q < length buf
     then Ret (q\<lparr>pcq_buffer := Some (buf[pcq_tail q := e])\<rparr>, goto EnqTail t) else Undef
     | _ \<Rightarrow> Undef)"
| "act_line EnqTail i w q t =
     (if pcq_capacity q = 0 then Undef
     else Ret (q\<lparr>pcq_tail := (pcq_tail q + 1) mod pcq_capacity q\<rparr>, goto EnqSizeLock t))"
| "act_line EnqSizeLock i w q t =
     (if pcq_current_size_lock q = None
     then Ret (q\<lparr>pcq_current_size_lock := Some i\<rparr>, goto EnqSize t) else Blocked)"
| "act_line EnqSize i w q t =
     Ret (q\<lparr>pcq_current_size := (pcq_current_size q + 1) mod 2 ^ 64\<rparr>, goto EnqSizeUnlock t)"
| "act_line EnqSizeUnlock i w q t =
     Ret (q\<lparr>pcq_current_size_lock := None\<rparr>, goto EnqTailUnlock t)"
| "act_line EnqTailUnlock i w q t =
     Ret (q\<lparr>pcq_tail_lock := None\<rparr>, goto EnqPopLock t)"
| "act_line EnqPopLock i w q t =
     (if pcq_popper_condvar_lock q = None
     then Ret (q\<lparr>pcq_popper_condvar_lock := Some i\<rparr>, goto EnqSignal t) else Blocked)"
| "act_line EnqSignal i w q t =
     Ret (q\<lparr>pcq_popper_condvar := pcq_popper_condvar q - set_option w\<rparr>, goto EnqPopUnlock t)"
| "act_line EnqPopUnlock i w q t =
     Ret (q\<lparr>pcq_popper_condvar_lock := None\<rparr>, t\<lparr>line := Idle, todo := tl (todo t)\<rparr>)"
| "act_line DeqLock i w q t =
     (if pcq_popper_condvar_lock q = None
     then Ret (q\<lparr>pcq_popper_condvar_lock := Some i\<rparr>, goto DeqTest t) else Blocked)"
| "act_line DeqTest i w q t =
     (if pcq_current_size q = 0
     then Ret (q\<lparr>pcq_popper_condvar_lock := None,
       pcq_popper_condvar := insert i (pcq_popper_condvar q)\<rparr>, goto DeqWaiting t)
     else Ret (q, goto DeqUnlock t))"
| "act_line DeqWaiting i w q t =
     (if i \<notin> pcq_popper_condvar q \<and> pcq_popper_condvar_lock q = None
     then Ret (q\<lparr>pcq_popper_condvar_lock := Some i\<rparr>, goto DeqTest t) else Blocked)"
| "act_line DeqUnlock i w q t =
     Ret (q\<lparr>pcq_popper_condvar_lock := None\<rparr>, goto DeqHeadLock t)"
| "act_line DeqHeadLock i w q t =
     (if pcq_head_lock q = None
     then Ret (q\<lparr>pcq_head_lock := Some i\<rparr>, goto DeqLoad t) else Blocked)"
| "act_line DeqLoad i w q t =
     (case pcq_buffer q of
     Some buf \<Rightarrow>
     if pcq_head q < length buf
     then Ret (q, t\<lparr>line := DeqHead, elem := Some (buf ! pcq_head q)\<rparr>) else Undef
     | None \<Rightarrow> Undef)"
| "act_line DeqHead i w q t =
     (if pcq_capacity q = 0 then Undef
     else Ret (q\<lparr>pcq_head := (pcq_head q + 1) mod pcq_capacity q\<rparr>, goto DeqSizeLock t))"
| "act_line DeqSizeLock i w q t =
     (if pcq_current_size_lock q = None
     then Ret (q\<lparr>pcq_current_size_lock := Some i\<rparr>, goto DeqSize t) else Blocked)"
| "act_line DeqSize i w q t =
     Ret (q\<lparr>pcq_current_size := (pcq_current_size q + (2 ^ 64 - 1)) mod 2 ^ 64\<rparr>, goto DeqSizeUnlock t)"
| "act_line DeqSizeUnlock i w q t =
     Ret (q\<lparr>pcq_current_size_lock := None\<rparr>, goto DeqHeadUnlock t)"
| "act_line DeqHeadUnlock i w q t =
     Ret (q\<lparr>pcq_head_lock := None\<rparr>, goto DeqPushLock t)"
| "act_line DeqPushLock i w q t =
     (if pcq_pusher_condvar_lock q = None
     then Ret (q\<lparr>pcq_pusher_condvar_lock := Some i\<rparr>, goto DeqSignal t) else Blocked)"
| "act_line DeqSignal i w q t =
     Ret (q\<lparr>pcq_pusher_condvar := pcq_pusher_condvar q - set_option w\<rparr>, goto DeqPushUnlock t)"
| "act_line DeqPushUnlock i w q t =
     Ret (q\<lparr>pcq_pusher_condvar_lock := None\<rparr>,
       t\<lparr>line := Idle, todo := tl (todo t), elem := None, returned := returned t @ [the (elem t)]\<rparr>)"

definition act :: "nat \<Rightarrow> nat option \<Rightarrow> 'e pc_queue_t \<Rightarrow> 'e thread \<Rightarrow> ('e pc_queue_t \<times> 'e thread) outcome" where
  "act i w q t = act_line (line t) i w q t"

text \<open>The thread on its own until it is between two calls again, with nobody waiting.\<close>

fun solo :: "nat \<Rightarrow> nat \<Rightarrow> 'e pc_queue_t \<Rightarrow> 'e thread \<Rightarrow> ('e pc_queue_t \<times> 'e thread) outcome" where
  "solo 0 i q t = Blocked"
| "solo (Suc n) i q t = (case act i None q t of
     Ret (q', t') \<Rightarrow> if line t' = Idle then Ret (q', t') else solo n i q' t'
   | Panic e \<Rightarrow> Panic e | Undef \<Rightarrow> Undef | Deadlock \<Rightarrow> Deadlock | Blocked \<Rightarrow> Blocked | Exit c \<Rightarrow> Exit c)"

text \<open>\<^verbatim>\<open>pcq_enqueue\<close> with either kind of pointer, and with one that can be read.\<close>

definition pcq_enqueue_call :: "'e pcq_call \<Rightarrow> 'e pc_queue_t \<Rightarrow> (int \<times> 'e pc_queue_t) outcome" where
  "pcq_enqueue_call call q = (case solo 15 0 q \<lparr>line = Idle, todo = [call], elem = None, returned = []\<rparr> of
     Ret (q', t) \<Rightarrow> Ret (0, q')
   | Panic e \<Rightarrow> Panic e | Undef \<Rightarrow> Undef | Deadlock \<Rightarrow> Deadlock | Blocked \<Rightarrow> Blocked | Exit c \<Rightarrow> Exit c)"

definition pcq_enqueue :: "'e \<Rightarrow> 'e pc_queue_t \<Rightarrow> (int \<times> 'e pc_queue_t) outcome" where
  "pcq_enqueue e = pcq_enqueue_call (Enq e)"

definition pcq_dequeue :: "'e pc_queue_t \<Rightarrow> ('e \<times> 'e pc_queue_t) outcome" where
  "pcq_dequeue q = (case solo 15 0 q \<lparr>line = Idle, todo = [Deq], elem = None, returned = []\<rparr> of
     Ret (q', t) \<Rightarrow> Ret (hd (returned t), q')
   | Panic e \<Rightarrow> Panic e | Undef \<Rightarrow> Undef | Deadlock \<Rightarrow> Deadlock | Blocked \<Rightarrow> Blocked | Exit c \<Rightarrow> Exit c)"

section \<open>The contract of a bounded queue\<close>

text \<open>
  What a client of the queue needs: adding appends to the contents while there is room, taking
  removes the first element while there is one, and otherwise the caller sleeps.
\<close>

locale bounded_queue =
  fixes add :: "'e \<Rightarrow> 's \<Rightarrow> (int \<times> 's) outcome"
    and take_out :: "'s \<Rightarrow> ('e \<times> 's) outcome"
    and contents :: "'s \<Rightarrow> 'e list"
    and room :: "'s \<Rightarrow> nat"
    and ok :: "'s \<Rightarrow> bool"
  assumes add_room: "ok s \<Longrightarrow> 0 < room s \<Longrightarrow>
      \<exists>s'. add x s = Ret (0, s') \<and> ok s' \<and> contents s' = contents s @ [x] \<and> room s' = room s - 1"
    and add_full: "ok s \<Longrightarrow> room s = 0 \<Longrightarrow> add x s = Blocked"
    and take_some: "ok s \<Longrightarrow> contents s = x # xs \<Longrightarrow>
      \<exists>s'. take_out s = Ret (x, s') \<and> ok s' \<and> contents s' = xs \<and> room s' = room s + 1"
    and take_none: "ok s \<Longrightarrow> contents s = [] \<Longrightarrow> take_out s = Blocked"
begin

fun add_all :: "'e list \<Rightarrow> 's \<Rightarrow> 's outcome" where
  "add_all [] s = Ret s"
| "add_all (x # xs) s = (case add x s of Ret (_, s') \<Rightarrow> add_all xs s' | _ \<Rightarrow> Blocked)"

fun take_all :: "nat \<Rightarrow> 's \<Rightarrow> ('e list \<times> 's) outcome" where
  "take_all 0 s = Ret ([], s)"
| "take_all (Suc n) s = (case take_out s of
     Ret (x, s') \<Rightarrow> (case take_all n s' of Ret (xs, s'') \<Rightarrow> Ret (x # xs, s'') | _ \<Rightarrow> Blocked)
   | _ \<Rightarrow> Blocked)"

lemma add_all_contents:
  "ok s \<Longrightarrow> length xs \<le> room s \<Longrightarrow>
   \<exists>s'. add_all xs s = Ret s' \<and> ok s' \<and> contents s' = contents s @ xs \<and> room s' = room s - length xs"
proof (induction xs arbitrary: s)
  case (Cons x xs)
  then obtain t where t: "add x s = Ret (0, t)" "ok t" "contents t = contents s @ [x]"
    "room t = room s - 1"
    using add_room [of s x] by auto
  with Cons.IH [of t] Cons.prems show ?case by auto
qed simp

lemma take_all_contents:
  "ok s \<Longrightarrow> n \<le> length (contents s) \<Longrightarrow>
   \<exists>s'. take_all n s = Ret (take n (contents s), s') \<and> ok s' \<and> contents s' = drop n (contents s)"
proof (induction n arbitrary: s)
  case (Suc n)
  then obtain x xs where c: "contents s = x # xs" by (cases "contents s") auto
  obtain t where t: "take_out s = Ret (x, t)" "ok t" "contents t = xs"
    using take_some [OF Suc.prems(1) c] by blast
  with Suc.IH [of t] Suc.prems(2) c show ?case by auto
qed simp

lemma first_in_first_out:
  assumes "ok s" and "contents s = []" and "length xs \<le> room s"
  shows "\<exists>s' s''. add_all xs s = Ret s' \<and> take_all (length xs) s' = Ret (xs, s'') \<and> ok s'' \<and>
     contents s'' = []"
proof -
  obtain s' where s': "add_all xs s = Ret s'" "ok s'" "contents s' = xs"
    using add_all_contents [OF assms(1,3)] assms(2) by auto
  with take_all_contents [OF s'(2), of "length xs"] show ?thesis by auto
qed

end

section \<open>The queue keeps the contract\<close>

text \<open>A queue no thread is working on, with its indices in step.\<close>

definition quiet :: "'e pc_queue_t \<Rightarrow> bool" where
  "quiet q \<longleftrightarrow>
     (\<exists>buf. pcq_buffer q = Some buf \<and> length buf = pcq_capacity q) \<and>
     0 < pcq_capacity q \<and> pcq_capacity q < 2 ^ 64 \<and>
     pcq_head q < pcq_capacity q \<and> pcq_current_size q \<le> pcq_capacity q \<and>
     pcq_tail q = (pcq_head q + pcq_current_size q) mod pcq_capacity q \<and>
     pcq_current_size_lock q = None \<and> pcq_head_lock q = None \<and> pcq_tail_lock q = None \<and>
     pcq_pusher_condvar_lock q = None \<and> pcq_popper_condvar_lock q = None \<and>
     pcq_pusher_condvar q = {} \<and> pcq_popper_condvar q = {}"

definition queued :: "'e pc_queue_t \<Rightarrow> 'e list" where
  "queued q = map (\<lambda>k. the (pcq_buffer q) ! ((pcq_head q + k) mod pcq_capacity q))
     [0..<pcq_current_size q]"

definition space :: "'e pc_queue_t \<Rightarrow> nat" where
  "space q = pcq_capacity q - pcq_current_size q"

lemma size_dec:
  assumes "0 < n" and "n < 2 ^ 64"
  shows "(n + (2 ^ 64 - 1)) mod 2 ^ 64 = (n - 1 :: nat)"
proof -
  have "n + (2 ^ 64 - 1) = n - 1 + 2 ^ 64" using assms(1) by simp
  then have "(n + (2 ^ 64 - 1)) mod 2 ^ 64 = (n - 1) mod 2 ^ 64" by (metis mod_add_self2)
  then show ?thesis using assms(2) by simp
qed

lemma solo_15: "solo 15 i q t = solo (Suc (Suc (Suc (Suc (Suc (Suc (Suc (Suc (Suc (Suc (Suc (Suc
    (Suc (Suc (Suc 0))))))))))))))) i q t"
  by (simp add: eval_nat_numeral del: solo.simps)

lemma pcq_enqueue_run:
  assumes "quiet q"
  shows "pcq_enqueue e q =
     (if space q = 0 then Blocked
      else Ret (0, q\<lparr>pcq_buffer := Some ((the (pcq_buffer q))[pcq_tail q := e]),
              pcq_tail := (pcq_tail q + 1) mod pcq_capacity q,
              pcq_current_size := pcq_current_size q + 1\<rparr>))"
proof -
  from assms obtain buf where "pcq_buffer q = Some buf" "length buf = pcq_capacity q"
    "0 < pcq_capacity q" "pcq_tail q < pcq_capacity q"
    by (auto simp: quiet_def)
  with assms show ?thesis
    by (auto simp: pcq_enqueue_def pcq_enqueue_call_def solo_15 quiet_def act_def space_def)
qed

text \<open>A pointer that cannot be read makes the call undefined once there is room.\<close>

lemma pcq_enqueue_unreadable:
  assumes "quiet q"
  shows "pcq_enqueue_call (Enq_unreadable e) q = (if space q = 0 then Blocked else Undef)"
  using assms by (auto simp: pcq_enqueue_call_def solo_15 quiet_def act_def space_def)

lemma pcq_dequeue_run:
  assumes "quiet q"
  shows "pcq_dequeue q =
     (if pcq_current_size q = 0 then Blocked
      else Ret (the (pcq_buffer q) ! pcq_head q,
             q\<lparr>pcq_head := (pcq_head q + 1) mod pcq_capacity q,
               pcq_current_size := pcq_current_size q - 1\<rparr>))"
proof -
  from assms obtain buf where "pcq_buffer q = Some buf" "length buf = pcq_capacity q"
    "0 < pcq_capacity q"
    by (auto simp: quiet_def)
  moreover have "(pcq_current_size q + (2 ^ 64 - 1)) mod 2 ^ 64 = pcq_current_size q - 1"
    if "pcq_current_size q \<noteq> 0"
    using that assms by (intro size_dec) (auto simp: quiet_def)
  ultimately show ?thesis
    using assms by (auto simp: pcq_dequeue_def solo_15 quiet_def act_def)
qed

lemma slot_index:
  assumes "j < cap" and "k < cap" and "(head + j) mod cap = (head + k) mod cap"
  shows "j = (k::nat)"
proof (rule ccontr)
  assume "j \<noteq> k"
  moreover have "False" if "j < k" "k < cap" "(head + j) mod cap = (head + k) mod cap" for j k
  proof -
    have "cap dvd (head + k) - (head + j)"
      using that mod_eq_dvd_iff_nat [of "head + j" "head + k" cap] by simp
    then show False using that(1,2) by (auto dest: dvd_imp_le)
  qed
  ultimately show False using assms by (metis nat_neq_iff)
qed

interpretation pcq: bounded_queue pcq_enqueue pcq_dequeue queued space quiet
proof unfold_locales
  fix q :: "'e pc_queue_t" and x :: 'e and xs
  assume q: "quiet q"
  then obtain buf where buf: "pcq_buffer q = Some buf" "length buf = pcq_capacity q"
    "0 < pcq_capacity q" by (auto simp: quiet_def)
  show "space q = 0 \<Longrightarrow> pcq_enqueue x q = Blocked" using q by (simp add: pcq_enqueue_run)
  show "queued q = [] \<Longrightarrow> pcq_dequeue q = Blocked" using q by (simp add: pcq_dequeue_run queued_def)
  show "\<exists>q'. pcq_enqueue x q = Ret (0, q') \<and> quiet q' \<and> queued q' = queued q @ [x] \<and>
      space q' = space q - 1" if "0 < space q"
  proof -
    let ?q = "q\<lparr>pcq_buffer := Some (buf[pcq_tail q := x]),
       pcq_tail := (pcq_tail q + 1) mod pcq_capacity q, pcq_current_size := pcq_current_size q + 1\<rparr>"
    have run: "pcq_enqueue x q = Ret (0, ?q)" using q that buf by (simp add: pcq_enqueue_run)
    have "quiet ?q" using q that buf by (auto simp: quiet_def space_def mod_simps)
    moreover have "buf[pcq_tail q := x] ! ((pcq_head q + k) mod pcq_capacity q)
        = (if k = pcq_current_size q then x else buf ! ((pcq_head q + k) mod pcq_capacity q))"
      if "k \<le> pcq_current_size q" for k
      using q \<open>0 < space q\<close> that buf slot_index [of k "pcq_capacity q" "pcq_current_size q" "pcq_head q"]
      by (auto simp: quiet_def space_def nth_list_update)
    then have "queued ?q = queued q @ [x]"
      using buf by (auto simp: queued_def)
    ultimately show ?thesis using run by (auto simp: space_def)
  qed
  show "\<exists>q'. pcq_dequeue q = Ret (x, q') \<and> quiet q' \<and> queued q' = xs \<and> space q' = space q + 1"
    if "queued q = x # xs"
  proof -
    let ?q = "q\<lparr>pcq_head := (pcq_head q + 1) mod pcq_capacity q,
       pcq_current_size := pcq_current_size q - 1\<rparr>"
    have n: "0 < pcq_current_size q" using that by (auto simp: queued_def intro!: gr0I)
    then have up: "[0..<pcq_current_size q] = 0 # map Suc [0..<pcq_current_size q - 1]"
      by (simp add: map_Suc_upt upt_conv_Cons)
    have hd: "x = buf ! pcq_head q" and tl: "queued ?q = xs"
      using that q buf unfolding queued_def up
      by (auto simp: quiet_def o_def mod_simps add.commute add.left_commute)
    have "(Suc (pcq_head q) mod pcq_capacity q + (pcq_current_size q - 1)) mod pcq_capacity q
        = (pcq_head q + pcq_current_size q) mod pcq_capacity q"
      using n by (cases "pcq_current_size q") (simp_all add: mod_simps)
    then have "quiet ?q"
      using q n buf by (auto simp: quiet_def)
    moreover have "space ?q = space q + 1" using q n by (simp add: quiet_def space_def Suc_diff_le)
    ultimately show ?thesis using q n hd tl buf by (auto simp: pcq_dequeue_run)
  qed
qed

end
