(* ===== verification/Pcq_Threads.thy ===== *)
theory Pcq_Threads imports Pcq begin

text \<open>
  Threads sharing one queue, interleaved at the lines of \<^verbatim>\<open>Pcq\<close>. First what holds for any number of
  threads: every lock protects its section, and locks alone never stop all threads. Then the case
  of one thread that adds and one that takes out, where the queue is first-in first-out, never over-
  or underflows and loses no wake-up.
\<close>

section \<open>Configurations and steps\<close>

record 'e cfg =
  queue :: "'e pc_queue_t"
  threads :: "nat \<Rightarrow> 'e thread"

text \<open>\<^verbatim>\<open>pthread_cond_signal\<close> wakes a waiting thread if there is one.\<close>

definition may_wake :: "'e pc_queue_t \<Rightarrow> pcq_line \<Rightarrow> nat option \<Rightarrow> bool" where
  "may_wake q l w \<longleftrightarrow>
     (if l = EnqSignal then if w = None then pcq_popper_condvar q = {} else the w \<in> pcq_popper_condvar q
      else if l = DeqSignal
      then if w = None then pcq_pusher_condvar q = {} else the w \<in> pcq_pusher_condvar q
      else w = None)"

text \<open>A waiting thread may also wake up without a signal.\<close>

inductive step :: "'e cfg \<Rightarrow> nat \<Rightarrow> 'e cfg \<Rightarrow> bool" where
  line: "act i w (queue c) (threads c i) = Ret (q', t') \<Longrightarrow> may_wake (queue c) (line (threads c i)) w \<Longrightarrow>
    step c i (c\<lparr>queue := q', threads := (threads c)(i := t')\<rparr>)"
| spurious_pusher: "i \<in> pcq_pusher_condvar (queue c) \<Longrightarrow>
    step c i (c\<lparr>queue := (queue c)\<lparr>pcq_pusher_condvar := pcq_pusher_condvar (queue c) - {i}\<rparr>\<rparr>)"
| spurious_popper: "i \<in> pcq_popper_condvar (queue c) \<Longrightarrow>
    step c i (c\<lparr>queue := (queue c)\<lparr>pcq_popper_condvar := pcq_popper_condvar (queue c) - {i}\<rparr>\<rparr>)"

inductive reach :: "'e cfg \<Rightarrow> 'e cfg \<Rightarrow> bool" for c0 where
  start: "reach c0 c0"
| next_step: "reach c0 c \<Longrightarrow> step c i c' \<Longrightarrow> reach c0 c'"

inductive_cases stepE: "step c i c'"

definition new_thread :: "'e pcq_call list \<Rightarrow> 'e thread" where
  "new_thread calls = \<lparr>line = Idle, todo = calls, elem = None, returned = []\<rparr>"

text \<open>A queue as \<^verbatim>\<open>pcq_create\<close> leaves it, and threads that are about to make the given calls.\<close>

definition initial :: "'e list \<Rightarrow> 'e pc_queue_t \<Rightarrow> (nat \<Rightarrow> 'e pcq_call list) \<Rightarrow> 'e cfg" where
  "initial buf q0 calls = \<lparr>queue = snd (pcq_create (Some buf) (length buf) q0),
     threads = (\<lambda>i. new_thread (calls i))\<rparr>"

section \<open>Locks\<close>

datatype lock = Pusher | Popper | Head | Tail | Size

fun lock_of :: "'e pc_queue_t \<Rightarrow> lock \<Rightarrow> nat option" where
  "lock_of q Pusher = pcq_pusher_condvar_lock q"
| "lock_of q Popper = pcq_popper_condvar_lock q"
| "lock_of q Head = pcq_head_lock q"
| "lock_of q Tail = pcq_tail_lock q"
| "lock_of q Size = pcq_current_size_lock q"

text \<open>The locks a thread holds at a line.\<close>

fun holds :: "pcq_line \<Rightarrow> lock set" where
  "holds EnqTest = {Pusher}" | "holds EnqUnlock = {Pusher}"
| "holds EnqStore = {Tail}" | "holds EnqTail = {Tail}" | "holds EnqSizeLock = {Tail}"
| "holds EnqSize = {Tail, Size}" | "holds EnqSizeUnlock = {Tail, Size}" | "holds EnqTailUnlock = {Tail}"
| "holds EnqSignal = {Popper}" | "holds EnqPopUnlock = {Popper}"
| "holds DeqTest = {Popper}" | "holds DeqUnlock = {Popper}"
| "holds DeqLoad = {Head}" | "holds DeqHead = {Head}" | "holds DeqSizeLock = {Head}"
| "holds DeqSize = {Head, Size}" | "holds DeqSizeUnlock = {Head, Size}" | "holds DeqHeadUnlock = {Head}"
| "holds DeqSignal = {Pusher}" | "holds DeqPushUnlock = {Pusher}"
| "holds _ = {}"

definition locks_ok :: "'e cfg \<Rightarrow> bool" where
  "locks_ok c \<longleftrightarrow> (\<forall>l i. lock_of (queue c) l = Some i \<longleftrightarrow> l \<in> holds (line (threads c i)))"

lemma lock_of_update [simp]:
  "lock_of (q\<lparr>pcq_pusher_condvar_lock := x\<rparr>) = (lock_of q)(Pusher := x)"
  "lock_of (q\<lparr>pcq_popper_condvar_lock := x\<rparr>) = (lock_of q)(Popper := x)"
  "lock_of (q\<lparr>pcq_head_lock := x\<rparr>) = (lock_of q)(Head := x)"
  "lock_of (q\<lparr>pcq_tail_lock := x\<rparr>) = (lock_of q)(Tail := x)"
  "lock_of (q\<lparr>pcq_current_size_lock := x\<rparr>) = (lock_of q)(Size := x)"
  "lock_of (q\<lparr>pcq_buffer := b\<rparr>) = lock_of q" "lock_of (q\<lparr>pcq_head := n\<rparr>) = lock_of q"
  "lock_of (q\<lparr>pcq_tail := n\<rparr>) = lock_of q" "lock_of (q\<lparr>pcq_current_size := n\<rparr>) = lock_of q"
  "lock_of (q\<lparr>pcq_pusher_condvar := W\<rparr>) = lock_of q"
  "lock_of (q\<lparr>pcq_popper_condvar := W\<rparr>) = lock_of q"
proof -
  have l: "P Pusher \<Longrightarrow> P Popper \<Longrightarrow> P Head \<Longrightarrow> P Tail \<Longrightarrow> P Size \<Longrightarrow> P l" for P l
    by (cases l) simp_all
  show "lock_of (q\<lparr>pcq_pusher_condvar_lock := x\<rparr>) = (lock_of q)(Pusher := x)"
    "lock_of (q\<lparr>pcq_popper_condvar_lock := x\<rparr>) = (lock_of q)(Popper := x)"
    "lock_of (q\<lparr>pcq_head_lock := x\<rparr>) = (lock_of q)(Head := x)"
    "lock_of (q\<lparr>pcq_tail_lock := x\<rparr>) = (lock_of q)(Tail := x)"
    "lock_of (q\<lparr>pcq_current_size_lock := x\<rparr>) = (lock_of q)(Size := x)"
    "lock_of (q\<lparr>pcq_buffer := b\<rparr>) = lock_of q" "lock_of (q\<lparr>pcq_head := n\<rparr>) = lock_of q"
    "lock_of (q\<lparr>pcq_tail := n\<rparr>) = lock_of q" "lock_of (q\<lparr>pcq_current_size := n\<rparr>) = lock_of q"
    "lock_of (q\<lparr>pcq_pusher_condvar := W\<rparr>) = lock_of q"
    "lock_of (q\<lparr>pcq_popper_condvar := W\<rparr>) = lock_of q"
    by (rule ext, rule l; simp)+
qed

text \<open>When a line goes through, and when it blocks.\<close>

lemma act_line_ifs:
  "(if c then Ret x else Blocked) = Ret y \<longleftrightarrow> c \<and> x = y"
  "(if c then Ret x else Undef) = Ret y \<longleftrightarrow> c \<and> x = y"
  "(if c then Undef else Ret x) = Ret y \<longleftrightarrow> \<not> c \<and> x = y"
  "(if c then Ret x else Ret x') = Ret y \<longleftrightarrow> c \<and> x = y \<or> \<not> c \<and> x' = y"
  "(case cs of [] \<Rightarrow> Blocked | Enq e # _ \<Rightarrow> Ret x | Enq_unreadable e # _ \<Rightarrow> Ret x | Deq # _ \<Rightarrow> Ret x') = Ret y \<longleftrightarrow>
     (\<exists>e cs'. cs = Enq e # cs' \<and> x = y) \<or> (\<exists>e cs'. cs = Enq_unreadable e # cs' \<and> x = y) \<or>
     (\<exists>cs'. cs = Deq # cs' \<and> x' = y)"
  "(case (b, cs) of (Some buf, Enq e # _) \<Rightarrow> f buf e | _ \<Rightarrow> Undef) = Ret y \<longleftrightarrow>
     (\<exists>buf e cs'. b = Some buf \<and> cs = Enq e # cs' \<and> f buf e = Ret y)"
  "(case b of Some buf \<Rightarrow> g buf | None \<Rightarrow> Undef) = Ret y \<longleftrightarrow> (\<exists>buf. b = Some buf \<and> g buf = Ret y)"
  by (auto split: option.splits list.splits pcq_call.splits)

lemmas act_rets = act_line.simps act_line_ifs outcome.inject prod.inject

lemma act_line_blocks:
  "(if c then Ret x else Blocked) = Blocked \<longleftrightarrow> \<not> c"
  "(if c then Ret x else Undef) \<noteq> Blocked" "(if c then Undef else Ret x) \<noteq> Blocked"
  "(if c then Ret x else Ret y) \<noteq> Blocked"
  by auto

text \<open>A line acquires only a free lock, and nothing but that and releasing changes the locks.\<close>

lemma act_locks:
  assumes "act i w q t = Ret (q', t')"
  shows "(\<forall>l\<in>holds (line t') - holds (line t). lock_of q l = None) \<and>
     lock_of q' = (\<lambda>l. if l \<in> holds (line t') - holds (line t) then Some i
                       else if l \<in> holds (line t) - holds (line t') then None else lock_of q l)"
  using assms unfolding act_def
  by (cases "line t", simp_all only: act_rets, safe, simp_all add: fun_eq_iff)

lemma locks_ok_step:
  assumes "locks_ok c" and "step c i c'"
  shows "locks_ok c'"
  using assms(2)
proof cases
  case (line w q' t')
  note a = act_locks [OF line(2)]
  have h: "lock_of (queue c) l = Some k \<longleftrightarrow> l \<in> holds (line (threads c k))" for l k
    using assms(1) by (simp add: locks_ok_def)
  have "lock_of q' l = Some j \<longleftrightarrow> l \<in> holds (line (((threads c)(i := t')) j))" for l j
  proof -
    have new: "lock_of (queue c) l = None" if "l \<in> holds (line t')" "l \<notin> holds (line (threads c i))"
      using a that by blast
    have q': "lock_of q' l = (if l \<in> holds (line t') - holds (line (threads c i)) then Some i
        else if l \<in> holds (line (threads c i)) - holds (line t') then None else lock_of (queue c) l)"
      using a by simp
    show ?thesis
      using new h [of l i] h [of l j] unfolding q'
      by (cases "l \<in> holds (line t')"; cases "l \<in> holds (line (threads c i))"; cases "j = i"; simp)
  qed
  then show ?thesis by (simp add: locks_ok_def line)
qed (use assms(1) in \<open>simp_all add: locks_ok_def\<close>)

lemma locks_ok_initial: "locks_ok (initial buf q0 calls)"
proof -
  have "lock_of (queue (initial buf q0 calls)) l = None" for l
    by (cases l) (simp_all add: initial_def pcq_create_def Let_def)
  then show ?thesis by (simp add: locks_ok_def) (simp add: initial_def new_thread_def)
qed

lemma locks_ok_reach: "reach (initial buf q0 calls) c \<Longrightarrow> locks_ok c"
  by (induction rule: reach.induct) (auto intro: locks_ok_initial locks_ok_step)

section \<open>Locks never stop everybody\<close>

text \<open>
  A thread that is stopped is idle, waits for a lock another thread holds, or waits for a signal.
\<close>

definition unsent :: "nat \<Rightarrow> 'e pc_queue_t \<Rightarrow> 'e thread \<Rightarrow> bool" where
  "unsent i q t \<longleftrightarrow> line t = EnqWaiting \<and> i \<in> pcq_pusher_condvar q \<or>
     line t = DeqWaiting \<and> i \<in> pcq_popper_condvar q"

fun wanted :: "pcq_line \<Rightarrow> lock option" where
  "wanted EnqLock = Some Pusher"
| "wanted EnqWaiting = Some Pusher"
| "wanted EnqTailLock = Some Tail"
| "wanted EnqSizeLock = Some Size"
| "wanted EnqPopLock = Some Popper"
| "wanted DeqLock = Some Popper"
| "wanted DeqWaiting = Some Popper"
| "wanted DeqHeadLock = Some Head"
| "wanted DeqSizeLock = Some Size"
| "wanted DeqPushLock = Some Pusher"
| "wanted _ = None"

lemma act_blocked:
  assumes "act i w q t = Blocked"
  shows "line t = Idle \<and> todo t = [] \<or> unsent i q t \<or>
     (\<exists>l. wanted (line t) = Some l \<and> lock_of q l \<noteq> None)"
  using assms unfolding act_def
  by (cases "line t"; simp only: act_line.simps act_line_blocks;
      simp add: unsent_def split: list.splits pcq_call.splits option.splits if_splits)

text \<open>A thread holds no lock while it wants one, except that it wants the size lock inside a section.\<close>

lemma wanted_outside: "l \<in> holds (line t) \<Longrightarrow> wanted (line t) = Some l' \<Longrightarrow> l' = Size \<and> l \<noteq> Size"
  by (cases "line t") auto

lemma lock_never_stuck:
  assumes "locks_ok c" and "lock_of (queue c) l \<noteq> None"
  shows "\<exists>i. \<forall>w. act i w (queue c) (threads c i) \<noteq> Blocked"
proof -
  have free_to_run: "act j w (queue c) (threads c j) \<noteq> Blocked"
    if "m \<in> holds (line (threads c j))" "m = Size \<or> lock_of (queue c) Size = None" for j w m
  proof
    assume "act j w (queue c) (threads c j) = Blocked"
    then consider "line (threads c j) = Idle" | "unsent j (queue c) (threads c j)"
      | k where "wanted (line (threads c j)) = Some k" "lock_of (queue c) k \<noteq> None"
      using act_blocked by blast
    then show False
    proof cases
      case 3
      with wanted_outside [OF that(1) 3(1)] that(2) show False by auto
    qed (use that(1) in \<open>auto simp: unsent_def\<close>)
  qed
  obtain i where i: "l \<in> holds (line (threads c i))"
    using assms unfolding locks_ok_def by blast
  show ?thesis
  proof (cases "lock_of (queue c) Size")
    case None
    with free_to_run [OF i] show ?thesis by blast
  next
    case (Some j)
    then have "Size \<in> holds (line (threads c j))" using assms(1) unfolding locks_ok_def by blast
    with free_to_run [of Size j] show ?thesis by blast
  qed
qed

section \<open>One thread that adds, one that takes out\<close>

text \<open>
  Thread 0 adds the elements \<open>xs\<close> one by one, thread 1 takes out \<open>m\<close> elements. The invariant counts
  how far each has got: \<open>past (counted l)\<close> is 1 when line \<open>l\<close> comes after the one that counts the
  element in the size.
\<close>

fun enq_line :: "pcq_line \<Rightarrow> bool" where
  "enq_line Idle = True" | "enq_line EnqLock = True" | "enq_line EnqTest = True"
| "enq_line EnqWaiting = True" | "enq_line EnqUnlock = True" | "enq_line EnqTailLock = True"
| "enq_line EnqStore = True" | "enq_line EnqTail = True" | "enq_line EnqSizeLock = True"
| "enq_line EnqSize = True" | "enq_line EnqSizeUnlock = True" | "enq_line EnqTailUnlock = True"
| "enq_line EnqPopLock = True" | "enq_line EnqSignal = True" | "enq_line EnqPopUnlock = True"
| "enq_line _ = False"

fun deq_line :: "pcq_line \<Rightarrow> bool" where
  "deq_line Idle = True" | "deq_line DeqLock = True" | "deq_line DeqTest = True"
| "deq_line DeqWaiting = True" | "deq_line DeqUnlock = True" | "deq_line DeqHeadLock = True"
| "deq_line DeqLoad = True" | "deq_line DeqHead = True" | "deq_line DeqSizeLock = True"
| "deq_line DeqSize = True" | "deq_line DeqSizeUnlock = True" | "deq_line DeqHeadUnlock = True"
| "deq_line DeqPushLock = True" | "deq_line DeqSignal = True" | "deq_line DeqPushUnlock = True"
| "deq_line _ = False"

fun counted :: "pcq_line \<Rightarrow> bool" where
  "counted EnqSizeUnlock = True" | "counted EnqTailUnlock = True" | "counted EnqPopLock = True"
| "counted EnqSignal = True" | "counted EnqPopUnlock = True" | "counted DeqSizeUnlock = True"
| "counted DeqHeadUnlock = True" | "counted DeqPushLock = True" | "counted DeqSignal = True"
| "counted DeqPushUnlock = True"
| "counted _ = False"

fun moved :: "pcq_line \<Rightarrow> bool" where
  "moved EnqSizeLock = True" | "moved EnqSize = True" | "moved DeqSizeLock = True"
| "moved DeqSize = True"
| "moved l = counted l"

fun copied :: "pcq_line \<Rightarrow> bool" where
  "copied EnqTail = True" | "copied DeqHead = True"
| "copied l = moved l"

fun admitted :: "pcq_line \<Rightarrow> bool" where
  "admitted EnqUnlock = True" | "admitted EnqTailLock = True" | "admitted EnqStore = True"
| "admitted EnqTail = True" | "admitted EnqSizeLock = True" | "admitted EnqSize = True"
| "admitted DeqUnlock = True" | "admitted DeqHeadLock = True" | "admitted DeqLoad = True"
| "admitted DeqHead = True" | "admitted DeqSizeLock = True" | "admitted DeqSize = True"
| "admitted _ = False"

fun to_signal :: "pcq_line \<Rightarrow> bool" where
  "to_signal EnqSizeUnlock = True" | "to_signal EnqTailUnlock = True"
| "to_signal EnqPopLock = True" | "to_signal EnqSignal = True"
| "to_signal DeqSizeUnlock = True" | "to_signal DeqHeadUnlock = True"
| "to_signal DeqPushLock = True" | "to_signal DeqSignal = True"
| "to_signal _ = False"

definition past :: "bool \<Rightarrow> nat" where
  "past b = (if b then 1 else 0)"

lemma past_simps [simp]: "past True = 1" "past False = 0"
  by (simp_all add: past_def)

text \<open>The shared queue \<open>q\<close>, the adding thread \<open>p\<close> and the taking thread \<open>r\<close>.\<close>

definition adder :: "'e list \<Rightarrow> 'e thread \<Rightarrow> bool" where
  "adder xs p \<longleftrightarrow> (\<exists>k\<le>length xs. todo p = map Enq (drop k xs)) \<and> enq_line (line p) \<and>
     (line p \<noteq> Idle \<longrightarrow> todo p \<noteq> [])"

definition taker :: "nat \<Rightarrow> 'e thread \<Rightarrow> bool" where
  "taker m r \<longleftrightarrow> length (returned r) \<le> m \<and> todo r = replicate (m - length (returned r)) Deq \<and>
     deq_line (line r) \<and> (line r \<noteq> Idle \<longrightarrow> todo r \<noteq> [])"

definition spsc_queue :: "nat \<Rightarrow> nat \<Rightarrow> pcq_line \<Rightarrow> nat \<Rightarrow> pcq_line \<Rightarrow> 'e pc_queue_t \<Rightarrow> bool" where
  "spsc_queue cap k lp j lr q \<longleftrightarrow>
     0 < cap \<and> cap < 2 ^ 64 \<and> pcq_capacity q = cap \<and>
     pcq_tail q = (k + past (moved lp)) mod cap \<and> pcq_head q = (j + past (moved lr)) mod cap \<and>
     pcq_current_size q + (j + past (counted lr)) = k + past (counted lp) \<and>
     pcq_current_size q \<le> cap \<and>
     (admitted lp \<longrightarrow> pcq_current_size q < cap) \<and> (admitted lr \<longrightarrow> 0 < pcq_current_size q)"

definition spsc_data :: "nat \<Rightarrow> 'e list \<Rightarrow> nat \<Rightarrow> pcq_line \<Rightarrow> 'e thread \<Rightarrow> 'e pc_queue_t \<Rightarrow> bool" where
  "spsc_data cap xs k lp r q \<longleftrightarrow>
     (let j = length (returned r) in
      (\<exists>buf. pcq_buffer q = Some buf \<and> length buf = cap \<and>
         (\<forall>n. j + past (copied (line r)) \<le> n \<longrightarrow> n < k + past (copied lp) \<longrightarrow> buf ! (n mod cap) = xs ! n)) \<and>
      (copied (line r) \<longrightarrow> elem r = Some (xs ! j)) \<and> returned r = take j xs)"

definition spsc_waits :: "'e pc_queue_t \<Rightarrow> pcq_line \<Rightarrow> pcq_line \<Rightarrow> bool" where
  "spsc_waits q lp lr \<longleftrightarrow>
     pcq_pusher_condvar q \<subseteq> {0} \<and> (0 \<in> pcq_pusher_condvar q \<longrightarrow> lp = EnqWaiting) \<and>
     pcq_popper_condvar q \<subseteq> {1} \<and> (1 \<in> pcq_popper_condvar q \<longrightarrow> lr = DeqWaiting) \<and>
     (1 \<in> pcq_popper_condvar q \<and> 0 < pcq_current_size q \<longrightarrow> to_signal lp) \<and>
     (0 \<in> pcq_pusher_condvar q \<and> pcq_current_size q < pcq_capacity q \<longrightarrow> to_signal lr)"

definition added :: "'e list \<Rightarrow> 'e thread \<Rightarrow> nat" where
  "added xs p = length xs - length (todo p)"

definition spsc :: "nat \<Rightarrow> 'e list \<Rightarrow> nat \<Rightarrow> 'e cfg \<Rightarrow> bool" where
  "spsc cap xs m c \<longleftrightarrow>
     (let q = queue c; p = threads c 0; r = threads c 1 in
      adder xs p \<and> taker m r \<and>
      spsc_queue cap (added xs p) (line p) (length (returned r)) (line r) q \<and>
      spsc_data cap xs (added xs p) (line p) r q \<and>
      spsc_waits q (line p) (line r) \<and>
      (\<forall>i. i \<noteq> 0 \<longrightarrow> i \<noteq> 1 \<longrightarrow> line (threads c i) = Idle \<and> todo (threads c i) = []))"

text \<open>Each part is kept by a line of either thread.\<close>

lemma added_next:
  assumes "todo p = map Enq (drop k xs)" and "k < length xs"
  shows "todo p = Enq (xs ! k) # map Enq (drop (Suc k) xs)" and "added xs p = k"
  using assms by (simp_all add: Cons_nth_drop_Suc [symmetric] added_def)

lemma adder_step:
  assumes "adder xs p" and "act i w q p = Ret (q', p')"
  shows "adder xs p'" and "added xs p' = added xs p + (if line p = EnqPopUnlock then 1 else 0)"
proof -
  obtain k where k: "k \<le> length xs" "todo p = map Enq (drop k xs)"
    using assms(1) by (auto simp: adder_def)
  have shrink: "\<exists>k'\<le>length xs. tl (map Enq (drop k xs)) = map Enq (drop k' xs)" if "k < length xs"
    using that by (intro exI [of _ "Suc k"]) (simp add: drop_Suc tl_drop flip: map_tl)
  have more: "k < length xs" if "line p \<noteq> Idle"
    using assms(1) that k by (cases "k < length xs") (simp_all add: adder_def)
  from assms(1) have l: "enq_line (line p)" "line p \<noteq> Idle \<longrightarrow> todo p \<noteq> []"
    by (simp_all add: adder_def)
  show "adder xs p'"
    using assms(2) k l shrink more unfolding act_def
    by (cases "line p", simp_all only: act_rets, safe, simp_all add: adder_def)
      (auto dest!: spec [of _ k])
  show "added xs p' = added xs p + (if line p = EnqPopUnlock then 1 else 0)"
    using assms(2) k l more unfolding act_def
    by (cases "line p", simp_all only: act_rets, safe, simp_all add: added_def)
qed

lemma taker_step:
  assumes "taker m r" and "act i w q r = Ret (q', r')"
  shows "taker m r'"
    and "length (returned r') = length (returned r) + (if line r = DeqPushUnlock then 1 else 0)"
proof -
  have no: "Enq x # cs \<noteq> replicate n Deq" "replicate n Deq \<noteq> Enq x # cs"
    "Enq_unreadable x # cs \<noteq> replicate n Deq" "replicate n Deq \<noteq> Enq_unreadable x # cs" for x :: 'a and cs n
    by (cases n; simp)+
  have tl: "tl (replicate n Deq) = replicate (n - 1) Deq" for n by (cases n) simp_all
  from assms(1) have l: "length (returned r) \<le> m" "deq_line (line r)"
    "line r \<noteq> Idle \<longrightarrow> length (returned r) < m" "todo r = replicate (m - length (returned r)) Deq"
    by (auto simp: taker_def)
  show "taker m r'"
    using assms(2) l unfolding act_def
    by (cases "line r", simp_all only: act_rets, safe, simp_all add: taker_def no tl)
  show "length (returned r') = length (returned r) + (if line r = DeqPushUnlock then 1 else 0)"
    using assms(2) l unfolding act_def
    by (cases "line r", simp_all only: act_rets, safe, simp_all add: no)
qed

lemma queue_step_enq:
  assumes "spsc_queue cap k (line p) j lr q" and "enq_line (line p)"
    and "act i w q p = Ret (q', p')"
  shows "spsc_queue cap (k + (if line p = EnqPopUnlock then 1 else 0)) (line p') j lr q'"
  using assms unfolding act_def
  by (cases "line p", simp_all only: act_rets, safe,
      simp_all add: spsc_queue_def mod_simps)

lemma queue_step_deq:
  assumes "spsc_queue cap k lp j (line r) q" and "deq_line (line r)"
    and "act i w q r = Ret (q', r')"
  shows "spsc_queue cap k lp (j + (if line r = DeqPushUnlock then 1 else 0)) (line r') q'"
  using assms unfolding act_def
  by (cases "line r", simp_all only: act_rets, safe,
      simp_all add: spsc_queue_def mod_simps size_dec [simplified]) auto

text \<open>Two positions less than the capacity apart lie in different slots.\<close>

lemma other_slot:
  assumes "n < k" and "k < n + cap"
  shows "n mod cap \<noteq> k mod (cap::nat)"
proof
  assume "n mod cap = k mod cap"
  then have "cap dvd k - n"
    using assms(1) mod_eq_dvd_iff_nat [of n k cap] mod_eq_dvd_iff_nat [of k n cap] by simp
  with assms show False by (auto dest: dvd_imp_le)
qed

lemma data_step_enq:
  assumes d: "spsc_data cap xs k (line p) r q" and a: "adder xs p" "k = added xs p"
    and q: "spsc_queue cap k (line p) (length (returned r)) (line r) q"
    and act: "act i w q p = Ret (q', p')"
  shows "spsc_data cap xs (k + (if line p = EnqPopUnlock then 1 else 0)) (line p') r q'"
proof -
  have next_elem: "xs ! k = e" if "todo p = Enq e # cs" for e cs
  proof -
    obtain k' where k': "k' \<le> length xs" "todo p = map Enq (drop k' xs)"
      using a(1) by (auto simp: adder_def)
    then have "k' = k" using a(2) by (simp add: added_def)
    with k' that obtain zs where "drop k xs = e # zs" by (auto simp: map_eq_Cons_conv)
    then show ?thesis by (rule nth_via_drop)
  qed
  have room: "k < length (returned r) + past (copied (line r)) + cap" if "line p = EnqStore"
  proof -
    have "counted l \<Longrightarrow> copied l" for l by (cases l) simp_all
    then have "past (counted (line r)) \<le> past (copied (line r))" by (auto simp: past_def)
    with q that show ?thesis by (simp add: spsc_queue_def)
  qed
  have slot: "n mod cap \<noteq> k mod cap"
    if "line p = EnqStore" "length (returned r) + past (copied (line r)) \<le> n" "n < k" for n
    using other_slot [of n k cap] room that by simp
  have tail: "pcq_tail q = k mod cap" if "line p = EnqStore"
    using q that by (simp add: spsc_queue_def)
  have l: "enq_line (line p)" using a(1) by (simp add: adder_def)
  show ?thesis
    using act d l next_elem slot tail unfolding act_def
    by (cases "line p", simp_all only: act_rets, safe, simp_all add: spsc_data_def Let_def)
      (auto simp: nth_list_update less_Suc_eq, metis+)
qed

lemma data_step_deq:
  assumes d: "spsc_data cap xs k lp r q" and q: "spsc_queue cap k lp (length (returned r)) (line r) q"
    and t: "taker m r" "k + past (copied lp) \<le> length xs" and act: "act i w q r = Ret (q', r')"
  shows "spsc_data cap xs k lp r' q'"
proof -
  let ?j = "length (returned r)"
  have "counted l \<Longrightarrow> copied l" for l by (cases l) simp_all
  then have c: "past (counted lp) \<le> past (copied lp)" by (auto simp: past_def)
  have there: "?j < k + past (copied lp)" if "line r = DeqLoad"
    using q c that by (simp add: spsc_queue_def)
  have got: "take (Suc ?j) xs = returned r @ [xs ! ?j]" if "line r = DeqPushUnlock"
  proof -
    have "?j < length xs" using q c t(2) that by (simp add: spsc_queue_def)
    moreover have "returned r = take ?j xs" using d by (simp add: spsc_data_def Let_def)
    ultimately show ?thesis by (simp add: take_Suc_conv_app_nth)
  qed
  have l: "deq_line (line r)" using t(1) by (simp add: taker_def)
  show ?thesis
    using act d l q there got t(2) unfolding act_def
    by (cases "line r", simp_all only: act_rets, safe, simp_all add: spsc_data_def Let_def)
      (auto simp: spsc_queue_def)
qed

lemma may_wake_only:
  "may_wake q EnqSignal w \<Longrightarrow> pcq_popper_condvar q \<subseteq> {i} \<Longrightarrow> i \<in> pcq_popper_condvar q \<Longrightarrow> w = Some i"
  "may_wake q DeqSignal w \<Longrightarrow> pcq_pusher_condvar q \<subseteq> {i} \<Longrightarrow> i \<in> pcq_pusher_condvar q \<Longrightarrow> w = Some i"
  by (cases w; auto simp: may_wake_def)+

lemma waits_step_enq:
  assumes "spsc_waits q (line p) lr" and "enq_line (line p)" and "may_wake q (line p) w"
    and "pcq_current_size q \<le> pcq_capacity q" and "act 0 w q p = Ret (q', p')"
  shows "spsc_waits q' (line p') lr"
  using assms unfolding act_def
  by (cases "line p", simp_all only: act_rets, safe, simp_all add: spsc_waits_def)
    (auto dest: may_wake_only)

lemma waits_step_deq:
  assumes "spsc_waits q lp (line r)" and "deq_line (line r)" and "may_wake q (line r) w"
    and "pcq_current_size q \<le> pcq_capacity q" and "act 1 w q r = Ret (q', r')"
  shows "spsc_waits q' lp (line r')"
  using assms unfolding act_def
  by (cases "line r", simp_all only: act_rets, safe, simp_all add: spsc_waits_def)
    (auto dest: may_wake_only)

lemma adder_bound:
  assumes "adder xs p"
  shows "added xs p + past (copied (line p)) \<le> length xs"
proof -
  obtain k where k: "k \<le> length xs" "todo p = map Enq (drop k xs)"
    using assms by (auto simp: adder_def)
  then have a: "added xs p = k" by (simp add: added_def)
  show ?thesis
  proof (cases "copied (line p)")
    case True
    then have "line p \<noteq> Idle" by auto
    with assms k have "k < length xs" by (cases "k < length xs") (simp_all add: adder_def)
    with a show ?thesis by (simp add: past_def)
  qed (simp add: a k past_def)
qed

lemma spscD:
  assumes "spsc cap xs m c"
  shows "adder xs (threads c 0)" and "taker m (threads c 1)"
    and "spsc_queue cap (added xs (threads c 0)) (line (threads c 0))
      (length (returned (threads c 1))) (line (threads c 1)) (queue c)"
    and "spsc_data cap xs (added xs (threads c 0)) (line (threads c 0)) (threads c 1) (queue c)"
    and "spsc_waits (queue c) (line (threads c 0)) (line (threads c 1))"
    and "\<forall>i. i \<noteq> 0 \<longrightarrow> i \<noteq> 1 \<longrightarrow> line (threads c i) = Idle \<and> todo (threads c i) = []"
    and "pcq_current_size (queue c) \<le> pcq_capacity (queue c)"
    and "enq_line (line (threads c 0))" and "deq_line (line (threads c 1))"
  using assms unfolding spsc_def Let_def spsc_queue_def adder_def taker_def by blast+

lemma spsc_step:
  assumes s: "spsc cap xs m c" and "step c i c'"
  shows "spsc cap xs m c'"
  using assms(2)
proof cases
  case (line w q' t')
  note d = spscD [OF s]
  have "i = 0 \<or> i = 1"
  proof (rule ccontr)
    assume "\<not> (i = 0 \<or> i = 1)"
    with d(6) have "line (threads c i) = Idle" "todo (threads c i) = []" by simp_all
    then have "act i w (queue c) (threads c i) = Blocked" by (simp add: act_def)
    with line(2) show False by simp
  qed
  then show ?thesis
  proof
    assume i: "i = 0"
    then have act: "act 0 w (queue c) (threads c 0) = Ret (q', t')" using line(2) by simp
    note a = adder_step [OF d(1) act]
    show ?thesis
      using a d(2,6) queue_step_enq [OF d(3,8) act] data_step_enq [OF d(4,1) refl d(3) act]
        waits_step_enq [OF d(5,8) _ d(7) act] line(3)
      by (simp add: spsc_def Let_def line(1) i)
  next
    assume i: "i = 1"
    then have act: "act 1 w (queue c) (threads c 1) = Ret (q', t')" using line(2) by simp
    note a = taker_step [OF d(2) act]
    show ?thesis
      using a d(1,6) queue_step_deq [OF d(3,9) act]
        data_step_deq [OF d(4,3,2) adder_bound [OF d(1)] act] waits_step_deq [OF d(5,9) _ d(7) act] line(3)
      by (simp add: spsc_def Let_def line(1) i)
  qed
next
  case spurious_pusher
  then show ?thesis
    using s by (auto simp: spsc_def Let_def spsc_queue_def spsc_data_def spsc_waits_def)
next
  case spurious_popper
  then show ?thesis
    using s by (auto simp: spsc_def Let_def spsc_queue_def spsc_data_def spsc_waits_def)
qed

definition two_threads :: "'e list \<Rightarrow> nat \<Rightarrow> nat \<Rightarrow> 'e pcq_call list" where
  "two_threads xs m = (\<lambda>_. [])(0 := map Enq xs, 1 := replicate m Deq)"

lemma spsc_initial:
  assumes "buf \<noteq> []" and "length buf < 2 ^ 64"
  shows "spsc (length buf) xs m (initial buf q0 (two_threads xs m))"
  using assms
  by (auto simp: spsc_def Let_def initial_def pcq_create_def new_thread_def two_threads_def adder_def
      taker_def spsc_queue_def spsc_data_def spsc_waits_def added_def intro: exI [of _ 0])

lemma spsc_reach:
  assumes "reach (initial buf q0 (two_threads xs m)) c" and "buf \<noteq> []" and "length buf < 2 ^ 64"
  shows "spsc (length buf) xs m c"
  using assms(1) by induction (auto intro: spsc_initial [OF assms(2,3)] spsc_step)

end
