(* ===== verification/Pcq_Props.thy ===== *)
theory Pcq_Props imports Pcq_Threads begin

text \<open>
  The properties of the bounded queue: a thread on its own, any number of threads, one adding and
  one taking thread, and what two taking threads can do to each other.
\<close>

section \<open>A small instance\<close>

definition unused :: "int pc_queue_t" where
  "unused = \<lparr>pcq_buffer = None, pcq_capacity = 0, pcq_current_size = 0, pcq_head = 0, pcq_tail = 0,
     pcq_current_size_lock = None, pcq_head_lock = None, pcq_tail_lock = None,
     pcq_pusher_condvar_lock = None, pcq_popper_condvar_lock = None, pcq_pusher_condvar = {},
     pcq_popper_condvar = {}\<rparr>"

definition small_queue :: "int pc_queue_t" where
  "small_queue = snd (pcq_create (Some [0, 0]) 2 unused)"

lemma small_queue_quiet: "quiet small_queue" "queued small_queue = []" "space small_queue = 2"
  by (simp_all add: small_queue_def pcq_create_def unused_def quiet_def queued_def space_def)

text \<open>A schedule: the threads that execute the next lines.\<close>

fun run_schedule :: "nat list \<Rightarrow> 'e cfg \<Rightarrow> 'e cfg option" where
  "run_schedule [] c = Some c"
| "run_schedule (i # is) c = (case act i None (queue c) (threads c i) of
     Ret (q', t') \<Rightarrow>
       if may_wake (queue c) (line (threads c i)) None
       then run_schedule is (c\<lparr>queue := q', threads := (threads c)(i := t')\<rparr>) else None
   | _ \<Rightarrow> None)"

lemma run_schedule_reach: "reach c0 c \<Longrightarrow> run_schedule is c = Some c' \<Longrightarrow> reach c0 c'"
  by (induction "is" arbitrary: c)
    (auto split: outcome.splits prod.splits if_splits intro: reach.next_step step.line)

text \<open>One element added and taken out again, one thread after the other.\<close>

definition one_each :: "int cfg" where
  "one_each = the (run_schedule (replicate 14 0 @ replicate 14 1)
     (initial [0, 0] unused (two_threads [7] 1)))"

lemma one_each_run:
  "reach (initial [0, 0] unused (two_threads [7] 1)) one_each"
  "threads one_each = (\<lambda>i. if i = 1 then (new_thread [])\<lparr>returned := [7]\<rparr> else new_thread [])"
proof -
  have sched: "replicate 14 0 @ replicate 14 (1::nat) = [0, 0, 0, 0, 0, 0, 0, 0, 0, 0, 0, 0, 0, 0,
      1, 1, 1, 1, 1, 1, 1, 1, 1, 1, 1, 1, 1, 1]"
    by (simp add: eval_nat_numeral)
  have run: "\<exists>c. run_schedule (replicate 14 0 @ replicate 14 1)
      (initial [0, 0] unused (two_threads [7 :: int] 1)) = Some c \<and>
      threads c = (\<lambda>i. if i = 1 then (new_thread [])\<lparr>returned := [7]\<rparr> else new_thread [])"
    unfolding sched
    by (simp add: initial_def pcq_create_def Let_def new_thread_def act_def may_wake_def unused_def
        two_threads_def) (auto simp: fun_eq_iff new_thread_def)
  then show "reach (initial [0, 0] unused (two_threads [7] 1)) one_each"
    unfolding one_each_def using run_schedule_reach [OF reach.start] by fastforce
  show "threads one_each = (\<lambda>i. if i = 1 then (new_thread [])\<lparr>returned := [7]\<rparr> else new_thread [])"
    unfolding one_each_def using run by fastforce
qed

lemma one_each_blocked: "\<forall>i. \<exists>w. act i w (queue one_each) (threads one_each i) = Blocked"
  by (simp add: one_each_run(2) act_def new_thread_def)

section \<open>A thread on its own\<close>

text \<open>
  \<^verbatim>\<open>pcq_create\<close> reports exactly whether it got the memory, and the new queue is empty, has room
  for its capacity and is not locked.
\<close>

theorem pcq_create_empty:
  assumes "0 < cap" and "cap < 2 ^ 64" and "length buf = cap"
  shows "pcq_create None cap q = (-1, snd (pcq_create None cap q)) \<and>
     (\<exists>q'. pcq_create (Some buf) cap q = (0, q') \<and> quiet q' \<and> queued q' = [] \<and> space q' = cap)"
  using assms by (simp add: pcq_create_def Let_def quiet_def queued_def space_def)

lemma pcq_create_empty_witness:
  "\<exists>q'. pcq_create (Some [0, 0]) 2 unused = (0, q') \<and> quiet q' \<and> queued q' = [] \<and> space q' = 2"
  using pcq_create_empty [of 2 "[0, 0]" unused] by simp

text \<open>
  C15: with no other thread at work the queue is first-in first-out. \<^verbatim>\<open>pcq_enqueue\<close> appends its
  element, and blocks exactly when the queue is full; \<^verbatim>\<open>pcq_dequeue\<close> returns and removes the first
  element, and blocks exactly when the queue is empty.
\<close>

theorem pcq_fifo:
  assumes "quiet q"
  shows "(if space q = 0 then pcq_enqueue e q = Blocked
      else \<exists>q'. pcq_enqueue e q = Ret (0, q') \<and> quiet q' \<and> queued q' = queued q @ [e]) \<and>
     (case queued q of [] \<Rightarrow> pcq_dequeue q = Blocked
      | x # xs \<Rightarrow> \<exists>q'. pcq_dequeue q = Ret (x, q') \<and> quiet q' \<and> queued q' = xs)"
  using pcq.add_room [OF assms] pcq.add_full [OF assms] pcq.take_some [OF assms]
    pcq.take_none [OF assms]
  by (auto split: list.splits) blast+

lemma pcq_fifo_witness:
  "\<exists>q'. pcq_enqueue 7 small_queue = Ret (0, q') \<and> queued q' = [7]"
  using pcq_fifo [OF small_queue_quiet(1), of 7] small_queue_quiet by auto

section \<open>Any number of threads\<close>

text \<open>Four of the fields and the lock under which each is written.\<close>

lemma act_writes:
  assumes "act i w q t = Ret (q', t')"
  shows "pcq_current_size q' \<noteq> pcq_current_size q \<Longrightarrow> Size \<in> holds (line t)"
    and "pcq_head q' \<noteq> pcq_head q \<Longrightarrow> Head \<in> holds (line t)"
    and "pcq_tail q' \<noteq> pcq_tail q \<Longrightarrow> Tail \<in> holds (line t)"
    and "pcq_buffer q' \<noteq> pcq_buffer q \<Longrightarrow> Tail \<in> holds (line t)"
  using assms unfolding act_def
  by (cases "line t", simp_all only: act_rets, safe, simp_all)+

text \<open>
  C16: in every state that several threads can reach, each mutex of the queue is held exactly by the thread
  whose line is in the section of that mutex, so by at most one, and by nobody between two calls; and the
  size, the head, the tail and the buffer are only changed by the thread that holds the mutex of the size,
  of the head, of the tail and of the tail.
\<close>

theorem pcq_mutual_exclusion:
  assumes "reach (initial buf q0 calls) c"
  shows "(\<forall>l i. lock_of (queue c) l = Some i \<longleftrightarrow> l \<in> holds (line (threads c i))) \<and>
     (\<forall>i j. i \<noteq> j \<longrightarrow> holds (line (threads c i)) \<inter> holds (line (threads c j)) = {}) \<and>
     (\<forall>i l. line (threads c i) = Idle \<longrightarrow> lock_of (queue c) l \<noteq> Some i) \<and>
     (\<forall>i w q' t'. act i w (queue c) (threads c i) = Ret (q', t') \<longrightarrow>
       (pcq_current_size q' \<noteq> pcq_current_size (queue c) \<longrightarrow> pcq_current_size_lock (queue c) = Some i) \<and>
       (pcq_head q' \<noteq> pcq_head (queue c) \<longrightarrow> pcq_head_lock (queue c) = Some i) \<and>
       (pcq_tail q' \<noteq> pcq_tail (queue c) \<longrightarrow> pcq_tail_lock (queue c) = Some i) \<and>
       (pcq_buffer q' \<noteq> pcq_buffer (queue c) \<longrightarrow> pcq_tail_lock (queue c) = Some i))"
proof -
  have held: "lock_of (queue c) l = Some k \<longleftrightarrow> l \<in> holds (line (threads c k))" for l k
    using locks_ok_reach [OF assms] by (simp add: locks_ok_def)
  have fields: "pcq_current_size_lock (queue c) = Some i \<longleftrightarrow> Size \<in> holds (line (threads c i))"
    "pcq_head_lock (queue c) = Some i \<longleftrightarrow> Head \<in> holds (line (threads c i))"
    "pcq_tail_lock (queue c) = Some i \<longleftrightarrow> Tail \<in> holds (line (threads c i))" for i
    using held [of Size i] held [of Head i] held [of Tail i] by simp_all
  have "holds (line (threads c i)) \<inter> holds (line (threads c j)) = {}" if "i \<noteq> j" for i j
    using held that by (metis disjoint_iff option.inject)
  moreover have "lock_of (queue c) l \<noteq> Some i" if "line (threads c i) = Idle" for i l
    using held [of l i] that by simp
  moreover have "(pcq_current_size q' \<noteq> pcq_current_size (queue c) \<longrightarrow> pcq_current_size_lock (queue c) = Some i) \<and>
       (pcq_head q' \<noteq> pcq_head (queue c) \<longrightarrow> pcq_head_lock (queue c) = Some i) \<and>
       (pcq_tail q' \<noteq> pcq_tail (queue c) \<longrightarrow> pcq_tail_lock (queue c) = Some i) \<and>
       (pcq_buffer q' \<noteq> pcq_buffer (queue c) \<longrightarrow> pcq_tail_lock (queue c) = Some i)"
    if "act i w (queue c) (threads c i) = Ret (q', t')" for i w q' t'
    using act_writes [OF that] by (simp add: fields)
  ultimately show ?thesis using held by blast
qed

text \<open>An instance: a thread that adds is about to count its element while another is between its calls.\<close>

definition counting :: "int cfg" where
  "counting = the (run_schedule (replicate 8 0) (initial [0, 0] unused (two_threads [7] 1)))"

lemma counting_run:
  "reach (initial [0, 0] unused (two_threads [7] 1)) counting" "line (threads counting 0) = EnqSize"
  "line (threads counting 1) = Idle"
proof -
  have sched: "replicate 8 (0::nat) = [0, 0, 0, 0, 0, 0, 0, 0]" by (simp add: eval_nat_numeral)
  have run: "\<exists>c. run_schedule (replicate 8 0) (initial [0, 0] unused (two_threads [7 :: int] 1)) = Some c \<and>
      line (threads c 0) = EnqSize \<and> line (threads c 1) = Idle"
    unfolding sched
    by (simp add: initial_def pcq_create_def Let_def new_thread_def act_def may_wake_def unused_def two_threads_def)
  then show "reach (initial [0, 0] unused (two_threads [7] 1)) counting"
    unfolding counting_def using run_schedule_reach [OF reach.start] by fastforce
  show "line (threads counting 0) = EnqSize" "line (threads counting 1) = Idle"
    unfolding counting_def using run by fastforce+
qed

lemma pcq_mutual_exclusion_witness:
  "lock_of (queue counting) Size = Some 0 \<and> lock_of (queue counting) Tail = Some 0 \<and>
   lock_of (queue counting) Pusher \<noteq> Some 0 \<and> (\<forall>l. lock_of (queue counting) l \<noteq> Some 1)"
proof -
  have "\<forall>l i. lock_of (queue counting) l = Some i \<longleftrightarrow> l \<in> holds (line (threads counting i))"
    "\<forall>i l. line (threads counting i) = Idle \<longrightarrow> lock_of (queue counting) l \<noteq> Some i"
    using pcq_mutual_exclusion [OF counting_run(1)] by blast+
  note held = this(1) [rule_format] and idle = this(2) [rule_format]
  show ?thesis
    using held [of Size 0] held [of Tail 0] held [of Pusher 0] idle [OF counting_run(3)] counting_run(2) by simp
qed

text \<open>
  C17: the locks alone never stop the threads. When every thread is stopped, no lock is held and each
  thread has finished its calls or waits for a signal on a condition variable.
\<close>

theorem pcq_no_lock_deadlock:
  assumes "reach (initial buf q0 calls) c"
    and "\<forall>i. \<exists>w. act i w (queue c) (threads c i) = Blocked"
  shows "(\<forall>l. lock_of (queue c) l = None) \<and>
     (\<forall>i. line (threads c i) = Idle \<and> todo (threads c i) = [] \<or> unsent i (queue c) (threads c i))"
proof -
  have free: "lock_of (queue c) l = None" for l
    using lock_never_stuck [OF locks_ok_reach [OF assms(1)], of l] assms(2) by blast
  moreover have "line (threads c i) = Idle \<and> todo (threads c i) = [] \<or> unsent i (queue c) (threads c i)" for i
    using assms(2) act_blocked [of i _ "queue c" "threads c i"] free by fastforce
  ultimately show ?thesis by simp
qed

lemma pcq_no_lock_deadlock_witness:
  "lock_of (queue one_each) Size = None"
  using pcq_no_lock_deadlock [OF one_each_run(1) one_each_blocked] by blast

section \<open>One adding and one taking thread\<close>

text \<open>
  What thread 1 has taken out, the element it is about to return included; how many elements thread 0 has
  stored, the one it has not yet counted included; and the slots of the buffer from the first on.
\<close>

definition taken_out :: "'e cfg \<Rightarrow> 'e list" where
  "taken_out c = returned (threads c 1) @
     (if copied (line (threads c 1)) then [the (elem (threads c 1))] else [])"

definition stored :: "'e list \<Rightarrow> 'e cfg \<Rightarrow> nat" where
  "stored xs c = added xs (threads c 0) + past (copied (line (threads c 0)))"

definition in_buffer :: "'e list \<Rightarrow> 'e cfg \<Rightarrow> 'e list" where
  "in_buffer xs c = map (\<lambda>n. the (pcq_buffer (queue c)) ! (n mod pcq_capacity (queue c)))
     [length (taken_out c)..<stored xs c]"

lemma length_taken_out: "length (taken_out c) = length (returned (threads c 1)) + past (copied (line (threads c 1)))"
  by (simp add: taken_out_def past_def)

lemma counted_copied: "counted l \<Longrightarrow> copied l" and copied_moved: "copied l = counted l \<Longrightarrow> moved l = counted l"
  by (cases l; simp)+

lemma taken_then_buffer:
  assumes "spsc cap xs m c"
  shows "length (taken_out c) \<le> stored xs c" and "stored xs c \<le> length xs"
    and "taken_out c @ in_buffer xs c = take (stored xs c) xs"
proof -
  note s = spscD [OF assms]
  let ?lp = "line (threads c 0)" and ?lr = "line (threads c 1)" and ?j = "length (returned (threads c 1))"
  note q = s(3) [unfolded spsc_queue_def]
  have "past (counted ?lp) \<le> past (copied ?lp)" using counted_copied [of ?lp] by (auto simp: past_def)
  moreover have "past (copied ?lr) \<le> past (counted ?lr) + pcq_current_size (queue c)"
  proof (cases "copied ?lr \<and> \<not> counted ?lr")
    case True
    then have "admitted ?lr" by (cases ?lr) simp_all
    then have "0 < pcq_current_size (queue c)" using q by blast
    then show ?thesis by (simp add: past_def)
  qed (auto simp: past_def)
  moreover have "pcq_current_size (queue c) + (?j + past (counted ?lr)) = added xs (threads c 0) + past (counted ?lp)"
    using q by blast
  ultimately show le: "length (taken_out c) \<le> stored xs c"
    by (simp add: length_taken_out stored_def)
  show len: "stored xs c \<le> length xs" using adder_bound [OF s(1)] by (simp add: stored_def)
  obtain buf where buf: "pcq_buffer (queue c) = Some buf"
    "\<forall>n. length (taken_out c) \<le> n \<longrightarrow> n < stored xs c \<longrightarrow> buf ! (n mod cap) = xs ! n"
    and r: "copied ?lr \<longrightarrow> elem (threads c 1) = Some (xs ! ?j)" "returned (threads c 1) = take ?j xs"
    using s(4) by (auto simp: spsc_data_def Let_def length_taken_out stored_def)
  have "pcq_capacity (queue c) = cap" using q by blast
  then have slots: "in_buffer xs c = map ((!) xs) [length (taken_out c)..<stored xs c]"
    using buf by (simp add: in_buffer_def)
  have "taken_out c = take (length (taken_out c)) xs"
  proof (cases "copied ?lr")
    case True
    then have "length (taken_out c) = Suc ?j" by (simp add: length_taken_out)
    moreover have "?j < length xs" using le len calculation by simp
    ultimately show ?thesis using True r by (simp add: taken_out_def take_Suc_conv_app_nth)
  qed (use r(2) in \<open>simp add: taken_out_def\<close>)
  moreover have first: "map ((!) xs) [0..<n] = take n xs" if "n \<le> length xs" for n
    using that by (intro nth_equalityI) simp_all
  ultimately have "taken_out c = map ((!) xs) [0..<length (taken_out c)]"
    using le len by (metis order_trans)
  then have "taken_out c @ in_buffer xs c = map ((!) xs) ([0..<length (taken_out c)] @ [length (taken_out c)..<stored xs c])"
    by (simp add: slots)
  also have "[0..<length (taken_out c)] @ [length (taken_out c)..<stored xs c] = [0..<stored xs c]"
    using le upt_add_eq_append [of 0 "length (taken_out c)" "stored xs c - length (taken_out c)"] by simp
  also have "map ((!) xs) [0..<stored xs c] = take (stored xs c) xs"
    using len by (rule first)
  finally show "taken_out c @ in_buffer xs c = take (stored xs c) xs" .
qed

text \<open>Where no thread is between its copy and its count, the slots are the queue as one thread sees it.\<close>

lemma in_buffer_queued:
  assumes s: "spsc cap xs m c" and "copied (line (threads c 0)) = counted (line (threads c 0))"
    and "copied (line (threads c 1)) = counted (line (threads c 1))"
  shows "in_buffer xs c = queued (queue c)"
proof -
  note q = spscD(3) [OF s, unfolded spsc_queue_def]
  let ?t = "length (taken_out c)" and ?cap = "pcq_capacity (queue c)"
  have head: "pcq_head (queue c) = ?t mod ?cap"
    using q copied_moved [OF assms(3)] assms(3) by (simp add: length_taken_out)
  have "pcq_current_size (queue c) + ?t = stored xs c"
    using q assms(2,3) by (simp add: length_taken_out stored_def)
  then have "[?t..<stored xs c] = map (\<lambda>k. ?t + k) [0..<pcq_current_size (queue c)]"
    by (intro nth_equalityI) auto
  then show ?thesis by (simp add: in_buffer_def queued_def head mod_simps)
qed

text \<open>
  C13: with one thread that adds and one that takes, whatever the interleaving and the spurious
  wake-ups, nothing is lost, doubled or reordered: what was taken out, then the elements in the buffer,
  the one just stored included, are together the first elements that were to be added. The elements in the
  buffer are the contents of the queue unless a thread is between its copy and its count. What the calls
  of \<^verbatim>\<open>pcq_dequeue\<close> returned is a beginning of it; the size never exceeds the capacity and never wraps, and
  no access leaves the buffer.
\<close>

theorem spsc_first_in_first_out:
  assumes "reach (initial buf q0 (two_threads xs m)) c" and "buf \<noteq> []" and "length buf < 2 ^ 64"
  shows "taken_out c @ in_buffer xs c = take (stored xs c) xs \<and> stored xs c \<le> length xs \<and>
     (copied (line (threads c 0)) = counted (line (threads c 0)) \<and>
      copied (line (threads c 1)) = counted (line (threads c 1)) \<longrightarrow> in_buffer xs c = queued (queue c)) \<and>
     returned (threads c 1) = take (length (returned (threads c 1))) xs \<and>
     pcq_current_size (queue c) \<le> length buf \<and>
     pcq_current_size (queue c) \<le> length xs \<and>
     act 0 w (queue c) (threads c 0) \<noteq> Undef \<and> act 1 w (queue c) (threads c 1) \<noteq> Undef"
proof -
  note spsc = spsc_reach [OF assms]
  note s = spscD [OF spsc]
  have size: "pcq_current_size (queue c) \<le> length buf" "pcq_capacity (queue c) = length buf"
    "pcq_tail (queue c) < length buf" "pcq_head (queue c) < length buf" "0 < length buf"
    using s(3) assms(2) by (simp_all add: spsc_queue_def)
  obtain buf' where buf': "pcq_buffer (queue c) = Some buf'" "length buf' = length buf"
    "returned (threads c 1) = take (length (returned (threads c 1))) xs"
    using s(4) by (auto simp: spsc_data_def Let_def)
  have "added xs (threads c 0) + past (counted (line (threads c 0))) \<le> length xs"
    using adder_bound [OF s(1)] counted_copied by (cases "counted (line (threads c 0))") (auto simp: past_def split: if_splits)
  then have "pcq_current_size (queue c) \<le> length xs"
    using s(3) by (simp add: spsc_queue_def)
  moreover have "act 0 w (queue c) (threads c 0) \<noteq> Undef"
    using s(1,8) buf' size by (cases "line (threads c 0)")
      (auto simp: act_def adder_def map_eq_Cons_conv split: list.splits pcq_call.splits)
  moreover have "act 1 w (queue c) (threads c 1) \<noteq> Undef"
    using s(9) buf' size by (cases "line (threads c 1)")
      (auto simp: act_def split: list.splits pcq_call.splits)
  ultimately show ?thesis
    using buf'(3) size(1) taken_then_buffer(2,3) [OF spsc] in_buffer_queued [OF spsc] by simp
qed

lemma spsc_first_in_first_out_witness:
  "taken_out counting @ in_buffer [7] counting = [7] \<and> stored [7] counting = 1"
proof -
  have "added [7] (threads counting 0) = 0"
    using spscD(1) [OF spsc_reach [OF counting_run(1)]] counting_run(2) by (fastforce simp: adder_def added_def le_Suc_eq)
  then have "stored [7] counting = 1" using counting_run(2) by (simp add: stored_def)
  then show ?thesis using spsc_first_in_first_out [OF counting_run(1), of None] by simp
qed

text \<open>
  C14: no wake-up is lost. When neither thread can go on, the thread that takes has taken what there was to
  take, in order. It waits only if it was to take more elements than were to be added, and the thread that adds
  waits only if the elements that nobody takes do not fit the queue; otherwise both have finished their
  calls. The queue holds what was added and not taken.
\<close>

theorem spsc_no_lost_wakeup:
  assumes "reach (initial buf q0 (two_threads xs m)) c" and "buf \<noteq> []" and "length buf < 2 ^ 64"
    and "\<forall>i. \<exists>w. act i w (queue c) (threads c i) = Blocked"
  shows "returned (threads c 1) = take m xs \<and>
     (if length xs < m then line (threads c 1) = DeqWaiting
      else line (threads c 1) = Idle \<and> todo (threads c 1) = []) \<and>
     (if m + length buf < length xs then line (threads c 0) = EnqWaiting
      else line (threads c 0) = Idle \<and> todo (threads c 0) = []) \<and>
     pcq_current_size (queue c) = min (length buf) (length xs - m) \<and>
     queued (queue c) = take (length buf) (drop m xs)"
proof -
  note spsc = spsc_reach [OF assms(1-3)]
  note s = spscD [OF spsc]
  have free: "lock_of (queue c) l = None" for l
    using lock_never_stuck [OF locks_ok_reach [OF assms(1)], of l] assms(4) by blast
  have stop: "line (threads c i) = Idle \<and> todo (threads c i) = [] \<or> unsent i (queue c) (threads c i)" for i
    using assms(4) act_blocked [of i _ "queue c" "threads c i"] free by fastforce
  let ?k = "added xs (threads c 0)" and ?j = "length (returned (threads c 1))"
  have j: "?j \<le> m" "todo (threads c 1) = [] \<longrightarrow> ?j = m" "line (threads c 1) \<noteq> Idle \<longrightarrow> ?j < m"
    using s(2) by (auto simp: taker_def)
  have k: "?k \<le> length xs" "todo (threads c 0) = [] \<longrightarrow> ?k = length xs" "line (threads c 0) \<noteq> Idle \<longrightarrow> ?k < length xs"
    using s(1) by (auto simp: added_def adder_def)
  have lines: "line (threads c 0) \<in> {Idle, EnqWaiting}" "line (threads c 1) \<in> {Idle, DeqWaiting}"
    using stop [of 0] stop [of 1] s(8,9) by (auto simp: unsent_def)
  then have q: "pcq_current_size (queue c) + ?j = ?k" "0 < pcq_capacity (queue c)"
    "pcq_capacity (queue c) = length buf" "pcq_current_size (queue c) \<le> length buf"
    using s(3) by (auto simp: spsc_queue_def)
  have wait0: "pcq_current_size (queue c) = length buf" if "line (threads c 0) = EnqWaiting"
    using stop [of 0] s(5) lines(2) q(3,4) that by (auto simp: unsent_def spsc_waits_def)
  have wait1: "pcq_current_size (queue c) = 0" if "line (threads c 1) = DeqWaiting"
    using stop [of 1] s(5) lines(1) that by (auto simp: unsent_def spsc_waits_def)
  have done0: "line (threads c 0) = Idle \<Longrightarrow> todo (threads c 0) = []"
    and done1: "line (threads c 1) = Idle \<Longrightarrow> todo (threads c 1) = []"
    using stop [of 0] stop [of 1] by (auto simp: unsent_def)
  have counts: "?j = min m (length xs) \<and> pcq_current_size (queue c) = min (length buf) (length xs - m) \<and>
      (if length xs < m then line (threads c 1) = DeqWaiting else line (threads c 1) = Idle) \<and>
      (if m + length buf < length xs then line (threads c 0) = EnqWaiting else line (threads c 0) = Idle)"
    using lines wait0 wait1 done0 done1 q j k by auto
  have "taken_out c = returned (threads c 1)" using lines(2) by (auto simp: taken_out_def)
  moreover have "copied (line (threads c 0)) = counted (line (threads c 0))"
    "copied (line (threads c 1)) = counted (line (threads c 1))" "stored xs c = ?k"
    using lines by (auto simp: stored_def)
  ultimately have all: "returned (threads c 1) @ queued (queue c) = take ?k xs"
    using taken_then_buffer(3) [OF spsc] in_buffer_queued [OF spsc] by simp
  have "returned (threads c 1) = take ?j xs" using s(4) by (simp add: spsc_data_def Let_def)
  then have returned: "returned (threads c 1) = take m xs" using counts by (simp add: min_def split: if_splits)
  have "queued (queue c) = drop ?j (take ?k xs)" using all by (metis append_eq_conv_conj)
  also have "\<dots> = take (pcq_current_size (queue c)) (drop ?j xs)" using q(1) by (simp add: drop_take) (metis add_diff_cancel_right')
  also have "\<dots> = take (length buf) (drop m xs)" using counts by (auto simp: min_def split: if_splits)
  finally show ?thesis using returned counts done0 done1 by (simp split: if_splits)
qed

lemma spsc_no_lost_wakeup_witness:
  "returned (threads one_each 1) = [7] \<and> queued (queue one_each) = []"
  using spsc_no_lost_wakeup [OF one_each_run(1) _ _ one_each_blocked] by simp

text \<open>
  C20: the test of the size in \<^verbatim>\<open>pcq_enqueue\<close> is a data race. One thread has locked its two mutexes and is
  about to lower the size while the other is about to compare the size with the capacity, under a mutex
  that is none of them: both may go on, and whether the thread that adds sleeps or not depends on which of
  them comes first.
\<close>

theorem size_test_is_a_data_race:
  "\<exists>c q' t'. reach (initial [a] q0 (two_threads [e, e'] 1)) c \<and>
     lock_of (queue c) Pusher = Some 0 \<and> lock_of (queue c) Head = Some 1 \<and> lock_of (queue c) Size = Some 1 \<and>
     line (threads c 0) = EnqTest \<and> line (threads c 1) = DeqSize \<and>
     act 0 None (queue c) (threads c 0) =
       Ret ((queue c)\<lparr>pcq_pusher_condvar_lock := None, pcq_pusher_condvar := insert 0 (pcq_pusher_condvar (queue c))\<rparr>,
         goto EnqWaiting (threads c 0)) \<and>
     act 1 None (queue c) (threads c 1) = Ret (q', t') \<and>
     act 0 None q' (threads c 0) = Ret (q', goto EnqUnlock (threads c 0))"
proof -
  let ?c = "initial [a] q0 (two_threads [e, e'] 1)"
  let ?sched = "[0, 0, 0, 0, 0, 0, 0, 0, 0, 0, 0, 0, 0, 0, 1, 1, 1, 1, 1, 1, 1, 1, 0, 0]"
  have "\<exists>c q' t'. run_schedule ?sched ?c = Some c \<and>
     lock_of (queue c) Pusher = Some 0 \<and> lock_of (queue c) Head = Some 1 \<and> lock_of (queue c) Size = Some 1 \<and>
     line (threads c 0) = EnqTest \<and> line (threads c 1) = DeqSize \<and>
     act 0 None (queue c) (threads c 0) =
       Ret ((queue c)\<lparr>pcq_pusher_condvar_lock := None, pcq_pusher_condvar := insert 0 (pcq_pusher_condvar (queue c))\<rparr>,
         goto EnqWaiting (threads c 0)) \<and>
     act 1 None (queue c) (threads c 1) = Ret (q', t') \<and>
     act 0 None q' (threads c 0) = Ret (q', goto EnqUnlock (threads c 0))"
    by (simp add: initial_def pcq_create_def Let_def new_thread_def act_def may_wake_def two_threads_def)
  then show ?thesis using run_schedule_reach [OF reach.start] by blast
qed

section \<open>Two taking threads\<close>

text \<open>
  C34: two threads that take can both pass the test of the size before either of them lowers it. After
  one element was added, both calls return: the second with whatever was in the next slot of the
  buffer, and the size is then \<open>2 ^ 64 - 1\<close>, so later calls of \<^verbatim>\<open>pcq_dequeue\<close> no longer wait.
\<close>

theorem two_takers_underflow:
  "\<exists>c. reach (initial [a, b] q0 ((\<lambda>_. [])(0 := [Enq e], 1 := [Deq], 2 := [Deq]))) c \<and>
     returned (threads c 1) = [e] \<and> returned (threads c 2) = [b] \<and>
     todo (threads c 1) = [] \<and> todo (threads c 2) = [] \<and>
     pcq_current_size (queue c) = 2 ^ 64 - 1"
proof -
  let ?c = "initial [a, b] q0 ((\<lambda>_. [])(0 := [Enq e], 1 := [Deq], 2 := [Deq]))"
  let ?sched = "[0, 0, 0, 0, 0, 0, 0, 0, 0, 0, 0, 0, 0, 0, 1, 1, 1, 1, 2, 2, 2, 2,
     1, 1, 1, 1, 1, 1, 1, 1, 1, 1, 2, 2, 2, 2, 2, 2, 2, 2, 2, 2]"
  have "\<exists>c. run_schedule ?sched ?c = Some c \<and>
     returned (threads c 1) = [e] \<and> returned (threads c 2) = [b] \<and>
     todo (threads c 1) = [] \<and> todo (threads c 2) = [] \<and>
     pcq_current_size (queue c) = 2 ^ 64 - 1"
    by (simp add: initial_def pcq_create_def Let_def new_thread_def act_def may_wake_def)
  then show ?thesis using run_schedule_reach [OF reach.start] by blast
qed

end
