(* ===== verification/Os.thy ===== *)
theory Os imports C_Prelude begin

text \<open>
  The system calls of the broker and its clients. What the kernel answers is a script: each call
  consumes the next event, which must be an answer to that kind of call; without one the caller
  waits for ever. What a program writes is recorded, pipe by pipe, in \<open>sent\<close>, in order.
\<close>

section \<open>Events and state\<close>

text \<open>
  \<open>Got fd bytes\<close> answers \<^verbatim>\<open>read\<close> on the descriptor \<open>fd\<close> (no bytes: end of file); a \<^verbatim>\<open>read\<close> on another one
  waits for ever. \<open>Ready fd\<close> answers \<^verbatim>\<open>select\<close> on \<open>fd\<close> in the same way. \<open>Wrote ok\<close> answers \<^verbatim>\<open>write\<close>. The
  messages have at most 1029 bytes, which a pipe takes all or none of. \<open>Sigpipe\<close> answers a \<^verbatim>\<open>write\<close> to a
  pipe nobody reads: the signal ends the process. \<open>Result r missing\<close> answers \<^verbatim>\<open>open\<close>, \<^verbatim>\<open>close\<close>, \<^verbatim>\<open>unlink\<close>,
  \<^verbatim>\<open>mkfifo\<close> and a failing \<^verbatim>\<open>select\<close>, \<open>missing\<close> being \<^verbatim>\<open>errno == ENOENT\<close>. \<open>Line\<close> and \<open>End_of_input\<close>
  answer \<^verbatim>\<open>fgets\<close>.
\<close>

datatype os_event =
    Result int bool
  | Got int "byte list"
  | Ready int
  | Read_failed
  | Wrote bool
  | Sigpipe
  | Line "byte list"
  | End_of_input

text \<open>
  \<open>uninit k\<close> is what the \<open>k\<close>-th object without an initial value (a local array, the memory \<^verbatim>\<open>malloc\<close>
  returns) holds; \<open>objects\<close> counts them. \<^verbatim>\<open>malloc\<close> does not fail: the code never tests for it.
\<close>

record os =
  script :: "os_event list"
  sent :: "(cstring \<times> byte list) list"
  objects :: nat
  uninit :: "nat \<Rightarrow> mem"

section \<open>System calls\<close>

definition next_event :: "('s os_scheme, os_event) prog" where
  "next_event = (\<lambda>s. case script s of [] \<Rightarrow> Blocked | e # es \<Rightarrow> Ret (e, s\<lparr>script := es\<rparr>))"

definition blocked :: "('s, 'a) prog" where
  "blocked = (\<lambda>s. Blocked)"

definition sys_result :: "('s os_scheme, int \<times> bool) prog" where
  "sys_result = bnd next_event (\<lambda>e. case e of Result r missing \<Rightarrow> ret (r, missing) | _ \<Rightarrow> blocked)"

definition sys_open :: "cstring \<Rightarrow> ('s os_scheme, int) prog" where
  "sys_open path = bnd sys_result (\<lambda>(r, _). ret r)"

definition sys_close :: "int \<Rightarrow> ('s os_scheme, int) prog" where
  "sys_close fd = bnd sys_result (\<lambda>(r, _). ret r)"

definition sys_unlink :: "cstring \<Rightarrow> ('s os_scheme, int \<times> bool) prog" where
  "sys_unlink path = sys_result"

definition sys_mkfifo :: "cstring \<Rightarrow> ('s os_scheme, int) prog" where
  "sys_mkfifo path = bnd sys_result (\<lambda>(r, _). ret r)"

text \<open>
  \<^verbatim>\<open>FD_SET(fd, ...)\<close> and \<^verbatim>\<open>select\<close> without a time limit on that one descriptor: the set has 1024 bits,
  and the result is -1 or the number of ready descriptors, which is 1.
\<close>

definition sys_select :: "int \<Rightarrow> ('s os_scheme, int) prog" where
  "sys_select fd = thn (defined (0 \<le> fd \<and> fd < 1024)) (bnd next_event (\<lambda>e. case e of
       Ready d \<Rightarrow> if d = fd then ret 1 else blocked
     | Result r _ \<Rightarrow> if r = -1 then ret (-1) else blocked
     | _ \<Rightarrow> blocked))"

text \<open>Reading at most \<open>n\<close> bytes into the start of a buffer: the count and the buffer after the call.\<close>

definition sys_read :: "int \<Rightarrow> nat \<Rightarrow> byte list \<Rightarrow> ('s os_scheme, int \<times> byte list) prog" where
  "sys_read fd n buf = bnd next_event (\<lambda>e. case e of
       Got d bytes \<Rightarrow>
         if d = fd then ret (int (length (take n bytes)), take n bytes @ drop (length (take n bytes)) buf)
         else blocked
     | Read_failed \<Rightarrow> ret (-1, buf)
     | _ \<Rightarrow> blocked)"

definition sys_write :: "cstring \<Rightarrow> byte list \<Rightarrow> ('s os_scheme, int) prog" where
  "sys_write path bytes = bnd next_event (\<lambda>e. case e of
       Wrote ok \<Rightarrow>
         if ok then thn (modify (\<lambda>s. s\<lparr>sent := sent s @ [(path, bytes)]\<rparr>)) (ret (int (length bytes)))
         else ret (-1)
     | Sigpipe \<Rightarrow> (\<lambda>s. Exit 141)
     | _ \<Rightarrow> blocked)"

text \<open>\<^verbatim>\<open>fgets(s, n, stdin)\<close>: at most \<open>n - 1\<close> bytes and a NUL, \<open>None\<close> at the end of the input.\<close>

definition sys_fgets :: "nat \<Rightarrow> byte list \<Rightarrow> ('s os_scheme, byte list option) prog" where
  "sys_fgets n buf = bnd next_event (\<lambda>e. case e of
       Line bytes \<Rightarrow> (let l = take (n - 1) bytes in ret (Some (l @ [0] @ drop (length l + 1) buf)))
     | End_of_input \<Rightarrow> ret None
     | _ \<Rightarrow> blocked)"

text \<open>A fresh object of \<open>n\<close> bytes, and the string at the start of one.\<close>

definition fresh :: "nat \<Rightarrow> ('s os_scheme, byte list) prog" where
  "fresh n = (\<lambda>s. Ret (mem_read (uninit s (objects s)) 0 n, s\<lparr>objects := objects s + 1\<rparr>))"

definition string_in :: "byte list \<Rightarrow> ('s, cstring) prog" where
  "string_in buf = thn (defined (0 \<in> set buf)) (ret (cstr buf))"

definition exit_with :: "int \<Rightarrow> ('s, 'a) prog" where
  "exit_with c = (\<lambda>s. Exit c)"

section \<open>Running them\<close>

lemma sys_result_run [run_simps]:
  "script s = Result r e # es \<Longrightarrow> sys_result s = Ret ((r, e), s\<lparr>script := es\<rparr>)"
  by (simp add: sys_result_def next_event_def bnd_def ret_def)

lemma sys_open_run [run_simps]:
  "script s = Result r e # es \<Longrightarrow> sys_open path s = Ret (r, s\<lparr>script := es\<rparr>)"
  by (simp add: sys_open_def bnd_def sys_result_run ret_def)

lemma sys_close_run [run_simps]:
  "script s = Result r e # es \<Longrightarrow> sys_close fd s = Ret (r, s\<lparr>script := es\<rparr>)"
  by (simp add: sys_close_def bnd_def sys_result_run ret_def)

lemma sys_select_run [run_simps]:
  "script s = Ready fd # es \<Longrightarrow> 0 \<le> fd \<Longrightarrow> fd < 1024 \<Longrightarrow> sys_select fd s = Ret (1, s\<lparr>script := es\<rparr>)"
  "script s = Result (-1) e # es \<Longrightarrow> 0 \<le> fd \<Longrightarrow> fd < 1024 \<Longrightarrow> sys_select fd s = Ret (-1, s\<lparr>script := es\<rparr>)"
  by (simp_all add: sys_select_def next_event_def bnd_def ret_def defined_def)

lemma sys_read_run [run_simps]:
  "script s = Got fd bytes # es \<Longrightarrow> sys_read fd n buf s =
     Ret ((int (length (take n bytes)), take n bytes @ drop (length (take n bytes)) buf), s\<lparr>script := es\<rparr>)"
  "script s = Read_failed # es \<Longrightarrow> sys_read fd n buf s = Ret ((-1, buf), s\<lparr>script := es\<rparr>)"
  by (simp_all add: sys_read_def next_event_def bnd_def ret_def)

lemma sys_write_run [run_simps]:
  "script s = Wrote True # es \<Longrightarrow> sys_write path bytes s =
     Ret (int (length bytes), s\<lparr>script := es, sent := sent s @ [(path, bytes)]\<rparr>)"
  "script s = Wrote False # es \<Longrightarrow> sys_write path bytes s = Ret (-1, s\<lparr>script := es\<rparr>)"
  "script s = Sigpipe # es \<Longrightarrow> sys_write path bytes s = Exit 141"
  by (simp_all add: sys_write_def next_event_def bnd_def ret_def modify_def)

lemma sys_fgets_run [run_simps]:
  "script s = Line bytes # es \<Longrightarrow> sys_fgets n buf s =
     Ret (Some (take (n - 1) bytes @ [0] @ drop (length (take (n - 1) bytes) + 1) buf), s\<lparr>script := es\<rparr>)"
  "script s = End_of_input # es \<Longrightarrow> sys_fgets n buf s = Ret (None, s\<lparr>script := es\<rparr>)"
  by (simp_all add: sys_fgets_def next_event_def bnd_def ret_def)

lemma fresh_run [run_simps]:
  "fresh n s = Ret (mem_read (uninit s (objects s)) 0 n, s\<lparr>objects := objects s + 1\<rparr>)"
  by (simp add: fresh_def)

lemma bnd_string_in [simp]:
  "bnd (string_in buf) f s = (if 0 \<in> set buf then f (cstr buf) s else Undef)"
  by (simp add: string_in_def bnd_assoc)

text \<open>The same in front of a continuation, by the next event.\<close>

lemma sys_bnds:
  "bnd next_event f s = (case script s of [] \<Rightarrow> Blocked | e # es \<Rightarrow> f e (s\<lparr>script := es\<rparr>))"
  "bnd sys_result f' s = (case script s of [] \<Rightarrow> Blocked | e # es \<Rightarrow>
     (case e of Result r missing \<Rightarrow> f' (r, missing) (s\<lparr>script := es\<rparr>) | _ \<Rightarrow> Blocked))"
  "bnd (sys_unlink path) f' s = (case script s of [] \<Rightarrow> Blocked | e # es \<Rightarrow>
     (case e of Result r missing \<Rightarrow> f' (r, missing) (s\<lparr>script := es\<rparr>) | _ \<Rightarrow> Blocked))"
  "bnd (sys_open path) g s = (case script s of [] \<Rightarrow> Blocked | e # es \<Rightarrow>
     (case e of Result r _ \<Rightarrow> g r (s\<lparr>script := es\<rparr>) | _ \<Rightarrow> Blocked))"
  "bnd (sys_mkfifo path) g s = (case script s of [] \<Rightarrow> Blocked | e # es \<Rightarrow>
     (case e of Result r _ \<Rightarrow> g r (s\<lparr>script := es\<rparr>) | _ \<Rightarrow> Blocked))"
  "bnd (sys_close fd) g s = (case script s of [] \<Rightarrow> Blocked | e # es \<Rightarrow>
     (case e of Result r _ \<Rightarrow> g r (s\<lparr>script := es\<rparr>) | _ \<Rightarrow> Blocked))"
  "bnd (sys_select fd) g s = (if 0 \<le> fd \<and> fd < 1024 then
     (case script s of [] \<Rightarrow> Blocked | e # es \<Rightarrow>
       (case e of Ready d \<Rightarrow> if d = fd then g 1 (s\<lparr>script := es\<rparr>) else Blocked
        | Result r _ \<Rightarrow> if r = -1 then g (-1) (s\<lparr>script := es\<rparr>) else Blocked
        | _ \<Rightarrow> Blocked)) else Undef)"
  "bnd (sys_read fd n buf) h s = (case script s of [] \<Rightarrow> Blocked | e # es \<Rightarrow>
     (case e of Got d bytes \<Rightarrow> if d = fd then h (int (length (take n bytes)),
          take n bytes @ drop (length (take n bytes)) buf) (s\<lparr>script := es\<rparr>) else Blocked
      | Read_failed \<Rightarrow> h (-1, buf) (s\<lparr>script := es\<rparr>) | _ \<Rightarrow> Blocked))"
  "bnd (sys_write path bytes) g s = (case script s of [] \<Rightarrow> Blocked | e # es \<Rightarrow>
     (case e of Wrote ok \<Rightarrow>
          if ok then g (int (length bytes)) (s\<lparr>script := es, sent := sent s @ [(path, bytes)]\<rparr>)
          else g (-1) (s\<lparr>script := es\<rparr>)
      | Sigpipe \<Rightarrow> Exit 141 | _ \<Rightarrow> Blocked))"
  "bnd (sys_fgets n buf) k s = (case script s of [] \<Rightarrow> Blocked | e # es \<Rightarrow>
     (case e of Line bytes \<Rightarrow> k (Some (take (n - 1) bytes @ [0] @
          drop (length (take (n - 1) bytes) + 1) buf)) (s\<lparr>script := es\<rparr>)
      | End_of_input \<Rightarrow> k None (s\<lparr>script := es\<rparr>) | _ \<Rightarrow> Blocked))"
  by (auto simp: bnd_def next_event_def sys_result_def sys_unlink_def sys_open_def sys_mkfifo_def
      sys_close_def sys_select_def sys_read_def sys_write_def sys_fgets_def ret_def blocked_def
      modify_def defined_def Let_def split: list.split os_event.split)

lemma bnd_fresh [simp]:
  "bnd (fresh n) f s = f (mem_read (uninit s (objects s)) 0 n) (s\<lparr>objects := objects s + 1\<rparr>)"
  by (simp add: bnd_def fresh_def)

lemma string_in_run [run_simps]: "0 \<in> set buf \<Longrightarrow> string_in buf s = Ret (cstr buf, s)"
  by (simp add: string_in_def ret_def)

end
