(* ===== verification/Protocol.thy ===== *)
theory Protocol imports Os begin

text \<open>
  The messages between the clients and the broker: how each program builds them in memory it does
  not clear first, and how the other side takes them apart. Lengths and codes are those of
  \<^verbatim>\<open>utils/structures.h\<close>. Functions that several programs have under one name carry the program's name
  in front.
\<close>

section \<open>Codes and sizes\<close>

definition OP_CODE_REGISTER_PUBLISHER :: byte where "OP_CODE_REGISTER_PUBLISHER = 1"
definition OP_CODE_REGISTER_SUBSCRIBER :: byte where "OP_CODE_REGISTER_SUBSCRIBER = 2"
definition OP_CODE_REGISTER_BOX :: byte where "OP_CODE_REGISTER_BOX = 3"
definition OP_CODE_ANSWER_TO_CREATION :: byte where "OP_CODE_ANSWER_TO_CREATION = 4"
definition OP_CODE_REMOVE_BOX :: byte where "OP_CODE_REMOVE_BOX = 5"
definition OP_CODE_ANSWER_TO_REMOVAL :: byte where "OP_CODE_ANSWER_TO_REMOVAL = 6"
definition OP_CODE_BOX_LIST :: byte where "OP_CODE_BOX_LIST = 7"
definition OP_CODE_ANSWER_TO_LIST :: byte where "OP_CODE_ANSWER_TO_LIST = 8"
definition OP_CODE_PUBLISHER_MESSAGE :: byte where "OP_CODE_PUBLISHER_MESSAGE = 9"
definition OP_CODE_SUBSCRIBER_MESSAGE :: byte where "OP_CODE_SUBSCRIBER_MESSAGE = 10"

lemmas op_codes = OP_CODE_REGISTER_PUBLISHER_def OP_CODE_REGISTER_SUBSCRIBER_def
  OP_CODE_REGISTER_BOX_def OP_CODE_ANSWER_TO_CREATION_def OP_CODE_REMOVE_BOX_def
  OP_CODE_ANSWER_TO_REMOVAL_def OP_CODE_BOX_LIST_def OP_CODE_ANSWER_TO_LIST_def
  OP_CODE_PUBLISHER_MESSAGE_def OP_CODE_SUBSCRIBER_MESSAGE_def

definition BOX_MESSAGE_SIZE :: nat where "BOX_MESSAGE_SIZE = 289"
definition BOX_LIST_MESSAGE_SIZE :: nat where "BOX_LIST_MESSAGE_SIZE = 257"
definition MAX_MESSAGE_SIZE :: nat where "MAX_MESSAGE_SIZE = 1024"
definition ANSWER_MESSAGE_SIZE :: nat where "ANSWER_MESSAGE_SIZE = 1029"
definition MAX_BOX_NAME_SIZE :: nat where "MAX_BOX_NAME_SIZE = 32"
definition MAX_NAMED_PIPE_SIZE :: nat where "MAX_NAMED_PIPE_SIZE = 256"

lemmas message_sizes = BOX_MESSAGE_SIZE_def BOX_LIST_MESSAGE_SIZE_def MAX_MESSAGE_SIZE_def
  ANSWER_MESSAGE_SIZE_def MAX_BOX_NAME_SIZE_def MAX_NAMED_PIPE_SIZE_def

text \<open>The size of a pointer, which \<^verbatim>\<open>sizeof\<close> gives for a \<^verbatim>\<open>char *\<close> variable.\<close>

definition sizeof_pointer :: nat where "sizeof_pointer = 8"

section \<open>Copying into a buffer\<close>

text \<open>
  \<^verbatim>\<open>memcpy(buf + off, bytes, ...)\<close>, and \<^verbatim>\<open>memset(buf + off, 0, width - len)\<close>, whose count wraps to a
  huge one when \<open>len\<close> is larger than \<open>width\<close>. Both must stay inside the buffer.
\<close>

definition poke :: "nat \<Rightarrow> byte list \<Rightarrow> byte list \<Rightarrow> ('s, byte list) prog" where
  "poke off bytes buf =
     thn (defined (off + length bytes \<le> length buf))
         (ret (take off buf @ bytes @ drop (off + length bytes) buf))"

definition clear_rest :: "nat \<Rightarrow> nat \<Rightarrow> nat \<Rightarrow> byte list \<Rightarrow> ('s, byte list) prog" where
  "clear_rest off width len buf =
     thn (defined (len \<le> width)) (poke off (replicate (width - len) 0) buf)"

lemma bnd_poke [simp]:
  "bnd (poke off bytes buf) f s =
     (if off + length bytes \<le> length buf
      then f (take off buf @ bytes @ drop (off + length bytes) buf) s else Undef)"
  by (simp add: poke_def bnd_assoc)

lemma bnd_clear_rest [simp]:
  "bnd (clear_rest off width len buf) f s =
     (if len \<le> width \<and> off + (width - len) \<le> length buf
      then f (take off buf @ replicate (width - len) 0 @ drop (off + (width - len)) buf) s else Undef)"
  by (simp add: clear_rest_def bnd_assoc)

section \<open>Messages the broker builds\<close>

definition mbroker_create_message :: "byte \<Rightarrow> cstring \<Rightarrow> ('s os_scheme, byte list) prog" where
  "mbroker_create_message code message_to_write =
     bnd (fresh 1025) (\<lambda>message.
     bnd (poke 0 [code] message) (\<lambda>message.
     bnd (poke 1 message_to_write message) (\<lambda>message.
     bnd (clear_rest (1 + length message_to_write) 1024 (length message_to_write) message) ret)))"

definition create_answer :: "byte \<Rightarrow> int \<Rightarrow> cstring \<Rightarrow> nat \<Rightarrow> ('s os_scheme, byte list) prog" where
  "create_answer code return_code error_message size_of_answer =
     bnd (fresh size_of_answer) (\<lambda>answer.
     bnd (poke 0 [code] answer) (\<lambda>answer.
     bnd (poke 1 (enc_le 4 return_code) answer) (\<lambda>answer.
     if return_code < 0 then
       bnd (poke 5 error_message answer) (\<lambda>answer.
       clear_rest (5 + length error_message) 1024 (length error_message) answer)
     else clear_rest 5 1024 0 answer)))"

text \<open>
  A node of the list seen by \<^verbatim>\<open>create_listing_message\<close>: whether it is the last, the name and whether
  there is a publisher. The size sent is that of a pointer, and no subscribers are counted.
\<close>

definition create_listing_message ::
  "bool \<Rightarrow> cstring \<Rightarrow> bool \<Rightarrow> ('s os_scheme, byte list) prog" where
  "create_listing_message is_last name has_publisher =
     bnd (fresh 58) (\<lambda>message.
     bnd (poke 0 [OP_CODE_ANSWER_TO_LIST] message) (\<lambda>message.
     bnd (poke 1 [if is_last then 1 else 0] message) (\<lambda>message.
     thn (defined (length name + 1 \<le> 32))
    (bnd (poke 2 name message) (\<lambda>message.
     bnd (clear_rest (2 + length name) 32 (length name) message) (\<lambda>message.
     bnd (poke 34 (enc_le 8 (int sizeof_pointer)) message) (\<lambda>message.
     bnd (poke 42 (enc_le 8 (if has_publisher then 1 else 0)) message) (\<lambda>message.
     poke 50 (enc_le 8 0) message))))))))"

definition create_listing_error_message :: "('s os_scheme, byte list) prog" where
  "create_listing_error_message =
     bnd (fresh 66) (\<lambda>message.
     bnd (poke 0 [OP_CODE_ANSWER_TO_LIST] message) (\<lambda>message.
     bnd (poke 1 [1] message) (\<lambda>message.
     bnd (clear_rest 2 32 0 message) (\<lambda>message.
     bnd (poke 34 (enc_le 8 0) message) (\<lambda>message.
     bnd (poke 42 (enc_le 8 0) message) (\<lambda>message.
     poke 50 (enc_le 8 0) message))))))"

section \<open>Messages the clients build\<close>

text \<open>\<^verbatim>\<open>create_message\<close> of \<^verbatim>\<open>publisher/pub.c\<close> and of \<^verbatim>\<open>subscriber/sub.c\<close>, which are the same.\<close>

definition client_create_message :: "byte \<Rightarrow> cstring \<Rightarrow> cstring \<Rightarrow> ('s os_scheme, byte list) prog" where
  "client_create_message code pipe_name box_name =
     bnd (fresh 289) (\<lambda>message.
     bnd (poke 0 [code] message) (\<lambda>message.
     bnd (poke 1 pipe_name message) (\<lambda>message.
     bnd (clear_rest (1 + length pipe_name) 256 (length pipe_name) message) (\<lambda>message.
     bnd (poke 257 box_name message) (\<lambda>message.
     clear_rest (257 + length box_name) 32 (length box_name) message)))))"

text \<open>\<^verbatim>\<open>create_message\<close> of \<^verbatim>\<open>manager/manager.c\<close>; nothing is stored behind the box name.\<close>

definition manager_create_message ::
  "byte \<Rightarrow> cstring \<Rightarrow> cstring option \<Rightarrow> nat \<Rightarrow> ('s os_scheme, byte list) prog" where
  "manager_create_message code client_pipe_name box_name size_of_message =
     bnd (fresh size_of_message) (\<lambda>message.
     bnd (poke 0 [code] message) (\<lambda>message.
     bnd (poke 1 client_pipe_name message) (\<lambda>message.
     bnd (clear_rest (length client_pipe_name + 1) 256 (length client_pipe_name) message) (\<lambda>message.
     case box_name of None \<Rightarrow> ret message | Some b \<Rightarrow> poke 257 b message))))"

text \<open>The message \<^verbatim>\<open>send_message\<close> of \<^verbatim>\<open>publisher/pub.c\<close> builds.\<close>

definition publisher_message :: "cstring \<Rightarrow> ('s os_scheme, byte list) prog" where
  "publisher_message message_written =
     bnd (fresh 1025) (\<lambda>message.
     bnd (poke 0 [OP_CODE_PUBLISHER_MESSAGE] message) (\<lambda>message.
     bnd (poke 1 message_written message) (\<lambda>message.
     clear_rest (1 + length message_written) 1024 (length message_written) message)))"

section \<open>What the manager makes of an answer\<close>

text \<open>What the clients print on \<^verbatim>\<open>stdout\<close>, by the functions of \<^verbatim>\<open>utils/messages.h\<close>.\<close>

datatype printed =
    Message_line cstring
  | Box_line cstring nat nat nat
  | No_boxes_found
  | Ok_line
  | Error_line cstring

text \<open>\<^verbatim>\<open>process_command\<close>: the result and what is printed. \<^verbatim>\<open>last\<close> is a \<^verbatim>\<open>size_t\<close>.\<close>

definition slice :: "nat \<Rightarrow> nat \<Rightarrow> byte list \<Rightarrow> byte list" where
  "slice off n bytes = take n (drop off bytes)"

definition process_answer :: "byte list \<Rightarrow> ('s, int \<times> printed list) prog" where
  "process_answer answer =
     (if dec_i32 (slice 1 4 answer) < 0
      then bnd (string_in (slice 5 1024 answer)) (\<lambda>e. ret (0, [Error_line e]))
      else ret (0, [Ok_line]))"

definition process_command :: "byte list \<Rightarrow> ('s, int \<times> printed list) prog" where
  "process_command answer =
     (let code = hd answer in
      if code = 4 then process_answer answer
      else if code = 6 then process_answer answer
      else if code = 8 then
        let last = dec_le (slice 1 8 answer); box_name = slice 9 32 answer in
        if hd box_name = 0 \<and> last = 1 then ret (0, [No_boxes_found])
        else
          bnd (string_in box_name) (\<lambda>name.
          ret (0, [Box_line name (nat (dec_le (slice 41 8 answer))) (nat (dec_le (slice 49 8 answer)))
                     (nat (dec_le (slice 57 8 answer)))]))
      else ret (-1, []))"

section \<open>The bytes that result\<close>

definition padded :: "nat \<Rightarrow> byte list \<Rightarrow> byte list" where
  "padded n bytes = bytes @ replicate (n - length bytes) 0"

abbreviation counted_object :: "'s os_scheme \<Rightarrow> 's os_scheme" where
  "counted_object s \<equiv> s\<lparr>objects := objects s + 1\<rparr>"

lemma length_padded [simp]: "length bytes \<le> n \<Longrightarrow> length (padded n bytes) = n"
  by (simp add: padded_def)

lemma cstr_padded_prefix [simp]:
  "is_cstring x \<Longrightarrow> cstr (padded n x) = x"
  by (simp add: padded_def cstr_padded)

lemma zero_in_padded [simp]: "length x < n \<Longrightarrow> 0 \<in> set (padded n x)"
  by (simp add: padded_def)

lemma mbroker_create_message_run [run_simps]:
  "length m \<le> 1024 \<Longrightarrow>
   mbroker_create_message code m s = Ret (code # padded 1024 m, counted_object s)"
  "1024 < length m \<Longrightarrow> mbroker_create_message code m s = Undef"
  by (simp_all add: mbroker_create_message_def fresh_def bnd_def poke_def clear_rest_def defined_def ret_def
      padded_def)

lemma create_answer_run [run_simps]:
  "length error_message \<le> 1024 \<Longrightarrow> create_answer code r error_message ANSWER_MESSAGE_SIZE s =
     Ret (code # enc_le 4 r @ padded 1024 (if r < 0 then error_message else []), counted_object s)"
  by (simp add: create_answer_def fresh_def bnd_def poke_def clear_rest_def defined_def ret_def
      padded_def ANSWER_MESSAGE_SIZE_def take_Cons')

lemma create_listing_message_run [run_simps]:
  "length name < 32 \<Longrightarrow> create_listing_message is_last name pub s =
     Ret (OP_CODE_ANSWER_TO_LIST # (if is_last then 1 else 0) # padded 32 name @ enc_le 8 8 @
          enc_le 8 (if pub then 1 else 0) @ enc_le 8 0, counted_object s)"
  by (simp add: create_listing_message_def fresh_def bnd_def poke_def clear_rest_def defined_def ret_def
      padded_def sizeof_pointer_def)

lemma client_create_message_run [run_simps]:
  "length pipe \<le> 256 \<Longrightarrow> length box \<le> 32 \<Longrightarrow> client_create_message code pipe box s =
     Ret (code # padded 256 pipe @ padded 32 box, counted_object s)"
  by (simp add: client_create_message_def fresh_def bnd_def poke_def clear_rest_def defined_def ret_def
      padded_def take_Cons')

lemma manager_create_message_run [run_simps]:
  "length pipe \<le> 256 \<Longrightarrow> length box \<le> 32 \<Longrightarrow> manager_create_message code pipe (Some box) BOX_MESSAGE_SIZE s =
     Ret (code # padded 256 pipe @ box @
          drop (257 + length box) (mem_read (uninit s (objects s)) 0 289), counted_object s)"
  "length pipe \<le> 256 \<Longrightarrow> manager_create_message code pipe None BOX_LIST_MESSAGE_SIZE s =
     Ret (code # padded 256 pipe, counted_object s)"
  by (simp_all add: manager_create_message_def fresh_def bnd_def poke_def clear_rest_def defined_def ret_def
      padded_def message_sizes take_Cons' drop_Cons' add.commute)

lemma publisher_message_run [run_simps]:
  "length m \<le> 1024 \<Longrightarrow> publisher_message m s =
     Ret (OP_CODE_PUBLISHER_MESSAGE # padded 1024 m, counted_object s)"
  by (simp add: publisher_message_def fresh_def bnd_def poke_def clear_rest_def defined_def ret_def
      padded_def)

end
