(* ===== verification/Keeps.thy ===== *)
theory Keeps imports Protocol begin

text \<open>
  What a piece of code keeps: a property of the state that holds before holds again when the code
  returns. The locale \<open>system_invariant\<close> says what such a property must survive for the system calls
  to keep it; the broker extends it by what it changes itself.
\<close>

section \<open>Keeping a property\<close>

lemmas prog_simps = bnd_defined bnd_string_in bnd_gets bnd_modify bnd_poke bnd_clear_rest

text \<open>When \<open>m\<close> returns, \<open>I\<close> still holds and the result satisfies \<open>F\<close>.\<close>

definition keeps :: "('s \<Rightarrow> bool) \<Rightarrow> ('s, 'a) prog \<Rightarrow> ('a \<Rightarrow> bool) \<Rightarrow> bool" where
  "keeps I m F \<longleftrightarrow> (\<forall>s x t. I s \<longrightarrow> m s = Ret (x, t) \<longrightarrow> I t \<and> F x)"

lemma keepsD: "keeps I m F \<Longrightarrow> I s \<Longrightarrow> m s = Ret (x, t) \<Longrightarrow> I t \<and> F x"
  by (auto simp: keeps_def)

lemma keepsI: "(\<And>s x t. I s \<Longrightarrow> m s = Ret (x, t) \<Longrightarrow> I t \<and> F x) \<Longrightarrow> keeps I m F"
  by (auto simp: keeps_def)

lemma keeps_weaken: "keeps I m F \<Longrightarrow> (\<And>x. F x \<Longrightarrow> G x) \<Longrightarrow> keeps I m G"
  by (auto simp: keeps_def)

lemma keeps_bnd:
  "keeps I m F \<Longrightarrow> (\<And>x. F x \<Longrightarrow> keeps I (f x) G) \<Longrightarrow> keeps I (bnd m f) G"
proof (rule keepsI)
  fix s y t
  assume m: "keeps I m F" and f: "\<And>x. F x \<Longrightarrow> keeps I (f x) G"
    and s: "I s" "bnd m f s = Ret (y, t)"
  from s(2) obtain x s' where x: "m s = Ret (x, s')" and y: "f x s' = Ret (y, t)" by (rule bnd_RetE)
  from keepsD [OF m s(1) x] have "I s'" and "F x" by simp_all
  from keepsD [OF f [OF this(2)] this(1) y] show "I t \<and> G y" .
qed

lemma keeps_gets:
  "(\<And>s. I s \<Longrightarrow> keeps I (f (g s)) G) \<Longrightarrow> keeps I (bnd (gets g) f) G"
  by (rule keepsI) (metis bnd_gets keepsD)

text \<open>The property need only hold after the first operation.\<close>

lemma keeps_after:
  assumes "bnd m f s = Ret (r, t)" and "\<And>x u. m s = Ret (x, u) \<Longrightarrow> I u" and "\<And>x. keeps I (f x) (\<lambda>_. True)"
  shows "I t"
  using assms(1)
proof (rule bnd_RetE)
  fix x u assume "m s = Ret (x, u)" and r: "f x u = Ret (r, t)"
  then show ?thesis using keepsD [OF assms(3) assms(2) r] by simp
qed

lemma keeps_basic:
  "F x \<Longrightarrow> keeps I (ret x) F"
  "keeps I blocked F"
  "keeps I (exit_with c) F"
  by (auto simp: keeps_def ret_def blocked_def exit_with_def)

lemma keeps_defined: "keeps I (defined c) (\<lambda>_. c)"
  by (auto simp: keeps_def defined_def)

lemma keeps_modify: "(\<And>s. I s \<Longrightarrow> I (f s)) \<Longrightarrow> keeps I (modify f) (\<lambda>_. True)"
  by (auto simp: keeps_def modify_def)

lemma keeps_string_in: "keeps I (string_in buf) (\<lambda>x. x = cstr buf \<and> 0 \<in> set buf)"
  by (auto simp: keeps_def string_in_def bnd_def defined_def ret_def split: if_splits)

lemma keeps_poke:
  "keeps I (poke off bytes buf) (\<lambda>b. length b = length buf)"
  by (auto simp: keeps_def poke_def bnd_def defined_def ret_def split: if_splits)

lemma keeps_clear_rest:
  "keeps I (clear_rest off width len buf) (\<lambda>b. length b = length buf)"
  unfolding clear_rest_def by (rule keeps_bnd [OF keeps_defined keeps_poke])

lemma keeps_cases:
  "(c \<Longrightarrow> keeps I a G) \<Longrightarrow> (\<not> c \<Longrightarrow> keeps I b G) \<Longrightarrow> keeps I (if c then a else b) G"
  "(\<And>x y. p = (x, y) \<Longrightarrow> keeps I (g x y) G) \<Longrightarrow> keeps I (case p of (x, y) \<Rightarrow> g x y) G"
  "(opt = None \<Longrightarrow> keeps I n G) \<Longrightarrow> (\<And>k. opt = Some k \<Longrightarrow> keeps I (h k) G) \<Longrightarrow>
    keeps I (case opt of None \<Rightarrow> n | Some k \<Rightarrow> h k) G"
  "(\<And>r. u = Inl r \<Longrightarrow> keeps I (i r) G) \<Longrightarrow> (\<And>k. u = Inr k \<Longrightarrow> keeps I (j k) G) \<Longrightarrow>
    keeps I (case u of Inl r \<Rightarrow> i r | Inr k \<Rightarrow> j k) G"
  by (auto split: prod.splits option.splits sum.splits)

lemma keeps_true: "keeps I m F \<Longrightarrow> keeps I m (\<lambda>_. True)"
  by (simp add: keeps_def)

lemma keeps_bnd_cases:
  "keeps I (f x) G \<Longrightarrow> keeps I (bnd (ret x) f) G"
  "(c \<Longrightarrow> keeps I (bnd a f) G) \<Longrightarrow> (\<not> c \<Longrightarrow> keeps I (bnd b f) G) \<Longrightarrow>
    keeps I (bnd (if c then a else b) f) G"
  by simp_all

text \<open>
  A fact about an operation is used in two forms: in front of a continuation and at the end.
\<close>

lemmas basic_ops = keeps_defined keeps_string_in keeps_poke keeps_clear_rest

lemmas keeps_intros = keeps_basic keeps_gets keeps_cases keeps_bnd_cases
  basic_ops [THEN keeps_bnd] basic_ops [THEN keeps_true]

section \<open>System calls\<close>

locale system_invariant =
  fixes I :: "'s os_scheme \<Rightarrow> bool"
  assumes objects: "I s \<Longrightarrow> I (s\<lparr>objects := n\<rparr>)"
    and event: "I s \<Longrightarrow> script s = e # es \<Longrightarrow> I (s\<lparr>script := es\<rparr>)"
    and sending: "I s \<Longrightarrow> I (s\<lparr>sent := sent s @ ms\<rparr>)"
begin

lemma keeps_next_event: "keeps I next_event (\<lambda>_. True)"
  by (auto simp: keeps_def next_event_def event split: list.splits)

lemma keeps_sys_result: "keeps I sys_result (\<lambda>_. True)"
  unfolding sys_result_def by (rule keeps_bnd [OF keeps_next_event])
    (auto intro: keeps_basic split: os_event.splits)

lemma keeps_sys:
  "keeps I (sys_open path) (\<lambda>_. True)" "keeps I (sys_close fd) (\<lambda>_. True)"
  "keeps I (sys_unlink path) (\<lambda>_. True)" "keeps I (sys_mkfifo path) (\<lambda>_. True)"
  unfolding sys_open_def sys_close_def sys_unlink_def sys_mkfifo_def
  by (intro keeps_intros keeps_sys_result keeps_sys_result [THEN keeps_bnd] TrueI)+

lemma keeps_sys_select: "keeps I (sys_select fd) (\<lambda>_. True)"
proof -
  have "keeps I (case e of Ready d \<Rightarrow> if d = fd then ret 1 else blocked
      | Result r _ \<Rightarrow> if r = -1 then ret (-1) else blocked | _ \<Rightarrow> blocked) (\<lambda>_. True)" for e
    by (cases e) (simp_all add: keeps_basic)
  then show ?thesis
    unfolding sys_select_def by (intro keeps_intros keeps_next_event [THEN keeps_bnd])
qed

lemma keeps_sys_read: "keeps I (sys_read fd n buf) (\<lambda>(_, b). length buf = n \<longrightarrow> length b = n)"
  unfolding sys_read_def by (rule keeps_bnd [OF keeps_next_event])
    (auto intro!: keeps_basic split: os_event.splits)

lemma keeps_sys_write: "keeps I (sys_write path bytes) (\<lambda>_. True)"
proof -
  have w: "keeps I (thn (modify (\<lambda>s. s\<lparr>sent := sent s @ [(path, bytes)]\<rparr>))
      (ret (int (length bytes)))) (\<lambda>_. True)"
    by (rule keepsI) (auto simp: ret_def sending)
  have x: "keeps I (\<lambda>s. Exit 141) (\<lambda>_. True)" by (rule keepsI) simp
  show ?thesis
    unfolding sys_write_def
  proof (rule keeps_bnd [OF keeps_next_event])
    show "keeps I (case e of
        Wrote ok \<Rightarrow> if ok then thn (modify (\<lambda>s. s\<lparr>sent := sent s @ [(path, bytes)]\<rparr>))
            (ret (int (length bytes))) else ret (-1)
      | Sigpipe \<Rightarrow> (\<lambda>s. Exit 141) | _ \<Rightarrow> blocked) (\<lambda>_. True)" for e
      using w x by (cases e) (simp_all add: keeps_basic)
  qed
qed

lemma keeps_fresh: "keeps I (fresh n) (\<lambda>b. length b = n)"
  by (auto simp: keeps_def fresh_def objects)

lemma keeps_fgets: "keeps I (sys_fgets n buf) (\<lambda>_. True)"
  unfolding sys_fgets_def by (rule keeps_bnd [OF keeps_next_event])
    (auto intro!: keeps_basic split: os_event.splits simp: Let_def)

lemmas os_ops = keeps_sys keeps_sys_select keeps_sys_read keeps_sys_write keeps_fresh keeps_fgets

lemma keeps_messages:
  "keeps I (mbroker_create_message code m) (\<lambda>_. True)"
  "keeps I (create_answer code r e n) (\<lambda>_. True)"
  "keeps I (create_listing_message is_last name pub) (\<lambda>_. True)"
  "keeps I create_listing_error_message (\<lambda>_. True)"
  "keeps I (client_create_message code pipe name) (\<lambda>_. True)"
  "keeps I (manager_create_message code pipe opt n) (\<lambda>_. True)"
  "keeps I (publisher_message m) (\<lambda>_. True)"
  unfolding mbroker_create_message_def create_answer_def create_listing_message_def
    create_listing_error_message_def client_create_message_def manager_create_message_def
    publisher_message_def
  by (intro keeps_intros os_ops [THEN keeps_bnd] os_ops [THEN keeps_true] TrueI)+

lemmas sys_intros = keeps_intros os_ops [THEN keeps_bnd] os_ops [THEN keeps_true]
  keeps_messages keeps_messages [THEN keeps_bnd] TrueI

end

end
