(* ===== verification/Broker.thy ===== *)
theory Broker imports Protocol Fs_Ops Pcq begin

text \<open>
  The broker, \<^verbatim>\<open>mbroker/mbroker.c\<close>: its list of boxes, the commands on it and the sessions that read
  requests from pipes. The code that starts threads is commented out, so one thread runs everything
  in the order of the code. The calls of the file system run on the state in \<open>tfs\<close>.

  A \<^verbatim>\<open>char *\<close> argument is the object it points to, which holds a string when a byte of it is 0. The
  results of \<^verbatim>\<open>pthread_mutex_lock\<close> and \<^verbatim>\<open>pthread_mutex_unlock\<close> are never -1, so the branches for that
  have no counterpart; what is printed on \<^verbatim>\<open>stderr\<close> has none either.
\<close>

section \<open>State\<close>

record subscriber_t =
  sub_named_pipe :: cstring
  sub_box_name :: cstring

text \<open>The condition variable of a box is never used. \<open>messages_size\<close> is the list of the nodes' sizes.\<close>

record box_t =
  box_name :: cstring
  subscribers :: "subscriber_t list"
  publisher_named_pipe :: "cstring option"
  num_subscribers :: nat
  messages_size :: "nat list"

text \<open>
  A node of \<^verbatim>\<open>box_list\<close> with its box; the flags say that the box's name, and the box itself, have been
  freed although the node is still in the list.
\<close>

record box_list_t =
  box :: box_t
  name_freed :: bool
  box_freed :: bool

record broker = os +
  tfs :: fs
  box_list :: "box_list_t list"
  box_list_mutex :: bool
  pc_queue :: "nat pc_queue_t option"

text \<open>A call of the file system.\<close>

definition in_fs :: "(fs, 'a) prog \<Rightarrow> (broker, 'a) prog" where
  "in_fs m = (\<lambda>s. case m (tfs s) of
     Ret (x, t) \<Rightarrow> Ret (x, s\<lparr>tfs := t\<rparr>)
   | Panic e \<Rightarrow> Panic e
   | Undef \<Rightarrow> Undef
   | Deadlock \<Rightarrow> Deadlock
   | Blocked \<Rightarrow> Blocked
   | Exit c \<Rightarrow> Exit c)"

text \<open>
  The mutex of the list. Locking it twice never returns; unlocking it when it is not locked leaves
  it as it is, as in glibc.
\<close>

definition lock_list :: "(broker, unit) prog" where
  "lock_list = (\<lambda>s. if box_list_mutex s then Deadlock else Ret ((), s\<lparr>box_list_mutex := True\<rparr>))"

definition unlock_list :: "(broker, unit) prog" where
  "unlock_list = modify (\<lambda>s. s\<lparr>box_list_mutex := False\<rparr>)"

definition unlock_list_return :: "'a \<Rightarrow> (broker, 'a) prog" where
  "unlock_list_return v = thn unlock_list (ret v)"

text \<open>A pointer to a box is its position in the list.\<close>

definition the_box :: "nat \<Rightarrow> (broker, box_t) prog" where
  "the_box k = bnd (gets box_list) (\<lambda>l.
     thn (defined (k < length l \<and> \<not> box_freed (l ! k))) (ret (box (l ! k))))"

definition set_box :: "nat \<Rightarrow> (box_t \<Rightarrow> box_t) \<Rightarrow> (broker, unit) prog" where
  "set_box k f = modify (\<lambda>s. s\<lparr>box_list := (box_list s)[k := box_update f (box_list s ! k)]\<rparr>)"

text \<open>
  \<^verbatim>\<open>strcmp\<close> of a string with the string in an object: without a NUL byte the object must be longer than
  the string, so that the comparison ends inside it.
\<close>

definition strcmp_object :: "cstring \<Rightarrow> byte list \<Rightarrow> ('s, bool) prog" where
  "strcmp_object x buf =
     thn (defined (0 \<in> set buf \<or> length x < length buf)) (ret (x = cstr buf))"

section \<open>Searching the list\<close>

fun publisher_scan :: "byte list \<Rightarrow> nat \<Rightarrow> box_list_t list \<Rightarrow> (broker, nat option) prog" where
  "publisher_scan publisher_pipe_name k [] = ret None"
| "publisher_scan publisher_pipe_name k (n # ns) =
     thn (defined (\<not> box_freed n \<and> publisher_named_pipe (box n) \<noteq> None))
    (bnd (strcmp_object (the (publisher_named_pipe (box n))) publisher_pipe_name) (\<lambda>equal.
     if equal then ret (Some k) else publisher_scan publisher_pipe_name (Suc k) ns))"

definition get_box_by_publisher_pipe :: "byte list \<Rightarrow> (broker, nat option) prog" where
  "get_box_by_publisher_pipe publisher_pipe_name =
     thn lock_list
    (bnd (gets box_list) (\<lambda>l.
     bnd (publisher_scan publisher_pipe_name 0 l) unlock_list_return))"

fun name_scan :: "byte list \<Rightarrow> nat \<Rightarrow> box_list_t list \<Rightarrow> (broker, nat option) prog" where
  "name_scan name k [] = ret None"
| "name_scan name k (n # ns) =
     thn (defined (\<not> box_freed n \<and> \<not> name_freed n))
    (bnd (strcmp_object (box_name (box n)) name) (\<lambda>equal.
     if equal then ret (Some k) else name_scan name (Suc k) ns))"

definition find_box_by_name :: "byte list \<Rightarrow> (broker, nat option) prog" where
  "find_box_by_name name = bnd (gets box_list) (name_scan name 0)"

fun in_list_scan :: "byte list \<Rightarrow> box_list_t list \<Rightarrow> (broker, int) prog" where
  "in_list_scan name [] = unlock_list_return 0"
| "in_list_scan name (n # ns) =
     thn (defined (\<not> box_freed n \<and> \<not> name_freed n))
    (bnd (strcmp_object (box_name (box n)) name) (\<lambda>equal.
     if equal then unlock_list_return 1 else in_list_scan name ns))"

definition box_in_list :: "byte list \<Rightarrow> (broker, int) prog" where
  "box_in_list name = thn lock_list (bnd (gets box_list) (in_list_scan name))"

section \<open>Messages to subscribers\<close>

text \<open>Opening a subscriber's pipe and sending one message; the pipe is not closed.\<close>

definition send_to_subscriber :: "cstring \<Rightarrow> byte list \<Rightarrow> (broker, int) prog" where
  "send_to_subscriber pipe message =
     bnd (sys_open pipe) (\<lambda>pipe_fd.
     if pipe_fd < 0 then ret (-1)
     else
       bnd (string_in message) (\<lambda>text.
       bnd (mbroker_create_message OP_CODE_SUBSCRIBER_MESSAGE text) (\<lambda>message_to_send.
       bnd (sys_write pipe message_to_send) (\<lambda>num_bytes.
       ret (if num_bytes < 0 then -1 else 0)))))"

fun spread_to :: "byte list \<Rightarrow> subscriber_t list \<Rightarrow> (broker, int) prog" where
  "spread_to message [] = ret 0"
| "spread_to message (x # xs) =
     bnd (send_to_subscriber (sub_named_pipe x) message) (\<lambda>r.
     if r < 0 then ret (-1) else spread_to message xs)"

definition spread_message :: "byte list \<Rightarrow> byte list \<Rightarrow> (broker, int) prog" where
  "spread_message message_to_write publisher_pipe_name =
     bnd (get_box_by_publisher_pipe publisher_pipe_name) (\<lambda>found.
     case found of None \<Rightarrow> ret (-1)
     | Some k \<Rightarrow> bnd (the_box k) (\<lambda>b. spread_to message_to_write (subscribers b)))"

text \<open>\<^verbatim>\<open>tfs_read\<close> into the start of a buffer, which must be large enough.\<close>

definition read_into :: "int \<Rightarrow> nat \<Rightarrow> byte list \<Rightarrow> (broker, int \<times> byte list) prog" where
  "read_into box_fd n buf =
     bnd (in_fs (tfs_read box_fd n)) (\<lambda>(num_bytes, bytes).
     thn (defined (length bytes \<le> length buf))
         (ret (num_bytes, bytes @ drop (length bytes) buf)))"

fun send_old :: "int \<Rightarrow> cstring \<Rightarrow> nat list \<Rightarrow> byte list \<Rightarrow> (broker, int) prog" where
  "send_old box_fd pipe [] message = send_to_subscriber pipe message"
| "send_old box_fd pipe (n # ns) message =
     bnd (send_to_subscriber pipe message) (\<lambda>r.
     if r < 0 then ret (-1)
     else
       bnd (read_into box_fd n (replicate MAX_MESSAGE_SIZE 0)) (\<lambda>(_, message).
       send_old box_fd pipe ns message))"

definition get_old_messages :: "nat \<Rightarrow> cstring \<Rightarrow> (broker, int) prog" where
  "get_old_messages k subscriber_pipe_name =
     bnd (the_box k) (\<lambda>b.
     bnd (in_fs (tfs_open (Some (box_name b)) TFS_O_APPEND)) (\<lambda>box_fd.
     if box_fd < 0 then ret (-1)
     else
       bnd (in_fs (tfs_rewind_offset box_fd)) (\<lambda>r.
       if r < 0 then ret (-1)
       else
         bnd (fresh MAX_MESSAGE_SIZE) (\<lambda>message.
         thn (defined (messages_size b \<noteq> []))
        (bnd (read_into box_fd (hd (messages_size b)) message) (\<lambda>(num_bytes, message).
         if num_bytes < 0 then unlock_list_return (-1)
         else send_old box_fd subscriber_pipe_name (tl (messages_size b)) message))))))"

text \<open>Its first statement after the lock reads a pointer that has no value.\<close>

definition remove_subscriber_from_box :: "nat \<Rightarrow> byte list \<Rightarrow> (broker, int) prog" where
  "remove_subscriber_from_box k client_named_pipe_path =
     thn lock_list (thn (defined False) (ret 0))"

section \<open>Commands\<close>

definition new_box :: "cstring \<Rightarrow> box_list_t" where
  "new_box name = \<lparr>box = \<lparr>box_name = name, subscribers = [], publisher_named_pipe = None,
     num_subscribers = 0, messages_size = []\<rparr>, name_freed = False, box_freed = False\<rparr>"

definition create_box_command :: "byte list \<Rightarrow> (broker, int) prog" where
  "create_box_command name =
     thn lock_list
    (bnd (find_box_by_name name) (\<lambda>found.
     if found \<noteq> None then unlock_list_return (-1)
     else
       bnd (string_in name) (\<lambda>text.
       bnd (in_fs (tfs_open (Some text) TFS_O_CREAT)) (\<lambda>box_fd.
       if box_fd < 0 then unlock_list_return (-1)
       else
         thn (defined (length text < 32))
        (thn (modify (\<lambda>s. s\<lparr>box_list := box_list s @ [new_box text]\<rparr>))
             (unlock_list_return 0))))))"

definition free_name :: "nat \<Rightarrow> (broker, unit) prog" where
  "free_name k = modify (\<lambda>s. s\<lparr>box_list := (box_list s)[k := (box_list s ! k)\<lparr>name_freed := True\<rparr>]\<rparr>)"

definition free_box :: "nat \<Rightarrow> (broker, unit) prog" where
  "free_box k = modify (\<lambda>s. s\<lparr>box_list := (box_list s)[k := (box_list s ! k)\<lparr>box_freed := True\<rparr>]\<rparr>)"

text \<open>
  The loop of \<^verbatim>\<open>remove_box_command\<close>: \<open>Inr\<close> the position of the box if there is one, \<open>Inl\<close> when it
  returned because \<^verbatim>\<open>tfs_unlink\<close> failed.
\<close>

fun remove_scan :: "byte list \<Rightarrow> nat \<Rightarrow> box_list_t list \<Rightarrow> (broker, int + nat option) prog" where
  "remove_scan name k [] = ret (Inr None)"
| "remove_scan name k (n # ns) =
     thn (defined (\<not> box_freed n \<and> \<not> name_freed n))
    (bnd (strcmp_object (box_name (box n)) name) (\<lambda>equal.
     if equal then ret (Inr (Some k))
     else
       thn (free_name k)
      (bnd (string_in name) (\<lambda>text.
       bnd (in_fs (tfs_unlink (Some text))) (\<lambda>r.
       if r < 0 then unlock_list_return (Inl (-1))
       else thn (free_box k) (remove_scan name (Suc k) ns))))))"

definition remove_box_command :: "byte list \<Rightarrow> (broker, int) prog" where
  "remove_box_command name =
     thn lock_list
    (bnd (gets box_list) (\<lambda>l.
     bnd (remove_scan name 0 l) (\<lambda>found.
     case found of
       Inl r \<Rightarrow> ret r
     | Inr None \<Rightarrow> unlock_list_return (-1)
     | Inr (Some k) \<Rightarrow>
         thn (modify (\<lambda>s. s\<lparr>box_list := take k (box_list s) @ drop (Suc k) (box_list s)\<rparr>))
             (unlock_list_return 0))))"

definition register_publisher_command :: "byte list \<Rightarrow> byte list \<Rightarrow> (broker, int) prog" where
  "register_publisher_command client_named_pipe_path name =
     thn lock_list
    (bnd (find_box_by_name name) (\<lambda>found.
     case found of None \<Rightarrow> unlock_list_return (-1)
     | Some k \<Rightarrow>
         bnd (the_box k) (\<lambda>b.
         if publisher_named_pipe b \<noteq> None then unlock_list_return (-1)
         else
           bnd (string_in client_named_pipe_path) (\<lambda>pipe.
           thn (defined (length pipe < 256))
          (thn (set_box k (publisher_named_pipe_update (\<lambda>_. Some pipe)))
               (unlock_list_return 0))))))"

definition remove_publisher_command :: "byte list \<Rightarrow> byte list \<Rightarrow> (broker, int) prog" where
  "remove_publisher_command client_named_pipe_path name =
     thn lock_list
    (bnd (find_box_by_name name) (\<lambda>found.
     case found of None \<Rightarrow> unlock_list_return (-1)
     | Some k \<Rightarrow>
         bnd (the_box k) (\<lambda>b.
         thn (defined (publisher_named_pipe b \<noteq> None))
        (bnd (strcmp_object (the (publisher_named_pipe b)) client_named_pipe_path) (\<lambda>equal.
         if \<not> equal then unlock_list_return (-1)
         else
           thn (set_box k (publisher_named_pipe_update (\<lambda>_. None)))
               (unlock_list_return 0))))))"

text \<open>
  The node of a second subscriber is built but not put into the list, and nothing counts
  subscribers. \<^verbatim>\<open>select\<close> waits until the subscriber's end of the pipe is closed.
\<close>

definition register_subscriber_command :: "byte list \<Rightarrow> byte list \<Rightarrow> (broker, int) prog" where
  "register_subscriber_command client_named_pipe_path name =
     thn lock_list
    (bnd (find_box_by_name name) (\<lambda>found.
     case found of None \<Rightarrow> unlock_list_return (-1)
     | Some k \<Rightarrow>
         bnd (string_in client_named_pipe_path) (\<lambda>pipe.
         bnd (string_in name) (\<lambda>text.
         thn (defined (length pipe < 256 \<and> length text < 32))
        (bnd (the_box k) (\<lambda>b.
         thn (if subscribers b = []
              then set_box k (subscribers_update (\<lambda>_. [\<lparr>sub_named_pipe = pipe, sub_box_name = text\<rparr>]))
              else ret ())
        (bnd (get_old_messages k pipe) (\<lambda>r.
         if r < 0 then unlock_list_return (-1)
         else
           bnd (sys_open pipe) (\<lambda>pipe_fd.
           if pipe_fd = -1 then unlock_list_return (-1)
           else
             bnd (sys_select pipe_fd) (\<lambda>sel.
             if sel = -1 then unlock_list_return (-1)
             else
               thn unlock_list
              (bnd (sys_close pipe_fd) (\<lambda>c. ret (if c = -1 then -1 else 0)))))))))))))"

text \<open>\<^verbatim>\<open>write(fd, object, n)\<close>; the object must have \<open>n\<close> bytes.\<close>

definition write_object :: "cstring \<Rightarrow> byte list \<Rightarrow> nat \<Rightarrow> ('s os_scheme, int) prog" where
  "write_object path bytes n = thn (defined (n \<le> length bytes)) (sys_write path (take n bytes))"

fun list_nodes :: "cstring \<Rightarrow> box_list_t list \<Rightarrow> (broker, int) prog" where
  "list_nodes pipe [] = ret 0"
| "list_nodes pipe (n # ns) =
     thn (defined (\<not> box_freed n \<and> \<not> name_freed n))
    (bnd (create_listing_message (ns = []) (box_name (box n)) (publisher_named_pipe (box n) \<noteq> None))
       (\<lambda>message.
     bnd (write_object pipe message sizeof_pointer) (\<lambda>w.
     if w < 0 then ret (-1) else list_nodes pipe ns)))"

definition list_boxes_command :: "byte list \<Rightarrow> (broker, int) prog" where
  "list_boxes_command manager_pipe_name =
     bnd (string_in manager_pipe_name) (\<lambda>pipe.
     bnd (sys_open pipe) (\<lambda>pipe_fd.
     if pipe_fd < 0 then ret (-1)
     else
       thn lock_list
      (bnd (gets box_list) (\<lambda>l.
       if l = [] then
         bnd create_listing_error_message (\<lambda>message.
         bnd (write_object pipe message 1029) (\<lambda>w.
         unlock_list_return (if w < 0 then -1 else 0)))
       else
         bnd (list_nodes pipe l) (\<lambda>w.
         if w < 0 then unlock_list_return (-1)
         else
           bnd (sys_close pipe_fd) (\<lambda>c. unlock_list_return (if c = -1 then -1 else 0)))))))"

definition write_to_box :: "byte list \<Rightarrow> byte list \<Rightarrow> nat \<Rightarrow> (broker, int) prog" where
  "write_to_box name message message_size =
     bnd (string_in name) (\<lambda>text.
     bnd (in_fs (tfs_open (Some text) TFS_O_APPEND)) (\<lambda>box_fd.
     if box_fd < 0 then ret (-1)
     else
       bnd (in_fs (tfs_write box_fd message message_size)) (\<lambda>num_bytes.
       if num_bytes < 0 then ret (-1)
       else
         bnd (in_fs (tfs_close box_fd)) (\<lambda>c.
         if c < 0 then ret (-1)
         else
           thn lock_list
          (bnd (find_box_by_name name) (\<lambda>found.
           case found of None \<Rightarrow> unlock_list_return (-1)
           | Some k \<Rightarrow>
               thn (set_box k (messages_size_update (\<lambda>l. l @ [message_size])))
                   (unlock_list_return 0)))))))"

section \<open>Sessions\<close>

definition read_publisher_pipe_input :: "int \<Rightarrow> byte list \<Rightarrow> byte list \<Rightarrow> (broker, int) prog" where
  "read_publisher_pipe_input pipe_fd pipe name =
     bnd (sys_select pipe_fd) (\<lambda>sel.
     if sel < 0 then ret (-1)
     else
       bnd (fresh 1) (\<lambda>code.
       bnd (sys_read pipe_fd 1 code) (\<lambda>(num_bytes, code).
       if num_bytes = 0 then ret 1
       else if num_bytes = -1 then ret (-1)
       else if hd code = 9 then
         bnd (fresh 1024) (\<lambda>message.
         bnd (sys_read pipe_fd 1024 message) (\<lambda>(num_bytes, message).
         if num_bytes < 0 then ret (-1)
         else
           bnd (string_in message) (\<lambda>text.
           bnd (write_to_box name message (length text)) (\<lambda>r.
           if r < 0 then ret (-1)
           else
             bnd (spread_message message pipe) (\<lambda>r.
             if r < 0 then ret (-1) else unlock_list_return 0)))))
       else unlock_list_return 0)))"

text \<open>
  The loop of \<^verbatim>\<open>listen_to_publisher\<close>: the last result of \<^verbatim>\<open>read_publisher_pipe_input\<close>. Each round takes
  at least one event, so as many rounds as there are events left, and one, are enough.
\<close>

fun listen_loop :: "nat \<Rightarrow> int \<Rightarrow> byte list \<Rightarrow> byte list \<Rightarrow> (broker, int) prog" where
  "listen_loop 0 pipe_fd pipe name = blocked"
| "listen_loop (Suc fuel) pipe_fd pipe name =
     bnd (read_publisher_pipe_input pipe_fd pipe name) (\<lambda>r.
     if r < 0 \<or> r = 1 then ret r else listen_loop fuel pipe_fd pipe name)"

definition listen_to_publisher :: "byte list \<Rightarrow> byte list \<Rightarrow> (broker, int) prog" where
  "listen_to_publisher pipe_object name =
     bnd (string_in pipe_object) (\<lambda>pipe.
     bnd (sys_open pipe) (\<lambda>pipe_fd.
     if pipe_fd < 0 then ret (-1)
     else
       bnd (gets (\<lambda>s. Suc (length (script s)))) (\<lambda>fuel.
       bnd (listen_loop fuel pipe_fd pipe_object name) (\<lambda>r.
       bnd (sys_close pipe_fd) (\<lambda>c. ret (if r < 0 \<or> c = -1 then -1 else 0))))))"

text \<open>Reading the two fields of a request; the continuation gets the two objects.\<close>

definition read_field :: "int \<Rightarrow> nat \<Rightarrow> (byte list \<Rightarrow> (broker, int) prog) \<Rightarrow> (broker, int) prog" where
  "read_field fd n k =
     bnd (fresh n) (\<lambda>field.
     bnd (sys_read fd n field) (\<lambda>(num_bytes, field).
     if num_bytes < 0 then ret (-1) else k field))"

definition register_publisher :: "int \<Rightarrow> (broker, int) prog" where
  "register_publisher pipe_fd =
     (if pipe_fd < 0 then ret (-1)
      else
        read_field pipe_fd 256 (\<lambda>client_named_pipe_path.
        read_field pipe_fd 32 (\<lambda>name.
        thn (string_in client_named_pipe_path)
       (thn (string_in name)
       (bnd (register_publisher_command client_named_pipe_path name) (\<lambda>r.
        if r < 0 then ret (-1)
        else
          bnd (listen_to_publisher client_named_pipe_path name) (\<lambda>r.
          if r < 0 then ret (-1)
          else if r = 0 then
            bnd (remove_publisher_command client_named_pipe_path name) (\<lambda>r.
            ret (if r < 0 then -1 else 0))
          else ret 0)))))))"

definition register_subscriber :: "int \<Rightarrow> (broker, int) prog" where
  "register_subscriber pipe_fd =
     (if pipe_fd < 0 then ret (-1)
      else
        read_field pipe_fd 256 (\<lambda>client_named_pipe_path.
        read_field pipe_fd 32 (\<lambda>name.
        bnd (register_subscriber_command client_named_pipe_path name) (\<lambda>r.
        ret (if r < 0 then -1 else 0)))))"

text \<open>Opening the client's pipe, sending the first bytes of the answer and closing the pipe.\<close>

definition send_answer :: "byte list \<Rightarrow> byte list \<Rightarrow> (broker, int) prog" where
  "send_answer client_named_pipe_path answer =
     bnd (string_in client_named_pipe_path) (\<lambda>pipe.
     bnd (sys_open pipe) (\<lambda>client_pipe_fd.
     if client_pipe_fd < 0 then ret (-1)
     else
       bnd (write_object pipe answer sizeof_pointer) (\<lambda>w.
       if w < 0 then ret (-1)
       else bnd (sys_close client_pipe_fd) (\<lambda>c. ret (if c < 0 then -1 else 0)))))"

text \<open>The texts \<^verbatim>\<open>failed: could not register box\<close> and \<^verbatim>\<open>failed: could not remove box\<close>.\<close>

definition register_box_error :: cstring where
  "register_box_error = [102, 97, 105, 108, 101, 100, 58, 32, 99, 111, 117, 108, 100, 32, 110, 111,
     116, 32, 114, 101, 103, 105, 115, 116, 101, 114, 32, 98, 111, 120]"

definition remove_box_error :: cstring where
  "remove_box_error = [102, 97, 105, 108, 101, 100, 58, 32, 99, 111, 117, 108, 100, 32, 110, 111,
     116, 32, 114, 101, 109, 111, 118, 101, 32, 98, 111, 120]"

definition register_box :: "int \<Rightarrow> (broker, int) prog" where
  "register_box pipe_fd =
     (if pipe_fd < 0 then ret (-1)
      else
        read_field pipe_fd 256 (\<lambda>client_named_pipe_path.
        read_field pipe_fd 32 (\<lambda>name.
        bnd (create_box_command name) (\<lambda>return_code.
        bnd (create_answer OP_CODE_ANSWER_TO_CREATION return_code register_box_error
               ANSWER_MESSAGE_SIZE)
        (send_answer client_named_pipe_path)))))"

definition mbroker_remove_box :: "int \<Rightarrow> (broker, int) prog" where
  "mbroker_remove_box pipe_fd =
     (if pipe_fd < 0 then ret (-1)
      else
        read_field pipe_fd 256 (\<lambda>client_named_pipe_path.
        read_field pipe_fd 32 (\<lambda>name.
        bnd (remove_box_command name) (\<lambda>return_code.
        bnd (create_answer OP_CODE_ANSWER_TO_REMOVAL return_code remove_box_error
               ANSWER_MESSAGE_SIZE) (\<lambda>answer.
        if return_code < 0 then ret (-1)
        else send_answer client_named_pipe_path answer)))))"

definition list_boxes :: "int \<Rightarrow> (broker, int) prog" where
  "list_boxes pipe_fd =
     (if pipe_fd < 0 then ret (-1)
      else
        read_field pipe_fd 256 (\<lambda>client_named_pipe_path.
        bnd (list_boxes_command client_named_pipe_path) (\<lambda>r. ret (if r < 0 then -1 else 0))))"

definition mbroker_read_pipe_input :: "int \<Rightarrow> (broker, int) prog" where
  "mbroker_read_pipe_input pipe_fd =
     bnd (sys_select pipe_fd) (\<lambda>sel.
     if sel < 0 then ret (-1)
     else
       bnd (fresh 1) (\<lambda>code.
       bnd (sys_read pipe_fd 1 code) (\<lambda>(num_bytes, code).
       if num_bytes = 0 then ret 0
       else if num_bytes = -1 then exit_with 1
       else
         bnd (if hd code = OP_CODE_REGISTER_PUBLISHER then register_publisher pipe_fd
              else if hd code = OP_CODE_REGISTER_SUBSCRIBER then register_subscriber pipe_fd
              else if hd code = OP_CODE_REGISTER_BOX then register_box pipe_fd
              else if hd code = OP_CODE_REMOVE_BOX then mbroker_remove_box pipe_fd
              else if hd code = OP_CODE_BOX_LIST then list_boxes pipe_fd
              else ret (-1)) (\<lambda>r.
         ret (if r < 0 then -1 else 0)))))"

section \<open>Starting and stopping\<close>

text \<open>
  \<open>h\<close> is the heap \<^verbatim>\<open>tfs_init\<close> allocates from, \<open>queue_memory n\<close> what \<^verbatim>\<open>malloc\<close> gives for \<open>n\<close> elements and
  \<open>q\<close> what the memory of the queue holds before.
\<close>

definition init_mbroker ::
  "c_heap \<Rightarrow> (nat \<Rightarrow> nat list option) \<Rightarrow> nat pc_queue_t \<Rightarrow> cstring \<Rightarrow> nat \<Rightarrow> (broker, int) prog" where
  "init_mbroker h queue_memory q register_pipe_name max_sessions =
     bnd (in_fs (tfs_init h None)) (\<lambda>r.
     if r < 0 then ret (-1)
     else
       (case pcq_create (queue_memory max_sessions) max_sessions q of (r, q) \<Rightarrow>
        thn (modify (\<lambda>s. s\<lparr>pc_queue := Some q\<rparr>))
       (if r < 0 then ret (-1)
        else
          bnd (sys_unlink register_pipe_name) (\<lambda>(r, missing).
          if r < 0 \<and> \<not> missing then ret (-1)
          else
            bnd (sys_mkfifo register_pipe_name) (\<lambda>r. ret (if r < 0 then -1 else 0))))))"

definition close_mbroker :: "(broker, int) prog" where
  "close_mbroker =
     bnd (in_fs tfs_destroy) (\<lambda>r.
     if r < 0 then ret (-1)
     else
       bnd (gets pc_queue) (\<lambda>queue.
       thn (defined (queue \<noteq> None))
      (case pcq_destroy (the queue) of (r, q) \<Rightarrow>
         thn (modify (\<lambda>s. s\<lparr>pc_queue := Some q\<rparr>)) (ret (if r < 0 then -1 else 0)))))"

definition mbroker_check_args :: "cstring option \<Rightarrow> nat \<Rightarrow> int" where
  "mbroker_check_args register_pipe_name max_sessions =
     (if register_pipe_name = None \<or> max_sessions = 0 \<or>
         length (the register_pipe_name) > MAX_NAMED_PIPE_SIZE then -1 else 0)"

text \<open>
  \<^verbatim>\<open>atoi\<close>: white space, a sign, digits. A value that is not an \<^verbatim>\<open>int\<close> has no defined result. The cast to
  \<^verbatim>\<open>size_t\<close> is modulo \<open>2 ^ 64\<close>.
\<close>

definition digits_value :: "byte list \<Rightarrow> int" where
  "digits_value bs = foldl (\<lambda>v b. 10 * v + (uint b - 48)) 0 (takeWhile (\<lambda>b. 48 \<le> b \<and> b \<le> 57) bs)"

definition atoi :: "cstring \<Rightarrow> ('s, int) prog" where
  "atoi text =
     (let t = dropWhile (\<lambda>b. b = 32 \<or> 9 \<le> b \<and> b \<le> 13) text;
          v = (if t \<noteq> [] \<and> hd t = 45 then - digits_value (tl t)
               else if t \<noteq> [] \<and> hd t = 43 then digits_value (tl t) else digits_value t) in
      thn (defined (- (2 ^ 31) \<le> v \<and> v < 2 ^ 31)) (ret v))"

text \<open>The loop of \<^verbatim>\<open>main\<close> only ends by an error; nothing after it is reached.\<close>

fun main_loop :: "nat \<Rightarrow> int \<Rightarrow> (broker, int) prog" where
  "main_loop 0 pipe_fd = blocked"
| "main_loop (Suc fuel) pipe_fd =
     bnd (mbroker_read_pipe_input pipe_fd) (\<lambda>r.
     if r < 0 then ret (-1) else main_loop fuel pipe_fd)"

definition mbroker_main ::
  "c_heap \<Rightarrow> (nat \<Rightarrow> nat list option) \<Rightarrow> nat pc_queue_t \<Rightarrow> cstring list \<Rightarrow> (broker, int) prog" where
  "mbroker_main h queue_memory q argv =
     (if length argv \<noteq> 3 then ret (-1)
      else
        bnd (atoi (argv ! 2)) (\<lambda>v.
        let register_pipe_name = argv ! 1; max_sessions = nat (v mod 2 ^ 64) in
        if mbroker_check_args (Some register_pipe_name) max_sessions < 0 then ret (-1)
        else
          bnd (init_mbroker h queue_memory q register_pipe_name max_sessions) (\<lambda>r.
          if r < 0 then ret (-1)
          else
            bnd (sys_open register_pipe_name) (\<lambda>pipe_fd.
            if pipe_fd < 0 then ret (-1)
            else bnd (gets (\<lambda>s. Suc (length (script s)))) (\<lambda>fuel. main_loop fuel pipe_fd)))))"

end
