(* ===== verification/Clients.thy ===== *)
theory Clients imports Protocol begin

text \<open>
  The three clients: \<^verbatim>\<open>publisher/pub.c\<close>, \<^verbatim>\<open>subscriber/sub.c\<close> and \<^verbatim>\<open>manager/manager.c\<close>. Each talks to the
  broker through its pipes only. \<open>argv\<close> starts with the program's name; \<^verbatim>\<open>main\<close> returns its status or
  leaves with \<^verbatim>\<open>exit\<close>. A pipe is written under its name.
\<close>

section \<open>State\<close>

text \<open>What was printed on \<^verbatim>\<open>stdout\<close> and the subscriber's count.\<close>

record client = os +
  printed_lines :: "printed list"
  messages_received :: int

definition print :: "printed list \<Rightarrow> (client, unit) prog" where
  "print ls = modify (\<lambda>s. s\<lparr>printed_lines := printed_lines s @ ls\<rparr>)"

section \<open>Signing in\<close>

definition sign_in :: "byte \<Rightarrow> cstring \<Rightarrow> cstring \<Rightarrow> cstring \<Rightarrow> (client, int) prog" where
  "sign_in code register_pipe_name pipe_name box_name =
     bnd (sys_open register_pipe_name) (\<lambda>pipe_fd.
     if pipe_fd < 0 then ret (-1)
     else
       bnd (client_create_message code pipe_name box_name) (\<lambda>message.
       bnd (sys_write register_pipe_name message) (\<lambda>w.
       if w < 0 then ret (-1)
       else bnd (sys_close pipe_fd) (\<lambda>c. ret (if c < 0 then -1 else 0)))))"

definition pub_sign_in :: "cstring \<Rightarrow> cstring \<Rightarrow> cstring \<Rightarrow> (client, int) prog" where
  "pub_sign_in = sign_in OP_CODE_REGISTER_PUBLISHER"

definition sub_sign_in :: "cstring \<Rightarrow> cstring \<Rightarrow> cstring \<Rightarrow> (client, int) prog" where
  "sub_sign_in = sign_in OP_CODE_REGISTER_SUBSCRIBER"

text \<open>The same function in the publisher and in the subscriber.\<close>

definition client_check_args :: "cstring option \<Rightarrow> cstring option \<Rightarrow> cstring option \<Rightarrow> int" where
  "client_check_args register_pipe_name pipe_name box_name =
     (if register_pipe_name = None \<or> pipe_name = None \<or> box_name = None then -1
      else if length (the register_pipe_name) > MAX_NAMED_PIPE_SIZE then -1
      else if length (the pipe_name) > MAX_NAMED_PIPE_SIZE then -1
      else if length (the box_name) > MAX_BOX_NAME_SIZE then -1
      else 0)"

text \<open>Removing a left-over pipe and making a new one: false when \<^verbatim>\<open>main\<close> gives up.\<close>

definition make_pipe :: "cstring \<Rightarrow> (client, bool) prog" where
  "make_pipe pipe_name =
     bnd (sys_unlink pipe_name) (\<lambda>(r, missing).
     if r < 0 \<and> \<not> missing then ret False
     else bnd (sys_mkfifo pipe_name) (\<lambda>r. ret (\<not> r < 0)))"

section \<open>The publisher\<close>

definition send_message :: "cstring \<Rightarrow> cstring \<Rightarrow> (client, int) prog" where
  "send_message pipe message_written =
     bnd (publisher_message message_written) (\<lambda>message.
     bnd (sys_write pipe message) (\<lambda>w. ret (if w < 0 then -1 else 0)))"

text \<open>
  The loop of \<^verbatim>\<open>main\<close>: the line up to its newline is sent. It is false when sending failed. A round
  takes an event, so one round more than there are events is enough.
\<close>

fun publish_loop :: "nat \<Rightarrow> cstring \<Rightarrow> (client, bool) prog" where
  "publish_loop 0 pipe = blocked"
| "publish_loop (Suc fuel) pipe =
     bnd (fresh 1024) (\<lambda>message.
     bnd (sys_fgets 1024 message) (\<lambda>input.
     case input of None \<Rightarrow> ret True
     | Some message \<Rightarrow>
         bnd (string_in message) (\<lambda>text.
         bnd (send_message pipe (takeWhile (\<lambda>b. b \<noteq> 10) text)) (\<lambda>r.
         if r < 0 then ret False else publish_loop fuel pipe))))"

definition pub_main :: "cstring list \<Rightarrow> (client, int) prog" where
  "pub_main argv =
     (if length argv \<noteq> 4 then ret (-1)
      else
        let register_pipe_name = argv ! 1; pipe_name = argv ! 2; box_name = argv ! 3 in
        if client_check_args (Some register_pipe_name) (Some pipe_name) (Some box_name) < 0 then ret (-1)
        else
          bnd (make_pipe pipe_name) (\<lambda>ok.
          if \<not> ok then ret (-1)
          else
            bnd (pub_sign_in register_pipe_name pipe_name box_name) (\<lambda>r.
            if r < 0 then ret (-1)
            else
              bnd (sys_open pipe_name) (\<lambda>pipe_fd.
              if pipe_fd < 0 then ret (-1)
              else
                bnd (gets (\<lambda>s. Suc (length (script s)))) (\<lambda>fuel.
                bnd (publish_loop fuel pipe_name) (\<lambda>ok.
                if \<not> ok then ret (-1)
                else
                  thn (sys_close pipe_fd)
                 (bnd (sys_unlink pipe_name) (\<lambda>(r, _). ret (if r < 0 then -1 else 0)))))))))"

section \<open>The subscriber\<close>

text \<open>The number of messages goes to \<^verbatim>\<open>stderr\<close>. The signal handler can run at any point of \<^verbatim>\<open>main\<close>.\<close>

definition close_subscriber :: "int \<Rightarrow> (client, 'a) prog" where
  "close_subscriber exit_code = exit_with exit_code"

definition sigint_handler :: "(client, unit) prog" where
  "sigint_handler = close_subscriber 0"

definition sub_read_pipe_input :: "int \<Rightarrow> (client, int) prog" where
  "sub_read_pipe_input pipe_fd =
     bnd (sys_select pipe_fd) (\<lambda>sel.
     if sel < 0 then ret (-1)
     else
       bnd (fresh ANSWER_MESSAGE_SIZE) (\<lambda>answer.
       bnd (sys_read pipe_fd ANSWER_MESSAGE_SIZE answer) (\<lambda>(num_bytes, answer).
       if num_bytes = 0 then ret 0
       else if num_bytes = -1 then exit_with 1
       else if hd answer = 10 then
         bnd (string_in (slice 1 1024 answer)) (\<lambda>text.
         thn (print [Message_line text])
        (bnd (gets messages_received) (\<lambda>n.
         thn (defined (n + 1 < 2 ^ 31))
        (thn (modify (\<lambda>s. s\<lparr>messages_received := n + 1\<rparr>)) (ret 0)))))
       else ret (-1))))"

text \<open>The loop ends by an error only: \<^verbatim>\<open>stop\<close> is set by the signal handler, which exits.\<close>

fun subscribe_loop :: "nat \<Rightarrow> int \<Rightarrow> (client, int) prog" where
  "subscribe_loop 0 pipe_fd = blocked"
| "subscribe_loop (Suc fuel) pipe_fd =
     bnd (sub_read_pipe_input pipe_fd) (\<lambda>r. if r < 0 then ret (-1) else subscribe_loop fuel pipe_fd)"

text \<open>\<^verbatim>\<open>check_args\<close> of the subscriber is that of the publisher again.\<close>

definition sub_check_args :: "cstring option \<Rightarrow> cstring option \<Rightarrow> cstring option \<Rightarrow> int" where
  [simp]: "sub_check_args = client_check_args"

definition sub_main :: "cstring list \<Rightarrow> (client, int) prog" where
  "sub_main argv =
     (if length argv \<noteq> 4 then ret (-1)
      else
        let register_pipe_name = argv ! 1; pipe_name = argv ! 2; box_name = argv ! 3 in
        if sub_check_args (Some register_pipe_name) (Some pipe_name) (Some box_name) < 0 then ret (-1)
        else
          bnd (make_pipe pipe_name) (\<lambda>ok.
          if \<not> ok then ret (-1)
          else
            bnd (sub_sign_in register_pipe_name pipe_name box_name) (\<lambda>r.
            if r < 0 then ret (-1)
            else
              bnd (sys_open pipe_name) (\<lambda>pipe_fd.
              if pipe_fd < 0 then ret (-1)
              else
                bnd (gets (\<lambda>s. Suc (length (script s)))) (\<lambda>fuel. subscribe_loop fuel pipe_fd)))))"

section \<open>The manager\<close>

definition manager_read_pipe_input :: "int \<Rightarrow> (client, int) prog" where
  "manager_read_pipe_input pipe_fd =
     bnd (sys_select pipe_fd) (\<lambda>sel.
     if sel < 0 then ret (-1)
     else
       bnd (fresh ANSWER_MESSAGE_SIZE) (\<lambda>answer.
       bnd (sys_read pipe_fd ANSWER_MESSAGE_SIZE answer) (\<lambda>(num_bytes, answer).
       if num_bytes = 0 then ret 0
       else if num_bytes = -1 then exit_with 1
       else
         bnd (process_command answer) (\<lambda>(r, ls).
         thn (print ls) (ret (if r < 0 then -1 else 1))))))"

text \<open>Sending the first \<open>n\<close> bytes of a request.\<close>

definition manager_request ::
  "cstring \<Rightarrow> (client, byte list) prog \<Rightarrow> nat \<Rightarrow> (client, int) prog" where
  "manager_request register_pipe_name create n =
     bnd (sys_open register_pipe_name) (\<lambda>pipe_fd.
     if pipe_fd < 0 then ret (-1)
     else
       bnd create (\<lambda>message.
       thn (defined (n \<le> length message))
      (bnd (sys_write register_pipe_name (take n message)) (\<lambda>w.
       if w < 0 then ret (-1)
       else bnd (sys_close pipe_fd) (\<lambda>c. ret (if c = -1 then -1 else 0))))))"

definition list_boxes_request :: "cstring \<Rightarrow> cstring \<Rightarrow> (client, int) prog" where
  "list_boxes_request register_pipe_name named_pipe =
     manager_request register_pipe_name
       (manager_create_message OP_CODE_BOX_LIST named_pipe None BOX_LIST_MESSAGE_SIZE)
       BOX_LIST_MESSAGE_SIZE"

definition register_box_request :: "cstring \<Rightarrow> cstring \<Rightarrow> cstring \<Rightarrow> (client, int) prog" where
  "register_box_request register_pipe_name named_pipe box_name =
     manager_request register_pipe_name
       (manager_create_message OP_CODE_REGISTER_BOX named_pipe (Some box_name) BOX_MESSAGE_SIZE)
       BOX_MESSAGE_SIZE"

definition manager_remove_box :: "cstring \<Rightarrow> cstring \<Rightarrow> cstring \<Rightarrow> (client, int) prog" where
  "manager_remove_box register_pipe_name named_pipe box_name =
     manager_request register_pipe_name
       (manager_create_message 5 named_pipe (Some box_name) BOX_MESSAGE_SIZE)
       sizeof_pointer"

definition manager_check_args :: "cstring option \<Rightarrow> cstring option \<Rightarrow> int" where
  "manager_check_args register_pipe_name named_pipe =
     (if register_pipe_name = None then -1
      else if named_pipe = None then -1
      else if length (the register_pipe_name) > MAX_NAMED_PIPE_SIZE \<or>
              length (the named_pipe) > MAX_NAMED_PIPE_SIZE then -1
      else 0)"

fun manager_loop :: "nat \<Rightarrow> int \<Rightarrow> (client, unit) prog" where
  "manager_loop 0 pipe_fd = blocked"
| "manager_loop (Suc fuel) pipe_fd =
     bnd (manager_read_pipe_input pipe_fd) (\<lambda>r.
     if r = -1 then exit_with 1 else if r = 1 then ret () else manager_loop fuel pipe_fd)"

text \<open>The words \<^verbatim>\<open>create\<close> and \<^verbatim>\<open>remove\<close>.\<close>

definition create_word :: cstring where
  "create_word = [99, 114, 101, 97, 116, 101]"

definition remove_word :: cstring where
  "remove_word = [114, 101, 109, 111, 118, 101]"

definition manager_main :: "cstring list \<Rightarrow> (client, int) prog" where
  "manager_main argv =
     (if length argv < 4 then exit_with 1
      else
        let register_pipe_name = argv ! 1; pipe_name = argv ! 2; command = argv ! 3 in
        if manager_check_args (Some register_pipe_name) (Some pipe_name) = -1 then ret (-1)
        else
          bnd (make_pipe pipe_name) (\<lambda>ok.
          if \<not> ok then exit_with 1
          else
            thn (if length argv > 4 then
                   let box_name = argv ! 4 in
                   if length box_name > MAX_BOX_NAME_SIZE then exit_with 1
                   else if command = create_word then
                     thn (register_box_request register_pipe_name pipe_name box_name) (ret ())
                   else if command = remove_word then
                     thn (manager_remove_box register_pipe_name pipe_name box_name) (ret ())
                   else ret ()
                 else thn (list_boxes_request register_pipe_name pipe_name) (ret ()))
           (bnd (sys_open pipe_name) (\<lambda>pipe_fd.
            if pipe_fd < 0 then exit_with 1
            else
              bnd (gets (\<lambda>s. Suc (length (script s)))) (\<lambda>fuel.
              thn (manager_loop fuel pipe_fd)
             (bnd (sys_close pipe_fd) (\<lambda>c.
              if c = -1 then exit_with 1
              else
                bnd (sys_unlink pipe_name) (\<lambda>(r, _).
                if r < 0 then exit_with 1 else ret 0))))))))"

end
