(* ===== verification/Broker_Inv.thy ===== *)
theory Broker_Inv imports Broker Keeps Fs_Keep begin

text \<open>
  What every operation of the broker keeps, whatever its clients send and the kernel answers. The
  locale \<open>broker_invariant\<close> says what a property of the state must survive (a system call, a call of
  the file system, one of the changes the commands make to the list of boxes) and derives that it
  survives every operation. Its interpretations are the broker's invariant, the supply of events that
  only shrinks and the record of sent messages that only grows.
\<close>

section \<open>Changes to the list of boxes\<close>

inductive list_step :: "box_list_t list \<Rightarrow> box_list_t list \<Rightarrow> bool" where
  append_box: "is_cstring x \<Longrightarrow> length x < 32 \<Longrightarrow> x \<notin> set (map (box_name \<circ> box) l) \<Longrightarrow>
    list_step l (l @ [new_box x])"
| set_publisher: "list_step l (l[k := box_update (publisher_named_pipe_update (\<lambda>_. p)) (l ! k)])"
| set_subscriber: "list_step l (l[k := box_update (subscribers_update (\<lambda>_. [x])) (l ! k)])"
| add_size: "n < 1024 \<Longrightarrow> list_step l (l[k := box_update (messages_size_update (\<lambda>ns. ns @ [n])) (l ! k)])"
| free_the_name: "list_step l (l[k := (l ! k)\<lparr>name_freed := True\<rparr>])"
| free_the_box: "list_step l (l[k := (l ! k)\<lparr>box_freed := True\<rparr>])"
| unlink_box: "list_step l (take k l @ drop (Suc k) l)"

inductive_cases list_stepE: "list_step l l'"

text \<open>Names are strings that fit their memory, no two boxes have the same.\<close>

definition node_ok :: "box_list_t \<Rightarrow> bool" where
  "node_ok n \<longleftrightarrow> is_cstring (box_name (box n)) \<and> length (box_name (box n)) < 32 \<and>
     length (subscribers (box n)) \<le> 1 \<and> num_subscribers (box n) = 0 \<and>
     (\<forall>k\<in>set (messages_size (box n)). k < 1024)"

definition nodes_ok :: "box_list_t list \<Rightarrow> bool" where
  "nodes_ok l \<longleftrightarrow> list_all node_ok l \<and> distinct (map (box_name \<circ> box) l)"

lemma node_ok_updates [simp]:
  "node_ok (new_box x) \<longleftrightarrow> is_cstring x \<and> length x < 32"
  "node_ok (box_update (publisher_named_pipe_update p) n) = node_ok n"
  "node_ok n \<Longrightarrow> node_ok (box_update (subscribers_update (\<lambda>_. [y])) n)"
  "node_ok n \<Longrightarrow> i < 1024 \<Longrightarrow> node_ok (box_update (messages_size_update (\<lambda>ns. ns @ [i])) n)"
  "node_ok (n\<lparr>name_freed := b\<rparr>) = node_ok n"
  "node_ok (n\<lparr>box_freed := b\<rparr>) = node_ok n"
  by (auto simp: node_ok_def new_box_def)

lemma box_name_new_box [simp]: "box_name (box (new_box x)) = x"
  by (simp add: new_box_def)

lemma names_update:
  "box_name (box n) = box_name (box (l ! k)) \<Longrightarrow> map (box_name \<circ> box) (l[k := n]) = map (box_name \<circ> box) l"
  by (cases "k < length l") (auto simp: map_update list_update_same_conv list_update_beyond)

lemma node_update: "nodes_ok l \<Longrightarrow> (k < length l \<Longrightarrow> node_ok (l ! k) \<Longrightarrow> node_ok n) \<Longrightarrow>
   box_name (box n) = box_name (box (l ! k)) \<Longrightarrow> nodes_ok (l[k := n])"
  unfolding nodes_ok_def
  by (cases "k < length l")
    (auto simp: names_update list_all_length nth_list_update)

lemma nodes_ok_step: "list_step l l' \<Longrightarrow> nodes_ok l \<Longrightarrow> nodes_ok l'"
proof (induction rule: list_step.induct)
  case (append_box x l)
  then show ?case by (auto simp: nodes_ok_def)
next
  case (unlink_box l k)
  have "l = take k l @ drop k l" by simp
  with unlink_box show ?case
    by (auto simp: nodes_ok_def list_all_iff dest: in_set_takeD in_set_dropD
        simp flip: drop_map take_map intro!: distinct_take distinct_drop
        dest: set_take_disj_set_drop_if_distinct [where i = k and j = "Suc k"])
qed (auto intro!: node_update)

section \<open>The locale\<close>

lemma keeps_strcmp_object: "keeps I (strcmp_object x buf) (\<lambda>r. r = (x = cstr buf))"
  by (auto simp: keeps_def strcmp_object_def bnd_def defined_def ret_def split: if_splits)

locale broker_invariant = system_invariant I for I :: "broker \<Rightarrow> bool" +
  assumes nodes: "I s \<Longrightarrow> nodes_ok (box_list s)"
    and mutex: "I s \<Longrightarrow> I (s\<lparr>box_list_mutex := b\<rparr>)"
    and calls: "I s \<Longrightarrow> call_ok c \<Longrightarrow> run_call c (tfs s) = Ret (r, t) \<Longrightarrow> I (s\<lparr>tfs := t\<rparr>)"
    and boxes: "I s \<Longrightarrow> list_step (box_list s) l \<Longrightarrow> I (s\<lparr>box_list := l\<rparr>)"
begin

lemma keeps_call: "call_ok c \<Longrightarrow> keeps I (in_fs (run_call c)) (\<lambda>_. True)"
  by (auto simp: keeps_def in_fs_def intro: calls split: outcome.splits)

lemma keeps_fs:
  "is_cstring x \<Longrightarrow> keeps I (in_fs (tfs_open (Some x) mode)) (\<lambda>_. True)"
  "is_cstring x \<Longrightarrow> keeps I (in_fs (tfs_unlink (Some x))) (\<lambda>_. True)"
  "keeps I (in_fs (tfs_close h)) (\<lambda>_. True)"
  "keeps I (in_fs (tfs_rewind_offset h)) (\<lambda>_. True)"
  "len \<le> length buf \<Longrightarrow> keeps I (in_fs (tfs_write h buf len)) (\<lambda>_. True)"
  using keeps_call [of "Open (Some x) mode"] keeps_call [of "Unlink (Some x)"]
    keeps_call [of "Close h"] keeps_call [of "Rewind h"] keeps_call [of "Write h buf len"]
  by (simp_all add: name_ok_def)

lemma keeps_fs_read: "keeps I (in_fs (tfs_read h len)) (\<lambda>_. True)"
proof (rule keepsI)
  fix s x t
  assume I: "I s" and r: "in_fs (tfs_read h len) s = Ret (x, t)"
  then obtain u where u: "tfs_read h len (tfs s) = Ret (x, u)" "t = s\<lparr>tfs := u\<rparr>"
    by (auto simp: in_fs_def split: outcome.splits)
  then have "run_call (Read h len) (tfs s) = Ret (fst x, u)"
    by (simp add: bnd_def ret_def split: prod.splits)
  from calls [OF I _ this] u(2) show "I t \<and> True" by simp
qed

lemma keeps_list_mutex:
  "keeps I lock_list (\<lambda>_. True)" "keeps I unlock_list (\<lambda>_. True)"
  "keeps I (unlock_list_return v) (\<lambda>_. True)"
  by (auto simp: keeps_def lock_list_def unlock_list_def unlock_list_return_def bnd_def modify_def
      ret_def mutex split: if_splits)

lemma keeps_boxes:
  "keeps I (set_box k (publisher_named_pipe_update (\<lambda>_. p))) (\<lambda>_. True)"
  "keeps I (set_box k (subscribers_update (\<lambda>_. [x]))) (\<lambda>_. True)"
  "n < 1024 \<Longrightarrow> keeps I (set_box k (messages_size_update (\<lambda>l. l @ [n]))) (\<lambda>_. True)"
  "keeps I (free_name k) (\<lambda>_. True)" "keeps I (free_box k) (\<lambda>_. True)"
  "keeps I (modify (\<lambda>s. s\<lparr>box_list := take k (box_list s) @ drop (Suc k) (box_list s)\<rparr>)) (\<lambda>_. True)"
  unfolding set_box_def free_name_def free_box_def
  by (auto intro!: keeps_modify boxes list_step.intros)

lemma keeps_the_box: "keeps I (the_box k) (\<lambda>b. is_cstring (box_name b))"
  by (auto simp: keeps_def the_box_def ret_def nodes_ok_def node_ok_def list_all_length
      dest!: nodes split: if_splits)

lemma keeps_write_object: "keeps I (write_object path bytes n) (\<lambda>_. True)"
  unfolding write_object_def by (intro sys_intros)

lemmas ops = keeps_strcmp_object keeps_write_object keeps_fs keeps_fs_read keeps_list_mutex
  keeps_boxes keeps_the_box

lemmas op_intros = sys_intros ops [THEN keeps_bnd] ops [THEN keeps_true]

end

section \<open>Every operation keeps it\<close>

context broker_invariant begin

lemma keeps_scans:
  "keeps I (publisher_scan p k l) (\<lambda>_. True)" "keeps I (name_scan name k l) (\<lambda>_. True)"
  "keeps I (in_list_scan name l) (\<lambda>_. True)" "keeps I (remove_scan name k l) (\<lambda>_. True)"
proof -
  show "keeps I (publisher_scan p k l) (\<lambda>_. True)"
    by (induction l arbitrary: k) (auto intro!: op_intros simp del: prog_simps)
  show "keeps I (name_scan name k l) (\<lambda>_. True)"
    by (induction l arbitrary: k) (auto intro!: op_intros simp del: prog_simps)
  show "keeps I (in_list_scan name l) (\<lambda>_. True)"
    by (induction l) (auto intro!: op_intros simp del: prog_simps)
  show "keeps I (remove_scan name k l) (\<lambda>_. True)"
    by (induction l arbitrary: k) (auto intro!: op_intros simp del: prog_simps)
qed

lemma keeps_searches:
  "keeps I (get_box_by_publisher_pipe p) (\<lambda>_. True)" "keeps I (find_box_by_name name) (\<lambda>_. True)"
  "keeps I (box_in_list name) (\<lambda>_. True)"
  unfolding get_box_by_publisher_pipe_def find_box_by_name_def box_in_list_def
  by (intro op_intros keeps_scans keeps_scans [THEN keeps_bnd])+

lemmas more_intros = op_intros keeps_scans
  keeps_scans [THEN keeps_bnd] keeps_searches keeps_searches [THEN keeps_bnd]

lemma keeps_send_to_subscriber: "keeps I (send_to_subscriber pipe m) (\<lambda>_. True)"
  unfolding send_to_subscriber_def by (intro more_intros)

lemma keeps_spread_to: "keeps I (spread_to m xs) (\<lambda>_. True)"
  by (induction xs) (auto intro!: more_intros keeps_send_to_subscriber [THEN keeps_bnd] simp del: prog_simps)

lemma keeps_spread_message: "keeps I (spread_message m p) (\<lambda>_. True)"
  unfolding spread_message_def by (intro more_intros keeps_spread_to)

lemma keeps_read_into: "keeps I (read_into h n buf) (\<lambda>_. True)"
  unfolding read_into_def by (intro more_intros)

lemma keeps_send_old: "keeps I (send_old h pipe ns m) (\<lambda>_. True)"
  by (induction ns arbitrary: m)
    (auto intro!: more_intros keeps_send_to_subscriber keeps_send_to_subscriber [THEN keeps_bnd]
      keeps_read_into [THEN keeps_bnd] simp del: prog_simps)

lemma keeps_get_old_messages: "keeps I (get_old_messages k pipe) (\<lambda>_. True)"
  unfolding get_old_messages_def
  by (intro more_intros keeps_send_old keeps_read_into [THEN keeps_bnd])

end

lemma name_scan_unchanged: "name_scan name k l s = Ret (r, t) \<Longrightarrow> t = s"
  by (induction l arbitrary: k) (auto simp: bnd_def strcmp_object_def defined_def ret_def split: if_splits)

lemma name_scan_None:
  "name_scan name k l s = Ret (None, t) \<Longrightarrow> cstr name \<notin> set (map (box_name \<circ> box) l)"
  by (induction l arbitrary: k) (auto simp: bnd_def strcmp_object_def defined_def ret_def split: if_splits)

context broker_invariant begin

lemma keeps_create_box_command: "keeps I (create_box_command name) (\<lambda>_. True)"
proof (rule keepsI)
  fix s r t
  assume I: "I s" and run: "create_box_command name s = Ret (r, t)"
  let ?s = "s\<lparr>box_list_mutex := True\<rparr>"
  from run obtain found where m: "\<not> box_list_mutex s"
    and found: "name_scan name 0 (box_list s) ?s = Ret (found, ?s)"
    by (auto simp: create_box_command_def bnd_def lock_list_def find_box_by_name_def gets_def
        dest: name_scan_unchanged split: if_splits outcome.splits)
  show "I t \<and> True"
  proof (cases "found = None \<and> 0 \<in> set name")
    case False
    with run m found show ?thesis
      by (auto simp: create_box_command_def bnd_def lock_list_def find_box_by_name_def gets_def
          string_in_def defined_def unlock_list_return_def unlock_list_def modify_def ret_def
          intro: mutex [OF I] split: if_splits)
  next
    case True
    with run m found obtain h u where open_box: "tfs_open (Some (cstr name)) TFS_O_CREAT (tfs s) = Ret (h, u)"
      and t: "t = s\<lparr>box_list_mutex := False, tfs := u,
          box_list := if h < 0 then box_list s else box_list s @ [new_box (cstr name)]\<rparr>"
      and len: "\<not> h < 0 \<Longrightarrow> length (cstr name) < 32"
      by (auto simp: create_box_command_def bnd_def lock_list_def find_box_by_name_def gets_def
          string_in_def defined_def unlock_list_return_def unlock_list_def modify_def ret_def in_fs_def
          split: if_splits outcome.splits)
    have "I (s\<lparr>box_list_mutex := False, tfs := u\<rparr>)"
      using calls [OF mutex [OF I, of False], where c = "Open (Some (cstr name)) TFS_O_CREAT"] open_box
      by (simp add: name_ok_def)
    moreover have "list_step (box_list s) (box_list s @ [new_box (cstr name)])" if "\<not> h < 0"
      using name_scan_None [of name 0 "box_list s" ?s ?s] found True len [OF that]
      by (intro append_box) simp_all
    ultimately show ?thesis
      using boxes [of "s\<lparr>box_list_mutex := False, tfs := u\<rparr>"] t by auto
  qed
qed

lemma keeps_remove_box_command: "keeps I (remove_box_command name) (\<lambda>_. True)"
  unfolding remove_box_command_def
  by (intro more_intros)

lemma keeps_publisher_commands:
  "keeps I (register_publisher_command p name) (\<lambda>_. True)"
  "keeps I (remove_publisher_command p name) (\<lambda>_. True)"
  unfolding register_publisher_command_def remove_publisher_command_def
  by (intro more_intros)+

lemma keeps_register_subscriber_command: "keeps I (register_subscriber_command p name) (\<lambda>_. True)"
  unfolding register_subscriber_command_def
  by (intro more_intros keeps_get_old_messages [THEN keeps_bnd])

lemma keeps_list_nodes: "keeps I (list_nodes pipe l) (\<lambda>_. True)"
  by (induction l) (auto intro!: more_intros simp del: prog_simps)

lemma keeps_list_boxes_command: "keeps I (list_boxes_command p) (\<lambda>_. True)"
  unfolding list_boxes_command_def
  by (intro more_intros keeps_list_nodes [THEN keeps_bnd])

lemma keeps_write_to_box: "n < 1024 \<Longrightarrow> n \<le> length m \<Longrightarrow> keeps I (write_to_box name m n) (\<lambda>_. True)"
  unfolding write_to_box_def
  by (intro more_intros) simp_all

lemmas command_ops = keeps_spread_message keeps_create_box_command keeps_remove_box_command
  keeps_publisher_commands keeps_register_subscriber_command keeps_list_boxes_command
  keeps_write_to_box

lemmas command_intros = more_intros command_ops command_ops [THEN keeps_bnd]

lemma keeps_read_publisher_pipe_input: "keeps I (read_publisher_pipe_input fd p name) (\<lambda>_. True)"
  unfolding read_publisher_pipe_input_def
  by (intro command_intros) (auto dest: length_cstr)

lemma keeps_listen_loop: "keeps I (listen_loop fuel fd p name) (\<lambda>_. True)"
  by (induction fuel)
    (auto intro!: command_intros keeps_read_publisher_pipe_input [THEN keeps_bnd] simp del: prog_simps)

lemma keeps_listen_to_publisher: "keeps I (listen_to_publisher p name) (\<lambda>_. True)"
  unfolding listen_to_publisher_def
  by (intro command_intros keeps_listen_loop [THEN keeps_bnd])

lemma keeps_read_field: "(\<And>b. keeps I (k b) (\<lambda>_. True)) \<Longrightarrow> keeps I (read_field fd n k) (\<lambda>_. True)"
  unfolding read_field_def by (intro command_intros)

lemma keeps_send_answer: "keeps I (send_answer p answer) (\<lambda>_. True)"
  unfolding send_answer_def by (intro command_intros)

lemma keeps_sessions:
  "keeps I (register_publisher fd) (\<lambda>_. True)" "keeps I (register_subscriber fd) (\<lambda>_. True)"
  "keeps I (register_box fd) (\<lambda>_. True)" "keeps I (mbroker_remove_box fd) (\<lambda>_. True)"
  "keeps I (list_boxes fd) (\<lambda>_. True)"
  unfolding register_publisher_def register_subscriber_def register_box_def mbroker_remove_box_def
    list_boxes_def
  by (intro command_intros keeps_read_field keeps_listen_to_publisher [THEN keeps_bnd]
      keeps_send_answer)+

lemma keeps_read_pipe_input: "keeps I (mbroker_read_pipe_input fd) (\<lambda>_. True)"
  unfolding mbroker_read_pipe_input_def
  by (intro command_intros keeps_sessions [THEN keeps_bnd])

lemma keeps_main_loop: "keeps I (main_loop fuel fd) (\<lambda>_. True)"
  by (induction fuel)
    (auto intro!: command_intros keeps_read_pipe_input [THEN keeps_bnd] simp del: prog_simps)

text \<open>A session waits for its pipe first: what holds after \<^verbatim>\<open>select\<close> holds at its end.\<close>

lemma read_publisher_pipe_input_after:
  assumes "read_publisher_pipe_input fd p name s = Ret (r, t)"
    and "\<And>x u. sys_select fd s = Ret (x, u) \<Longrightarrow> I u"
  shows "I t"
  by (rule keeps_after [OF assms(1) [unfolded read_publisher_pipe_input_def]], erule assms(2),
      intro command_intros) (auto dest: length_cstr)

lemma read_pipe_input_after:
  assumes "mbroker_read_pipe_input fd s = Ret (r, t)"
    and "\<And>x u. sys_select fd s = Ret (x, u) \<Longrightarrow> I u"
  shows "I t"
  by (rule keeps_after [OF assms(1) [unfolded mbroker_read_pipe_input_def]], erule assms(2),
      intro command_intros keeps_sessions [THEN keeps_bnd])

end

section \<open>The broker's invariant\<close>

definition broker_inv :: "broker \<Rightarrow> bool" where
  "broker_inv s \<longleftrightarrow> fs_inv (tfs s) \<and> nodes_ok (box_list s)"

interpretation inv: broker_invariant broker_inv
  by unfold_locales (auto simp: broker_inv_def intro: run_call_inv nodes_ok_step)

text \<open>
  Whatever runs, there are at most \<open>n\<close> events left; what was sent starts with \<open>p\<close>;
  the memory without a value is \<open>m\<close>.
\<close>

interpretation events: broker_invariant "\<lambda>s. nodes_ok (box_list s) \<and> length (script s) \<le> n" for n
  by unfold_locales (auto intro: nodes_ok_step)

interpretation history: broker_invariant "\<lambda>s. nodes_ok (box_list s) \<and> (\<exists>q. sent s = p @ q)" for p
  by unfold_locales (auto intro: nodes_ok_step)

interpretation memory: broker_invariant "\<lambda>s. nodes_ok (box_list s) \<and> uninit s = m" for m
  by unfold_locales (auto intro: nodes_ok_step)

section \<open>Loops end\<close>

lemma sys_select_takes_event:
  "sys_select fd s = Ret (x, u) \<Longrightarrow> length (script s) = Suc (length (script u)) \<and> box_list u = box_list s"
  by (auto simp: sys_select_def sys_result_def next_event_def bnd_def ret_def blocked_def defined_def
      split: list.splits os_event.splits if_splits)

lemma round_takes_event:
  assumes "nodes_ok (box_list s)"
    and "mbroker_read_pipe_input fd s = Ret (r, t) \<or> read_publisher_pipe_input fd' p name s = Ret (r, t)"
  shows "nodes_ok (box_list t) \<and> length (script t) < length (script s)"
proof -
  have "nodes_ok (box_list u) \<and> length (script u) \<le> length (script s) - 1 \<and> script s \<noteq> []"
    if "sys_select f s = Ret (x, u)" for f x u
    using sys_select_takes_event [OF that] assms(1) by auto
  moreover from assms(2) have "script s \<noteq> []"
    by (auto simp: mbroker_read_pipe_input_def read_publisher_pipe_input_def sys_select_def
        sys_result_def next_event_def bnd_def defined_def split: list.splits if_splits)
  ultimately show ?thesis
    using assms(2) events.read_pipe_input_after [of fd s r t "length (script s) - 1"]
      events.read_publisher_pipe_input_after [of fd' p name s r t "length (script s) - 1"]
    by (cases "script s") auto
qed

lemma main_loop_fuel:
  "nodes_ok (box_list s) \<Longrightarrow> length (script s) < f \<Longrightarrow> length (script s) < g \<Longrightarrow>
   main_loop f fd s = main_loop g fd s"
proof (induction f arbitrary: g s)
  case 0
  then show ?case by simp
next
  case (Suc f)
  then obtain g' where g: "g = Suc g'" by (cases g) auto
  have "main_loop f fd t = main_loop g' fd t" if "mbroker_read_pipe_input fd s = Ret (r, t)" for r t
    using round_takes_event [OF Suc.prems(1)] that Suc.prems(2,3) g by (intro Suc.IH) fastforce+
  then show ?case
    unfolding g main_loop.simps by (auto simp: bnd_def split: outcome.splits)
qed

lemma listen_loop_fuel:
  "nodes_ok (box_list s) \<Longrightarrow> length (script s) < f \<Longrightarrow> length (script s) < g \<Longrightarrow>
   listen_loop f fd p name s = listen_loop g fd p name s"
proof (induction f arbitrary: g s)
  case 0
  then show ?case by simp
next
  case (Suc f)
  then obtain g' where g: "g = Suc g'" by (cases g) auto
  have "listen_loop f fd p name t = listen_loop g' fd p name t"
    if "read_publisher_pipe_input fd p name s = Ret (r, t)" for r t
    using round_takes_event [OF Suc.prems(1)] that Suc.prems(2,3) g by (intro Suc.IH) fastforce+
  then show ?case
    unfolding g listen_loop.simps by (auto simp: bnd_def split: outcome.splits)
qed

end
