(* ===== verification/Broker_Mutex.thy ===== *)
theory Broker_Mutex imports Broker_Inv begin

text \<open>
  The mutex of the list of boxes is free between requests: every command that locks it unlocks it on
  every path on which it returns.
\<close>

interpretation free: system_invariant "\<lambda>s. \<not> box_list_mutex s"
  by unfold_locales auto

text \<open>The mutex is free at the end, wherever the code starts.\<close>

definition releases :: "(broker, 'a) prog \<Rightarrow> bool" where
  "releases m \<longleftrightarrow> (\<forall>s x t. m s = Ret (x, t) \<longrightarrow> \<not> box_list_mutex t)"

abbreviation keeps_free :: "(broker, 'a) prog \<Rightarrow> ('a \<Rightarrow> bool) \<Rightarrow> bool" where
  "keeps_free \<equiv> keeps (\<lambda>s. \<not> box_list_mutex s)"

lemma releases_unlock: "releases (unlock_list_return v)" "releases unlock_list"
  by (auto simp: releases_def unlock_list_return_def unlock_list_def ret_def modify_def bnd_def)

lemma releases_bnd: "(\<And>x. releases (f x)) \<Longrightarrow> releases (bnd m f)"
  unfolding releases_def by (metis bnd_RetE)

lemma releases_first:
  assumes "releases m" and "\<And>x. keeps_free (f x) (\<lambda>_. True)"
  shows "releases (bnd m f)"
  using assms unfolding releases_def keeps_def by (metis bnd_RetE)

lemma releases_unlock_then:
  "keeps_free m (\<lambda>_. True) \<Longrightarrow> releases (thn unlock_list m)"
  by (rule releases_first [OF releases_unlock(2)])

lemma releases_cases:
  "(c \<Longrightarrow> releases a) \<Longrightarrow> (\<not> c \<Longrightarrow> releases b) \<Longrightarrow> releases (if c then a else b)"
  "releases n \<Longrightarrow> (\<And>k. releases (h k)) \<Longrightarrow> releases (case opt of None \<Rightarrow> n | Some k \<Rightarrow> h k)"
  "(\<And>x y. releases (g x y)) \<Longrightarrow> releases (case p of (x, y) \<Rightarrow> g x y)"
  by (auto split: option.splits prod.splits)

lemma locked_command: "releases m \<Longrightarrow> keeps_free (thn lock_list m) (\<lambda>_. True)"
  by (rule keepsI) (auto simp: releases_def lock_list_def bnd_def split: if_splits)

lemma keeps_free_in_fs: "keeps_free (in_fs m) (\<lambda>_. True)"
  by (auto simp: keeps_def in_fs_def split: outcome.splits)

lemma keeps_free_ops:
  "keeps_free unlock_list (\<lambda>_. True)" "keeps_free (unlock_list_return v) (\<lambda>_. True)"
  "keeps_free (the_box k) (\<lambda>_. True)" "keeps_free (write_object path bytes n) (\<lambda>_. True)"
  "keeps_free (strcmp_object x buf) (\<lambda>_. True)"
  by (auto simp: keeps_def unlock_list_return_def unlock_list_def the_box_def ret_def modify_def
      strcmp_object_def write_object_def bnd_def gets_def defined_def
      split: if_splits dest: keepsD [OF free.keeps_sys_write])

lemmas releases_intros = releases_cases releases_unlock releases_bnd

section \<open>Commands\<close>

lemma releases_scans: "releases (in_list_scan name l)"
  by (induction l) (auto intro!: releases_intros simp del: prog_simps)

text \<open>The loop of \<^verbatim>\<open>remove_box_command\<close> unlocks before it returns.\<close>

lemma remove_scan_returned: "remove_scan name k l s = Ret (Inl r, t) \<Longrightarrow> \<not> box_list_mutex t"
proof (induction l arbitrary: k s)
  case Nil
  then show ?case by (simp add: ret_def)
next
  case (Cons n l)
  then show ?case
    by (auto simp: bnd_def strcmp_object_def defined_def ret_def free_name_def free_box_def
        modify_def string_in_def unlock_list_return_def unlock_list_def in_fs_def
        split: if_splits outcome.splits)
qed

lemma keeps_free_remove_box_command: "keeps_free (remove_box_command name) (\<lambda>_. True)"
  unfolding remove_box_command_def
proof (rule locked_command, rule releases_bnd)
  fix l
  show "releases (bnd (remove_scan name 0 l) (\<lambda>found.
     case found of
       Inl r \<Rightarrow> ret r
     | Inr None \<Rightarrow> unlock_list_return (-1)
     | Inr (Some k) \<Rightarrow>
         thn (modify (\<lambda>s. s\<lparr>box_list := take k (box_list s) @ drop (Suc k) (box_list s)\<rparr>))
             (unlock_list_return 0)))"
    unfolding releases_def
    by (auto simp: ret_def unlock_list_return_def unlock_list_def modify_def bnd_def
        dest: remove_scan_returned split: sum.splits option.splits outcome.splits)
qed

lemma keeps_free_searches:
  "keeps_free (get_box_by_publisher_pipe p) (\<lambda>_. True)" "keeps_free (box_in_list name) (\<lambda>_. True)"
  unfolding get_box_by_publisher_pipe_def box_in_list_def
  by (intro locked_command releases_bnd releases_scans releases_unlock)+

lemma keeps_free_commands:
  "keeps_free (create_box_command name) (\<lambda>_. True)"
  "keeps_free (register_publisher_command p name) (\<lambda>_. True)"
  "keeps_free (remove_publisher_command p name) (\<lambda>_. True)"
  unfolding create_box_command_def register_publisher_command_def remove_publisher_command_def
  by (intro locked_command releases_intros)+

lemma keeps_free_register_subscriber_command:
  "keeps_free (register_subscriber_command p name) (\<lambda>_. True)"
  unfolding register_subscriber_command_def
  by (rule locked_command, (rule releases_unlock_then releases_cases releases_unlock releases_bnd)+,
      intro free.sys_intros)

text \<open>The same for what sends and lists.\<close>

lemma keeps_free_send_to_subscriber: "keeps_free (send_to_subscriber pipe m) (\<lambda>_. True)"
  unfolding send_to_subscriber_def by (intro free.sys_intros)

lemma keeps_free_spread_message: "keeps_free (spread_message m p) (\<lambda>_. True)"
proof -
  have "keeps_free (spread_to m xs) (\<lambda>_. True)" for xs
    by (induction xs)
      (auto intro!: free.sys_intros keeps_free_send_to_subscriber [THEN keeps_bnd] simp del: prog_simps)
  then show ?thesis
    unfolding spread_message_def
    by (intro free.sys_intros keeps_free_searches [THEN keeps_bnd] keeps_free_ops [THEN keeps_bnd])
qed

lemma keeps_free_list_boxes_command: "keeps_free (list_boxes_command p) (\<lambda>_. True)"
  unfolding list_boxes_command_def
  by (intro free.sys_intros locked_command releases_intros)

lemma keeps_free_write_to_box: "keeps_free (write_to_box name m n) (\<lambda>_. True)"
  unfolding write_to_box_def
  by (intro free.sys_intros keeps_free_in_fs [THEN keeps_bnd] locked_command releases_intros)

lemmas free_ops = keeps_free_ops keeps_free_in_fs keeps_free_remove_box_command keeps_free_searches
  keeps_free_commands keeps_free_register_subscriber_command keeps_free_spread_message
  keeps_free_list_boxes_command keeps_free_write_to_box

lemmas free_intros = free.sys_intros free_ops free_ops [THEN keeps_bnd]

section \<open>Sessions\<close>

lemma keeps_free_read_publisher: "keeps_free (read_publisher_pipe_input fd p name) (\<lambda>_. True)"
  unfolding read_publisher_pipe_input_def by (intro free_intros)

lemma keeps_free_listen: "keeps_free (listen_to_publisher p name) (\<lambda>_. True)"
proof -
  have l: "keeps_free (listen_loop fuel fd p name) (\<lambda>_. True)" for fuel fd
    by (induction fuel)
      (auto intro!: free_intros keeps_free_read_publisher [THEN keeps_bnd] simp del: prog_simps)
  show ?thesis unfolding listen_to_publisher_def by (intro free_intros l [THEN keeps_bnd])
qed

lemma keeps_free_read_field:
  "(\<And>b. keeps_free (k b) (\<lambda>_. True)) \<Longrightarrow> keeps_free (read_field fd n k) (\<lambda>_. True)"
  unfolding read_field_def by (intro free_intros)

lemma keeps_free_send_answer: "keeps_free (send_answer p answer) (\<lambda>_. True)"
  unfolding send_answer_def by (intro free_intros)

lemma keeps_free_sessions:
  "keeps_free (register_publisher fd) (\<lambda>_. True)" "keeps_free (register_subscriber fd) (\<lambda>_. True)"
  "keeps_free (register_box fd) (\<lambda>_. True)" "keeps_free (mbroker_remove_box fd) (\<lambda>_. True)"
  "keeps_free (list_boxes fd) (\<lambda>_. True)"
  unfolding register_publisher_def register_subscriber_def register_box_def mbroker_remove_box_def
    list_boxes_def
  by (intro free_intros keeps_free_read_field keeps_free_listen [THEN keeps_bnd]
      keeps_free_send_answer)+

lemma keeps_free_read_pipe_input: "keeps_free (mbroker_read_pipe_input fd) (\<lambda>_. True)"
  unfolding mbroker_read_pipe_input_def
  by (intro free_intros keeps_free_sessions [THEN keeps_bnd])

end
