(* ===== verification/Box_Store.thy ===== *)
theory Box_Store imports Fs_Files begin

text \<open>
  What the broker needs of the file system: boxes are files that are appended to message by message
  and read back from the start. The locale \<open>box_store\<close> states the calls' laws on the bytes of a file,
  the position of a handle and the number of free handles; the lemmas about appending a message and
  reading all of them rest on these laws alone. The interpretation is the file system.
\<close>

section \<open>The interface\<close>

text \<open>
  \<open>stored\<close> gives a file's bytes, \<open>positioned s h x n\<close> says that \<open>h\<close> is a handle on file \<open>x\<close> at offset
  \<open>n\<close>, \<open>spare\<close> counts the free handles, \<open>has_block\<close> says that an empty file can get its memory and
  \<open>limit\<close> is the largest size.
\<close>

locale box_store =
  fixes ok :: "'f \<Rightarrow> bool"
    and stored :: "'f \<Rightarrow> cstring \<Rightarrow> byte list option"
    and positioned :: "'f \<Rightarrow> int \<Rightarrow> cstring \<Rightarrow> nat \<Rightarrow> bool"
    and spare :: "'f \<Rightarrow> nat"
    and has_block :: "'f \<Rightarrow> bool"
    and limit :: "'f \<Rightarrow> nat"
    and open_append :: "cstring \<Rightarrow> ('f, int) prog"
    and write_bytes :: "int \<Rightarrow> byte list \<Rightarrow> nat \<Rightarrow> ('f, int) prog"
    and read_bytes :: "int \<Rightarrow> nat \<Rightarrow> ('f, int \<times> byte list) prog"
    and rewind :: "int \<Rightarrow> ('f, int) prog"
    and close_handle :: "int \<Rightarrow> ('f, int) prog"
  assumes open_law: "ok s \<Longrightarrow> stored s x = Some c \<Longrightarrow> is_cstring x \<Longrightarrow> x \<noteq> [] \<Longrightarrow> 0 < spare s \<Longrightarrow>
      \<exists>h t. open_append x s = Ret (h, t) \<and> 0 \<le> h \<and> ok t \<and> stored t = stored s \<and>
        positioned t h x (length c) \<and> spare s = Suc (spare t) \<and> has_block t = has_block s \<and>
        limit t = limit s"
    and write_law: "ok s \<Longrightarrow> positioned s h x (length c) \<Longrightarrow> stored s x = Some c \<Longrightarrow> 0 < n \<Longrightarrow>
      n \<le> length buf \<Longrightarrow> length c + n \<le> limit s \<Longrightarrow> c \<noteq> [] \<or> has_block s \<Longrightarrow>
      \<exists>t. write_bytes h buf n s = Ret (int n, t) \<and> ok t \<and>
        stored t = (stored s)(x \<mapsto> c @ take n buf) \<and> positioned t h x (length c + n) \<and>
        spare t = spare s \<and> limit t = limit s"
    and read_law: "ok s \<Longrightarrow> positioned s h x k \<Longrightarrow> stored s x = Some c \<Longrightarrow> 0 < n \<Longrightarrow>
      k + n \<le> length c \<Longrightarrow>
      \<exists>t. read_bytes h n s = Ret ((int n, take n (drop k c)), t) \<and> ok t \<and> stored t = stored s \<and>
        positioned t h x (k + n) \<and> spare t = spare s \<and> limit t = limit s"
    and rewind_law: "ok s \<Longrightarrow> positioned s h x k \<Longrightarrow> 0 < k \<Longrightarrow>
      \<exists>t. rewind h s = Ret (0, t) \<and> ok t \<and> stored t = stored s \<and> positioned t h x 0 \<and>
        spare t = spare s \<and> limit t = limit s"
    and close_law: "ok s \<Longrightarrow> positioned s h x k \<Longrightarrow>
      \<exists>t. close_handle h s = Ret (0, t) \<and> ok t \<and> stored t = stored s \<and>
        spare t = Suc (spare s) \<and> has_block t = has_block s \<and> limit t = limit s"
begin

text \<open>Appending a message: open, write, close.\<close>

lemma append_message:
  assumes "ok s" and "stored s x = Some c" and "is_cstring x" and "x \<noteq> []" and "0 < spare s"
    and "0 < n" and "n \<le> length buf" and "length c + n \<le> limit s" and "c \<noteq> [] \<or> has_block s"
  shows "\<exists>h s1 s2 t. open_append x s = Ret (h, s1) \<and> 0 \<le> h \<and> write_bytes h buf n s1 = Ret (int n, s2) \<and>
     close_handle h s2 = Ret (0, t) \<and> ok t \<and> stored t = (stored s)(x \<mapsto> c @ take n buf) \<and>
     spare t = spare s \<and> limit t = limit s"
proof -
  obtain h s1 where o: "open_append x s = Ret (h, s1)" "0 \<le> h" "ok s1" "stored s1 = stored s"
    "positioned s1 h x (length c)" "spare s = Suc (spare s1)" "has_block s1 = has_block s"
    "limit s1 = limit s"
    using open_law [OF assms(1-5)] by blast
  obtain s2 where w: "write_bytes h buf n s1 = Ret (int n, s2)" "ok s2"
    "stored s2 = (stored s1)(x \<mapsto> c @ take n buf)" "positioned s2 h x (length c + n)"
    "spare s2 = spare s1" "limit s2 = limit s1"
    using write_law [OF o(3,5), of n buf] assms(2,6-9) o(4,7,8) by auto
  obtain t where "close_handle h s2 = Ret (0, t)" "ok t" "stored t = stored s2"
    "spare t = Suc (spare s2)" "limit t = limit s2"
    using close_law [OF w(2,4)] by blast
  with o w show ?thesis by auto
qed

text \<open>Opening and rewinding a file with bytes.\<close>

lemma open_at_start:
  assumes "ok s" and "stored s x = Some c" and "is_cstring x" and "x \<noteq> []" and "0 < spare s"
    and "c \<noteq> []"
  shows "\<exists>h s1 t. open_append x s = Ret (h, s1) \<and> 0 \<le> h \<and> rewind h s1 = Ret (0, t) \<and> ok t \<and>
     stored t = stored s \<and> positioned t h x 0 \<and> spare s = Suc (spare t) \<and> limit t = limit s"
proof -
  obtain h s1 where o: "open_append x s = Ret (h, s1)" "0 \<le> h" "ok s1" "stored s1 = stored s"
    "positioned s1 h x (length c)" "spare s = Suc (spare s1)" "limit s1 = limit s"
    using open_law [OF assms(1-5)] by blast
  with rewind_law [OF o(3,5)] assms(6) show ?thesis by auto
qed

end

section \<open>The file system as a store of boxes\<close>

definition tfs_ready :: "fs \<Rightarrow> bool" where
  "tfs_ready s \<longleftrightarrow> fs_inv s \<and> \<not> g_library_mutex s \<and> small_files s"

definition tfs_positioned :: "fs \<Rightarrow> int \<Rightarrow> cstring \<Rightarrow> nat \<Rightarrow> bool" where
  "tfs_positioned s h x n \<longleftrightarrow> handle_open s h \<and> root_map s x = Some (of_inumber (handle_entry s h)) \<and>
     of_offset (handle_entry s h) = n"

definition tfs_spare :: "fs \<Rightarrow> nat" where
  "tfs_spare s = length (free_open_file_entries s) - taken (free_open_file_entries s)"

definition tfs_has_block :: "fs \<Rightarrow> bool" where
  "tfs_has_block s \<longleftrightarrow> taken (free_blocks s) < max_block_count (fs_params s)"

definition tfs_limit :: "fs \<Rightarrow> nat" where
  "tfs_limit s = block_size (fs_params s)"

lemma tfs_spare_None: "first_free (free_open_file_entries s) = None \<longleftrightarrow> tfs_spare s = 0"
  using taken_le [of "free_open_file_entries s"] taken_full [of "free_open_file_entries s"]
  by (auto simp: tfs_spare_def first_free_None)

lemma taken_Suc: "first_free tab = Some i \<Longrightarrow> taken (tab[i := TAKEN]) = Suc (taken tab)"
  by (simp add: first_free_Some taken_update)

text \<open>Opening a handle changes the two tables of handles only.\<close>

lemma open_entry_spare:
  assumes "open_entry k off s = (h, t)"
  shows "tfs_spare t = tfs_spare s - 1" and "free_blocks t = free_blocks s" and "fs_params t = fs_params s"
proof -
  show "tfs_spare t = tfs_spare s - 1"
  proof (cases "first_free (free_open_file_entries s)")
    case None
    with assms tfs_spare_None show ?thesis by (auto simp: open_entry_def)
  next
    case (Some i)
    with assms taken_Suc [OF Some] show ?thesis by (auto simp: open_entry_def tfs_spare_def)
  qed
  show "free_blocks t = free_blocks s" "fs_params t = fs_params s"
    using assms by (auto simp: open_entry_def split: option.splits)
qed

text \<open>However a file is opened, a handle is taken exactly when the call succeeds.\<close>

lemma tfs_open_spare:
  assumes "tfs_ready s" and "is_cstring x" and "x \<noteq> []" and "\<not> has_flag mode TFS_O_TRUNC"
    and "tfs_open (Some (47 # x)) mode s = Ret (h, t)"
  shows "if 0 \<le> h then tfs_spare s = Suc (tfs_spare t) else tfs_spare t = tfs_spare s"
proof -
  have e: "if 0 \<le> h then tfs_spare v = Suc (tfs_spare u) else tfs_spare u = tfs_spare v"
    if "open_entry k off v = (h, u)" for k off u v
    using that open_entry_spare(1) [OF that] tfs_spare_None [of v]
    by (auto simp: open_entry_def split: option.splits)
  have c: "tfs_spare (create_file k i x s) = tfs_spare s" "tfs_spare (reset_inode k s) = tfs_spare s" for k i
    by (simp_all add: tfs_spare_def create_file_def reset_inode_def)
  obtain u where u: "open_result x mode s = (h, u)" "t = unlocked u"
    using tfs_open_run [of s x mode] assms by (auto simp: tfs_ready_def split: prod.splits)
  have "if 0 \<le> h then tfs_spare s = Suc (tfs_spare u) else tfs_spare u = tfs_spare s"
    using u(1) assms(4) e c
    by (auto simp: open_result_def open_existing_def open_new_def Let_def
        split: option.splits if_splits dest!: e)
  moreover have "tfs_spare t = tfs_spare u" using u(2) by (simp add: tfs_spare_def)
  ultimately show ?thesis by simp
qed

lemma tfs_open_append:
  assumes "tfs_ready s" and "files s x = Some c" and "is_cstring x" and "x \<noteq> []"
    and "tfs_open (Some (47 # x)) TFS_O_APPEND s = Ret (h, t)"
  shows "tfs_spare t = tfs_spare s - 1" and "free_blocks t = free_blocks s" and "fs_params t = fs_params s"
proof -
  obtain k where k: "root_map s x = Some k" using assms(2) by (auto simp: files_def)
  obtain u where u: "open_entry k (i_size (inode_of s k)) s = (h, u)" "t = unlocked u"
    using tfs_open_run [of s x TFS_O_APPEND] assms k
    by (auto simp: tfs_ready_def open_result_def open_existing_def split: prod.splits)
  note sp = open_entry_spare [OF u(1)]
  from sp u(2) show "tfs_spare t = tfs_spare s - 1" "free_blocks t = free_blocks s"
    "fs_params t = fs_params s"
    by (simp_all add: tfs_spare_def)
qed

text \<open>Moving a handle.\<close>

lemma tfs_move_to:
  assumes "tfs_ready s" and "tfs_positioned s h x k"
  shows "tfs_ready (unlocked (move_to h n s))" and "tfs_positioned (unlocked (move_to h n s)) h x n"
    and "files (unlocked (move_to h n s)) = files s"
    and "tfs_spare (unlocked (move_to h n s)) = tfs_spare s"
    and "tfs_limit (unlocked (move_to h n s)) = tfs_limit s"
proof -
  have h: "nat h < length (open_file_table s)"
    using assms open_handle_facts(5) by (simp add: tfs_ready_def tfs_positioned_def)
  then have "handle_entry (unlocked (move_to h n s)) h = (handle_entry s h)\<lparr>of_offset := n\<rparr>"
    by (simp add: move_to_entry)
  then show "tfs_positioned (unlocked (move_to h n s)) h x n"
    using assms(2) by (simp add: tfs_positioned_def)
  show "tfs_ready (unlocked (move_to h n s))"
    using assms(1) move_to_inv by (simp add: tfs_ready_def)
  show "files (unlocked (move_to h n s)) = files s" by simp
  show "tfs_spare (unlocked (move_to h n s)) = tfs_spare s"
    "tfs_limit (unlocked (move_to h n s)) = tfs_limit s"
    by (simp_all add: tfs_spare_def tfs_limit_def move_to_def)
qed

lemma tfs_write_at:
  assumes ready: "tfs_ready s" and h: "tfs_positioned s h x k" and c: "files s x = Some c" and k: "k \<le> length c"
    and n: "0 < n" "n \<le> length buf" "k + n \<le> tfs_limit s" and room: "c \<noteq> [] \<or> tfs_has_block s"
  shows "\<exists>t. tfs_write h buf n s = Ret (int n, t) \<and> tfs_ready t \<and>
     files t = (files s)(x \<mapsto> overwrite c k (take n buf)) \<and> tfs_positioned t h x (k + n) \<and>
     tfs_spare t = tfs_spare s \<and> tfs_limit t = tfs_limit s"
proof -
  have s: "fs_inv s" "\<not> g_library_mutex s" "small_files s" using ready by (simp_all add: tfs_ready_def)
  have p: "handle_open s h" "root_map s x = Some (of_inumber (handle_entry s h))"
    "of_offset (handle_entry s h) = k"
    using h by (simp_all add: tfs_positioned_def)
  have fits: "of_offset (handle_entry s h) + n \<le> block_size (fs_params s)"
    using n(3) p(3) by (simp add: tfs_limit_def)
  obtain t where t: "tfs_write h buf n s = Ret (int n, t)" "fs_inv t" "\<not> g_library_mutex t"
    "small_files t" "handle_open t = handle_open s"
    "files t = (files s)(x \<mapsto> overwrite c k (take n buf))"
    "handle_entry t h = (handle_entry s h)\<lparr>of_offset := k + n\<rparr>"
    using tfs_write_spec [OF s p(1,2) c _ n(1,2) fits] p(3) k room n(2)
    by (fastforce simp: tfs_has_block_def split: if_splits)
  from tfs_write_file [OF s(1,2) p(1,2) n(1,2) fits] t(1) obtain b
    where b: "target_block h s = Some b" "t = unlocked (write_to h b (take n buf) s)"
    using n(1) by (auto split: option.splits)
  have "root_map t = root_map s"
    using write_to_root_map [OF s(1)] target_block_facts(1) [OF s(1) p(1) b(1)] b(2) by simp
  moreover have "tfs_spare t = tfs_spare s" "tfs_limit t = tfs_limit s"
    by (simp_all add: b(2) write_to_def store_def take_block_def move_to_def tfs_spare_def tfs_limit_def Let_def)
  ultimately show ?thesis
    using t p by (auto simp: tfs_ready_def tfs_positioned_def)
qed

lemma tfs_write_law:
  assumes "tfs_ready s" and "tfs_positioned s h x (length c)" and "files s x = Some c"
    and "0 < n" "n \<le> length buf" "length c + n \<le> tfs_limit s" and "c \<noteq> [] \<or> tfs_has_block s"
  shows "\<exists>t. tfs_write h buf n s = Ret (int n, t) \<and> tfs_ready t \<and>
     files t = (files s)(x \<mapsto> c @ take n buf) \<and> tfs_positioned t h x (length c + n) \<and>
     tfs_spare t = tfs_spare s \<and> tfs_limit t = tfs_limit s"
  using tfs_write_at [OF assms(1-3) _ assms(4-7)] by (simp add: overwrite_def)

lemma tfs_close_law:
  assumes ready: "tfs_ready s" and h: "tfs_positioned s h x k"
  shows "\<exists>t. tfs_close h s = Ret (0, t) \<and> tfs_ready t \<and> files t = files s \<and>
     tfs_spare t = Suc (tfs_spare s) \<and> tfs_has_block t = tfs_has_block s \<and> tfs_limit t = tfs_limit s"
proof -
  let ?t = "unlocked (s\<lparr>free_open_file_entries := (free_open_file_entries s)[nat h := FREE]\<rparr>)"
  have s: "fs_inv s" "\<not> g_library_mutex s" "small_files s" and o: "handle_open s h"
    using assms by (simp_all add: tfs_ready_def tfs_positioned_def)
  note tab = fs_invD(6) [OF s(1)]
  have "nat h < length (free_open_file_entries s)" "free_open_file_entries s ! nat h = TAKEN"
    using o handle_open_index [OF tab o] tables_okD(5,6) [OF tab] by (auto simp: handle_open_def)
  then have "tfs_spare ?t = Suc (tfs_spare s)"
    using taken_update(2) taken_le [of "free_open_file_entries s"] by (fastforce simp: tfs_spare_def)
  moreover have "tfs_close h s = Ret (0, ?t)" using tfs_close_run [OF tab s(2)] o by simp
  ultimately show ?thesis
    using close_inv [OF s(1)] s by (auto simp: tfs_ready_def tfs_has_block_def tfs_limit_def)
qed

interpretation tfs_store: box_store tfs_ready files tfs_positioned tfs_spare tfs_has_block tfs_limit
  "\<lambda>x. tfs_open (Some (47 # x)) TFS_O_APPEND" tfs_write tfs_read tfs_rewind_offset tfs_close
proof
  fix s x c h n k and buf :: "byte list"
  assume ready: "tfs_ready s"
  then have s: "fs_inv s" "\<not> g_library_mutex s" "small_files s" by (simp_all add: tfs_ready_def)
  {
    assume c: "files s x = Some c" and x: "is_cstring x" "x \<noteq> []" and sp: "0 < tfs_spare s"
    then have "\<not> open_failed x TFS_O_APPEND s"
      using tfs_spare_None [of s] by (auto simp: open_failed_def)
    then obtain h t where t: "tfs_open (Some (47 # x)) TFS_O_APPEND s = Ret (h, t)" "0 \<le> h"
      "tfs_ready t" "files t = files s" "tfs_positioned t h x (length c)"
      using tfs_open_files [OF s x, of TFS_O_APPEND] c
      by (auto simp: spec_open_def tfs_ready_def tfs_positioned_def)
    from tfs_open_append [OF ready c x t(1)] sp t
    show "\<exists>h t. tfs_open (Some (47 # x)) TFS_O_APPEND s = Ret (h, t) \<and> 0 \<le> h \<and> tfs_ready t \<and>
        files t = files s \<and> tfs_positioned t h x (length c) \<and> tfs_spare s = Suc (tfs_spare t) \<and>
        tfs_has_block t = tfs_has_block s \<and> tfs_limit t = tfs_limit s"
      by (auto simp: tfs_has_block_def tfs_limit_def)
  next
    assume "tfs_positioned s h x (length c)" "files s x = Some c" "0 < n" "n \<le> length buf"
      "length c + n \<le> tfs_limit s" "c \<noteq> [] \<or> tfs_has_block s"
    then show "\<exists>t. tfs_write h buf n s = Ret (int n, t) \<and> tfs_ready t \<and>
        files t = (files s)(x \<mapsto> c @ take n buf) \<and> tfs_positioned t h x (length c + n) \<and>
        tfs_spare t = tfs_spare s \<and> tfs_limit t = tfs_limit s"
      by (rule tfs_write_law [OF ready])
  next
    assume h: "tfs_positioned s h x k" and c: "files s x = Some c" and n: "0 < n" "k + n \<le> length c"
    then have "tfs_read h n s = Ret ((int n, take n (drop k c)), unlocked (move_to h (k + n) s))"
      using tfs_read_file [OF s(1,2) _ _ s(3) c n(1), of h] by (auto simp: tfs_positioned_def)
    with tfs_move_to [OF ready h, of "k + n"]
    show "\<exists>t. tfs_read h n s = Ret ((int n, take n (drop k c)), t) \<and> tfs_ready t \<and>
        files t = files s \<and> tfs_positioned t h x (k + n) \<and> tfs_spare t = tfs_spare s \<and>
        tfs_limit t = tfs_limit s"
      by auto
  next
    assume h: "tfs_positioned s h x k" and "0 < k"
    then have "tfs_rewind_offset h s = Ret (0, unlocked (move_to h 0 s))"
      using tfs_rewind_offset_run [OF s(1,2), of h] by (auto simp: tfs_positioned_def)
    with tfs_move_to [OF ready h, of 0]
    show "\<exists>t. tfs_rewind_offset h s = Ret (0, t) \<and> tfs_ready t \<and> files t = files s \<and>
        tfs_positioned t h x 0 \<and> tfs_spare t = tfs_spare s \<and> tfs_limit t = tfs_limit s"
      by auto
  next
    assume "tfs_positioned s h x k"
    then show "\<exists>t. tfs_close h s = Ret (0, t) \<and> tfs_ready t \<and> files t = files s \<and>
        tfs_spare t = Suc (tfs_spare s) \<and> tfs_has_block t = tfs_has_block s \<and> tfs_limit t = tfs_limit s"
      by (rule tfs_close_law [OF ready])
  }
qed

end
