(* ===== verification/Broker_Boxes.thy ===== *)
theory Broker_Boxes imports Broker_Inv Box_Store begin

text \<open>
  What the broker's operations do when the file system works: the messages of a box as the list that
  was published, the effect of publishing and of replaying on it, and one round of the sessions.
\<close>

section \<open>Running the operations\<close>

lemma bnd_lock_list [simp]:
  "bnd lock_list f s = (if box_list_mutex s then Deadlock else f () (s\<lparr>box_list_mutex := True\<rparr>))"
  by (simp add: bnd_def lock_list_def)

lemma bnd_unlock_list [simp]: "bnd unlock_list f s = f () (s\<lparr>box_list_mutex := False\<rparr>)"
  by (simp add: unlock_list_def)

lemma bnd_unlock_list_return [simp]:
  "bnd (unlock_list_return v) f s = f v (s\<lparr>box_list_mutex := False\<rparr>)"
  by (simp add: unlock_list_return_def bnd_assoc)

lemma unlock_list_return_run [run_simps]:
  "unlock_list_return v s = Ret (v, s\<lparr>box_list_mutex := False\<rparr>)"
  by (simp add: unlock_list_return_def ret_def)

lemma in_fs_run [run_simps]: "m (tfs s) = Ret (x, t) \<Longrightarrow> in_fs m s = Ret (x, s\<lparr>tfs := t\<rparr>)"
  by (simp add: in_fs_def)

lemma bnd_set_box [simp]:
  "bnd (set_box k g) f s = f () (s\<lparr>box_list := (box_list s)[k := box_update g (box_list s ! k)]\<rparr>)"
  by (simp add: set_box_def)

lemma bnd_the_box [simp]:
  "bnd (the_box k) f s = (if k < length (box_list s) \<and> \<not> box_freed (box_list s ! k)
     then f (box (box_list s ! k)) s else Undef)"
  by (simp add: the_box_def bnd_assoc)

lemma bnd_strcmp_object [simp]:
  "bnd (strcmp_object x buf) f s =
     (if 0 \<in> set buf \<or> length x < length buf then f (x = cstr buf) s else Undef)"
  by (simp add: strcmp_object_def bnd_assoc)

section \<open>Boxes by name\<close>

fun position :: "cstring \<Rightarrow> box_list_t list \<Rightarrow> nat option" where
  "position x [] = None"
| "position x (n # ns) = (if box_name (box n) = x then Some 0 else map_option Suc (position x ns))"

definition intact :: "box_list_t \<Rightarrow> bool" where
  "intact n \<longleftrightarrow> \<not> box_freed n \<and> \<not> name_freed n"

lemma position_Some:
  "position x l = Some i \<Longrightarrow> i < length l \<and> box_name (box (l ! i)) = x"
  by (induction l arbitrary: i) (auto split: if_splits)

lemma position_None: "position x l = None \<longleftrightarrow> x \<notin> set (map (box_name \<circ> box) l)"
  by (induction l) auto

lemma position_append:
  "position x (l @ l') = (case position x l of None \<Rightarrow> map_option ((+) (length l)) (position x l') | Some i \<Rightarrow> Some i)"
  by (induction l) (cases "position x l'"; auto split: option.splits)+

lemma position_update:
  "box_name (box n) = box_name (box (l ! i)) \<Longrightarrow> position x (l[i := n]) = position x l"
  by (induction l arbitrary: i) (auto split: nat.splits)

lemma position_first: "l \<noteq> [] \<Longrightarrow> position (box_name (box (hd l))) l = Some 0"
  by (cases l) auto

lemma name_scan_run:
  "list_all intact l \<Longrightarrow> 0 \<in> set name \<Longrightarrow>
   name_scan name k l s = Ret (map_option ((+) k) (position (cstr name) l), s)"
proof (induction l arbitrary: k)
  case (Cons n l)
  then show ?case
    by (cases "position (cstr name) l") (auto simp: ret_def intact_def)
qed (simp add: ret_def)

lemma find_box_by_name_run [run_simps]:
  "list_all intact (box_list s) \<Longrightarrow> 0 \<in> set name \<Longrightarrow>
   find_box_by_name name s = Ret (position (cstr name) (box_list s), s)"
  by (cases "position (cstr name) (box_list s)") (simp_all add: find_box_by_name_def name_scan_run)

section \<open>The messages of a box\<close>

text \<open>A state in which nothing has been freed and the file system works.\<close>

definition broker_ready :: "broker \<Rightarrow> bool" where
  "broker_ready s \<longleftrightarrow> tfs_ready (tfs s) \<and> nodes_ok (box_list s) \<and> list_all intact (box_list s) \<and>
     \<not> box_list_mutex s"

definition message_ok :: "cstring \<Rightarrow> bool" where
  "message_ok m \<longleftrightarrow> is_cstring m \<and> m \<noteq> [] \<and> length m < 1024"

text \<open>
  The box \<open>/x\<close> holds the messages \<open>ms\<close>: its file is their concatenation, the box knows their sizes.
\<close>

definition holds_messages :: "broker \<Rightarrow> cstring \<Rightarrow> cstring list \<Rightarrow> bool" where
  "holds_messages s x ms \<longleftrightarrow> files (tfs s) x = Some (concat ms) \<and> list_all message_ok ms \<and>
     (\<exists>i. position (47 # x) (box_list s) = Some i \<and>
          messages_size (box (box_list s ! i)) = map length ms)"

lemma broker_readyD:
  assumes "broker_ready s"
  shows "tfs_ready (tfs s)" and "nodes_ok (box_list s)" and "list_all intact (box_list s)"
    and "\<not> box_list_mutex s"
  using assms by (simp_all add: broker_ready_def)

lemma ready_box:
  assumes "broker_ready s" and "position (47 # x) (box_list s) = Some i"
  shows "i < length (box_list s)" and "box_name (box (box_list s ! i)) = 47 # x"
    and "\<not> box_freed (box_list s ! i)" and "\<not> name_freed (box_list s ! i)"
    and "is_cstring x" and "length x < 31"
proof -
  show i: "i < length (box_list s)" "box_name (box (box_list s ! i)) = 47 # x"
    using position_Some [OF assms(2)] by simp_all
  then show "\<not> box_freed (box_list s ! i)" "\<not> name_freed (box_list s ! i)"
    using broker_readyD(3) [OF assms(1)] by (simp_all add: list_all_length intact_def)
  have "node_ok (box_list s ! i)"
    using broker_readyD(2) [OF assms(1)] i(1) by (simp add: nodes_ok_def list_all_length)
  then show "is_cstring x" "length x < 31" using i(2) by (simp_all add: node_ok_def)
qed

text \<open>A change to a box that keeps its name and is allowed keeps the state ready.\<close>

lemma ready_set_box:
  assumes "broker_ready s" and "list_step (box_list s) ((box_list s)[i := box_update g (box_list s ! i)])"
    and "tfs_ready u"
  shows "broker_ready (s\<lparr>tfs := u, box_list := (box_list s)[i := box_update g (box_list s ! i)],
     box_list_mutex := False\<rparr>)"
  using assms nodes_ok_step
  by (cases "i < length (box_list s)")
    (auto simp: broker_ready_def list_all_length nth_list_update intact_def)

lemma concat_messages_ne: "list_all message_ok ms \<Longrightarrow> ms \<noteq> [] \<Longrightarrow> concat ms \<noteq> []"
  by (cases ms) (auto simp: message_ok_def)

section \<open>Publishing\<close>

definition added_size :: "nat \<Rightarrow> nat \<Rightarrow> box_list_t list \<Rightarrow> box_list_t list" where
  "added_size i n l = l[i := box_update (messages_size_update (\<lambda>ns. ns @ [n])) (l ! i)]"

lemma added_size_views [simp]:
  "position x (added_size i n l) = position x l"
  "length (added_size i n l) = length l"
  by (simp_all add: added_size_def position_update)

lemma write_to_box_run:
  assumes ready: "broker_ready s" and i: "position (47 # x) (box_list s) = Some i"
    and c: "files (tfs s) x = Some c" and x: "x \<noteq> []" and sp: "0 < tfs_spare (tfs s)"
    and name: "cstr name = 47 # x" "0 \<in> set name"
    and n: "0 < n" "n \<le> length buf" "n < 1024" "length c + n \<le> tfs_limit (tfs s)"
    and room: "c \<noteq> [] \<or> tfs_has_block (tfs s)"
  shows "\<exists>u. write_to_box name buf n s =
       Ret (0, s\<lparr>tfs := u, box_list := added_size i n (box_list s), box_list_mutex := False\<rparr>) \<and>
     tfs_ready u \<and> files u = (files (tfs s))(x \<mapsto> c @ take n buf) \<and>
     tfs_spare u = tfs_spare (tfs s) \<and> tfs_limit u = tfs_limit (tfs s) \<and>
     broker_ready (s\<lparr>tfs := u, box_list := added_size i n (box_list s), box_list_mutex := False\<rparr>)"
proof -
  note r = broker_readyD [OF ready] and b = ready_box [OF ready i]
  obtain h s1 s2 u where o: "tfs_open (Some (47 # x)) TFS_O_APPEND (tfs s) = Ret (h, s1)" "0 \<le> h"
    and w: "tfs_write h buf n s1 = Ret (int n, s2)" and cl: "tfs_close h s2 = Ret (0, u)"
    and u: "tfs_ready u" "files u = (files (tfs s))(x \<mapsto> c @ take n buf)"
      "tfs_spare u = tfs_spare (tfs s)" "tfs_limit u = tfs_limit (tfs s)"
    using tfs_store.append_message [OF r(1) c b(5) x sp n(1,2,4) room] by blast
  have "write_to_box name buf n s =
      Ret (0, s\<lparr>tfs := u, box_list := added_size i n (box_list s), box_list_mutex := False\<rparr>)"
    using o w cl r(3,4) name i
    by (simp add: write_to_box_def run_simps added_size_def ret_def unlock_list_return_def)
  moreover have "list_step (box_list s) (added_size i n (box_list s))"
    unfolding added_size_def by (rule add_size [OF n(3)])
  ultimately show ?thesis
    using u ready_set_box [OF ready _ u(1)] by (auto simp: added_size_def)
qed

lemma added_size_other:
  "j \<noteq> i \<Longrightarrow> added_size i n l ! j = l ! j"
  by (simp add: added_size_def)

lemma added_size_same:
  "i < length l \<Longrightarrow> added_size i n l ! i = box_update (messages_size_update (\<lambda>ns. ns @ [n])) (l ! i)"
  by (simp add: added_size_def)

text \<open>The box gets the message, every other box keeps its messages.\<close>

lemma holds_messages_added:
  assumes held: "holds_messages s x ms" and m: "message_ok m"
    and i: "position (47 # x) (box_list s) = Some i"
    and u: "files (tfs t) = (files (tfs s))(x \<mapsto> concat ms @ m)"
    and l: "box_list t = added_size i (length m) (box_list s)"
  shows "holds_messages t x (ms @ [m])"
    and "y \<noteq> x \<Longrightarrow> holds_messages s y ms' \<Longrightarrow> holds_messages t y ms'"
proof -
  note b = position_Some [OF i, THEN conjunct1] position_Some [OF i, THEN conjunct2]
  show "holds_messages t x (ms @ [m])"
    using held m i u l b by (simp add: holds_messages_def added_size_same)
  assume y: "y \<noteq> x" and "holds_messages s y ms'"
  then obtain j where j: "position (47 # y) (box_list s) = Some j"
    "messages_size (box (box_list s ! j)) = map length ms'"
    and "files (tfs s) y = Some (concat ms')" "list_all message_ok ms'"
    by (auto simp: holds_messages_def)
  moreover have "j \<noteq> i" using position_Some [OF j(1)] b(2) y by auto
  ultimately show "holds_messages t y ms'"
    using y u l by (simp add: holds_messages_def added_size_other)
qed

section \<open>Replaying\<close>

text \<open>The kernel lets every message through: a pipe opened and a write for each.\<close>

definition deliveries :: "int list \<Rightarrow> os_event list" where
  "deliveries fds = concat (map (\<lambda>fd. [Result fd False, Wrote True]) fds)"

lemma deliveries_simps [simp]:
  "deliveries [] = []"
  "deliveries (fd # fds) = Result fd False # Wrote True # deliveries fds"
  by (simp_all add: deliveries_def)

definition to_subscriber :: "cstring \<Rightarrow> cstring \<Rightarrow> cstring \<times> byte list" where
  "to_subscriber pipe m = (pipe, OP_CODE_SUBSCRIBER_MESSAGE # padded 1024 m)"

lemma send_to_subscriber_run:
  assumes "script s = Result fd False # Wrote True # es" and "0 \<le> fd"
    and "0 \<in> set message" and "length (cstr message) \<le> 1024"
  shows "send_to_subscriber pipe message s = Ret (0, (counted_object s)
     \<lparr>script := es, sent := sent s @ [to_subscriber pipe (cstr message)]\<rparr>)"
  using assms
  by (simp add: send_to_subscriber_def to_subscriber_def sys_bnds
      bnd_Ret [OF mbroker_create_message_run(1)] ret_def)

text \<open>What the replay leaves alone.\<close>

definition same_but_log :: "broker \<Rightarrow> broker \<Rightarrow> bool" where
  "same_but_log s t \<longleftrightarrow> box_list t = box_list s \<and> box_list_mutex t = box_list_mutex s \<and>
     files (tfs t) = files (tfs s) \<and> tfs_spare (tfs t) = tfs_spare (tfs s) \<and>
     tfs_limit (tfs t) = tfs_limit (tfs s) \<and> uninit t = uninit s \<and> pc_queue t = pc_queue s"

lemma same_but_log_trans: "same_but_log s t \<Longrightarrow> same_but_log t u \<Longrightarrow> same_but_log s u"
  by (simp add: same_but_log_def)

lemma cstr_message [simp]: "message_ok m \<Longrightarrow> cstr (m @ replicate k 0) = m"
  by (simp add: message_ok_def cstr_padded)

lemma send_old_run:
  assumes "tfs_ready (tfs s)" and "tfs_positioned (tfs s) h x k" and "files (tfs s) x = Some c"
    and "drop k c = concat rest" and "list_all message_ok rest" and "k \<le> length c"
    and "script s = deliveries fds @ es" and "length fds = Suc (length rest)" and "list_all ((\<le>) 0) fds"
    and "0 \<in> set message" and "length message = 1024"
  shows "\<exists>t. send_old h pipe (map length rest) message s = Ret (0, t) \<and> same_but_log s t \<and>
     tfs_ready (tfs t) \<and> script t = es \<and>
     sent t = sent s @ map (to_subscriber pipe) (cstr message # rest)"
  using assms
proof (induction rest arbitrary: s k fds message)
  case Nil
  then obtain fd where "fds = [fd]" by (cases fds) auto
  with Nil show ?case
    using send_to_subscriber_run [of s fd es message pipe] length_cstr [of message]
    by (auto simp: same_but_log_def)
next
  case (Cons m rest)
  then obtain fd fds' where fds: "fds = fd # fds'" by (cases fds) auto
  have m: "message_ok m" using Cons.prems(5) by simp
  let ?u = "(counted_object s)\<lparr>script := deliveries fds' @ es,
      sent := sent s @ [to_subscriber pipe (cstr message)]\<rparr>"
  have sent: "send_to_subscriber pipe message s = Ret (0, ?u)"
    using send_to_subscriber_run [of s fd "deliveries fds' @ es" message pipe] Cons.prems fds
      length_cstr [of message] by auto
  have eq: "drop k c = m @ concat rest" using Cons.prems(4) by simp
  have "length (drop k c) = length m + length (concat rest)" by (simp only: eq length_append)
  then have len: "k + length m \<le> length c" using Cons.prems(6) by simp
  have piece: "take (length m) (drop k c) = m" by (simp add: eq)
  have "drop (k + length m) c = drop (length m) (drop k c)" by (simp add: add.commute)
  then have rest: "drop (k + length m) c = concat rest" by (simp add: eq)
  obtain v where v: "tfs_read h (length m) (tfs s) = Ret ((int (length m), m), v)" "tfs_ready v"
    "files v = files (tfs s)" "tfs_positioned v h x (k + length m)" "tfs_spare v = tfs_spare (tfs s)"
    "tfs_limit v = tfs_limit (tfs s)"
    using tfs_store.read_law [OF Cons.prems(1-3) _ len] m piece by (auto simp: message_ok_def)
  let ?m = "m @ replicate (1024 - length m) 0" and ?w = "?u\<lparr>tfs := v\<rparr>"
  have "read_into h (length m) (replicate MAX_MESSAGE_SIZE 0) ?u = Ret ((int (length m), ?m), ?w)"
    using v(1) m
    by (simp add: read_into_def bnd_Ret [OF in_fs_run] MAX_MESSAGE_SIZE_def message_ok_def ret_def)
  then have run: "send_old h pipe (map length (m # rest)) message s =
      send_old h pipe (map length rest) ?m ?w"
    by (simp add: bnd_def sent)
  have "0 \<in> set ?m" "length ?m = 1024" using m by (simp_all add: message_ok_def)
  then obtain t where "send_old h pipe (map length rest) ?m ?w = Ret (0, t)" "same_but_log ?w t"
    "tfs_ready (tfs t)" "script t = es" "sent t = sent ?w @ map (to_subscriber pipe) (cstr ?m # rest)"
    using Cons.IH [of ?w "k + length m" fds' ?m] v Cons.prems fds rest len by auto
  with run v m show ?case
    by (auto simp: same_but_log_def)
qed

text \<open>
  The first message goes into memory that \<^verbatim>\<open>malloc\<close> did not clear: what is sent for it runs on to the
  first 0 behind it.
\<close>

definition first_object :: "mem \<Rightarrow> cstring list \<Rightarrow> byte list" where
  "first_object memory ms = hd ms @ drop (length (hd ms)) (mem_read memory 0 1024)"

definition replayed :: "mem \<Rightarrow> cstring list \<Rightarrow> cstring list" where
  "replayed memory ms = (if ms = [] then [] else cstr (first_object memory ms) # tl ms)"

lemma get_old_messages_run:
  assumes ready: "tfs_ready (tfs s)"
    and k: "k < length (box_list s)" "\<not> box_freed (box_list s ! k)" "box_name (box (box_list s ! k)) = 47 # x"
      "messages_size (box (box_list s ! k)) = map length ms"
    and c: "files (tfs s) x = Some (concat ms)" "list_all message_ok ms" "ms \<noteq> []"
    and x: "is_cstring x" "x \<noteq> []" and sp: "0 < tfs_spare (tfs s)"
    and ev: "script s = deliveries fds @ es" "length fds = length ms" "list_all ((\<le>) 0) fds"
    and junk: "0 \<in> set (first_object (uninit s (objects s)) ms)"
  shows "\<exists>t. get_old_messages k pipe s = Ret (0, t) \<and> tfs_ready (tfs t) \<and> script t = es \<and>
     box_list t = box_list s \<and> box_list_mutex t = box_list_mutex s \<and> files (tfs t) = files (tfs s) \<and>
     tfs_spare (tfs s) = Suc (tfs_spare (tfs t)) \<and> tfs_limit (tfs t) = tfs_limit (tfs s) \<and>
     sent t = sent s @ map (to_subscriber pipe) (replayed (uninit s (objects s)) ms)"
proof -
  obtain m rest where ms: "ms = m # rest" using c(3) by (cases ms) auto
  then have m: "message_ok m" and r: "list_all message_ok rest" using c(2) by simp_all
  obtain h s1 u where o: "tfs_open (Some (47 # x)) TFS_O_APPEND (tfs s) = Ret (h, s1)" "0 \<le> h"
    "tfs_rewind_offset h s1 = Ret (0, u)" and u: "tfs_ready u" "files u = files (tfs s)"
    "tfs_positioned u h x 0" "tfs_spare (tfs s) = Suc (tfs_spare u)" "tfs_limit u = tfs_limit (tfs s)"
    using tfs_store.open_at_start [OF ready c(1) x sp concat_messages_ne [OF c(2,3)]] by blast
  obtain v where v: "tfs_read h (length m) u = Ret ((int (length m), m), v)" "tfs_ready v"
    "files v = files u" "tfs_positioned v h x (length m)" "tfs_spare v = tfs_spare u"
    "tfs_limit v = tfs_limit u"
    using tfs_store.read_law [OF u(1,3), of "concat ms" "length m"] c(1) u(2) m ms
    by (auto simp: message_ok_def)
  let ?m = "first_object (uninit s (objects s)) ms" and ?w = "(counted_object s)\<lparr>tfs := v\<rparr>"
  have "read_into h (length m) (mem_read (uninit s (objects s)) 0 1024) (counted_object (s\<lparr>tfs := u\<rparr>))
      = Ret ((int (length m), ?m), ?w)"
    using v(1) m ms
    by (simp add: read_into_def bnd_Ret [OF in_fs_run] message_ok_def ret_def first_object_def)
  then have run: "get_old_messages k pipe s = send_old h pipe (map length rest) ?m ?w"
    using k o ms by (simp add: get_old_messages_def bnd_Ret [OF in_fs_run] MAX_MESSAGE_SIZE_def)
      (simp add: bnd_def)
  have len: "length ?m = 1024" using m ms by (simp add: first_object_def message_ok_def)
  have "tfs_positioned (tfs ?w) h x (length m)" "files (tfs ?w) x = Some (concat ms)"
    using v u c(1) by simp_all
  then obtain t where "send_old h pipe (map length rest) ?m ?w = Ret (0, t)" "same_but_log ?w t"
    "tfs_ready (tfs t)" "script t = es"
    "sent t = sent ?w @ map (to_subscriber pipe) (cstr ?m # rest)"
    using send_old_run [of ?w h x "length m" "concat ms" rest fds es ?m pipe] v(2) ms r ev junk len by auto
  with run u v ms show ?thesis by (auto simp: same_but_log_def replayed_def)
qed

section \<open>Spreading\<close>

lemma spread_to_run:
  assumes "script s = deliveries fds @ es" and "length fds = length xs" and "list_all ((\<le>) 0) fds"
    and "0 \<in> set message" and "length (cstr message) \<le> 1024"
  shows "spread_to message xs s = Ret (0, s\<lparr>script := es, objects := objects s + length xs,
     sent := sent s @ map (\<lambda>x. to_subscriber (sub_named_pipe x) (cstr message)) xs\<rparr>)"
  using assms
proof (induction xs arbitrary: s fds)
  case Nil
  then show ?case by (simp add: ret_def)
next
  case (Cons x xs)
  then obtain fd fds' where fds: "fds = fd # fds'" by (cases fds) auto
  have "send_to_subscriber (sub_named_pipe x) message s = Ret (0, (counted_object s)
     \<lparr>script := deliveries fds' @ es, sent := sent s @ [to_subscriber (sub_named_pipe x) (cstr message)]\<rparr>)"
    using send_to_subscriber_run [of s fd "deliveries fds' @ es"] Cons.prems fds by simp
  then show ?case
    using Cons.IH [of "(counted_object s)\<lparr>script := deliveries fds' @ es,
        sent := sent s @ [to_subscriber (sub_named_pipe x) (cstr message)]\<rparr>" fds'] Cons.prems fds
    by (simp add: bnd_def)
qed

text \<open>Only the first box of the list can be found by its publisher: the boxes before it have none.\<close>

lemma spread_message_run:
  assumes l: "box_list s = n # ns" "intact n" "publisher_named_pipe (box n) = Some pipe"
    and p: "cstr p = pipe" "0 \<in> set p" and "\<not> box_list_mutex s"
    and ev: "script s = deliveries fds @ es" "length fds = length (subscribers (box n))"
      "list_all ((\<le>) 0) fds"
    and m: "0 \<in> set message" "length (cstr message) \<le> 1024"
  shows "spread_message message p s =
     Ret (0, s\<lparr>script := es, objects := objects s + length (subscribers (box n)), sent := sent s @
       map (\<lambda>x. to_subscriber (sub_named_pipe x) (cstr message)) (subscribers (box n)),
       box_list_mutex := False\<rparr>)"
  using assms spread_to_run [OF _ ev(2,3) m, of "s\<lparr>box_list_mutex := False\<rparr>" es]
  by (simp add: spread_message_def get_box_by_publisher_pipe_def bnd_assoc intact_def)

lemma spread_message_hidden:
  assumes "box_list s = n # ns" and "publisher_named_pipe (box n) = None" and "\<not> box_list_mutex s"
  shows "spread_message message p s = Undef"
  using assms by (simp add: spread_message_def get_box_by_publisher_pipe_def bnd_assoc)

section \<open>A session of a publisher\<close>

text \<open>
  The box \<open>/x\<close> is the first of the list, \<open>pipe\<close> is its publisher and \<open>subs\<close> are its subscribers.
\<close>

definition first_box :: "broker \<Rightarrow> cstring \<Rightarrow> cstring option \<Rightarrow> subscriber_t list \<Rightarrow> bool" where
  "first_box s x pipe subs \<longleftrightarrow> (\<exists>n ns. box_list s = n # ns \<and> box_name (box n) = 47 # x \<and>
     publisher_named_pipe (box n) = pipe \<and> subscribers (box n) = subs)"

text \<open>The state is ready, holds messages in its first box and has a handle to spare.\<close>

definition serving :: "broker \<Rightarrow> cstring \<Rightarrow> cstring option \<Rightarrow> subscriber_t list \<Rightarrow> cstring list \<Rightarrow> bool" where
  "serving s x pipe subs ms \<longleftrightarrow> broker_ready s \<and> first_box s x pipe subs \<and> holds_messages s x ms \<and>
     0 < tfs_spare (tfs s) \<and> (ms \<noteq> [] \<or> tfs_has_block (tfs s))"

lemma serving_cong:
  "tfs t = tfs s \<Longrightarrow> box_list t = box_list s \<Longrightarrow> box_list_mutex t = box_list_mutex s \<Longrightarrow>
   serving t x pipe subs ms = serving s x pipe subs ms"
  by (simp add: serving_def first_box_def broker_ready_def holds_messages_def)

lemma publish_round:
  assumes s: "serving s x (Some pipe) subs ms" and m: "message_ok m" and x: "x \<noteq> []"
    and fits: "length (concat ms) + length m \<le> tfs_limit (tfs s)"
    and p: "cstr p = pipe" "0 \<in> set p" and name: "cstr name = 47 # x" "0 \<in> set name"
    and fd: "0 \<le> fd" "fd < 1024"
    and ev: "script s = Ready fd # Got fd [9] # Got fd (padded 1024 m) # deliveries fds @ es"
      "length fds = length subs" "list_all ((\<le>) 0) fds"
  shows "\<exists>t. read_publisher_pipe_input fd p name s = Ret (0, t) \<and>
     serving t x (Some pipe) subs (ms @ [m]) \<and> script t = es \<and>
     sent t = sent s @ map (\<lambda>y. to_subscriber (sub_named_pipe y) m) subs \<and>
     tfs_limit (tfs t) = tfs_limit (tfs s) \<and> tfs_spare (tfs t) = tfs_spare (tfs s)"
proof -
  have ready: "broker_ready s" and held: "holds_messages s x ms" and sp: "0 < tfs_spare (tfs s)"
    and room: "ms \<noteq> [] \<or> tfs_has_block (tfs s)"
    using s by (simp_all add: serving_def)
  obtain n ns where l: "box_list s = n # ns" "box_name (box n) = 47 # x"
    "publisher_named_pipe (box n) = Some pipe" "subscribers (box n) = subs"
    using s by (auto simp: serving_def first_box_def)
  then have i: "position (47 # x) (box_list s) = Some 0" by simp
  have c: "files (tfs s) x = Some (concat ms)" "list_all message_ok ms"
    using held by (simp_all add: holds_messages_def)
  have m1: "0 < length m" "length m < 1024" "is_cstring m" using m by (simp_all add: message_ok_def)
  let ?m = "padded 1024 m"
  let ?s1 = "s\<lparr>objects := Suc (Suc (objects s)), script := deliveries fds @ es\<rparr>"
  have r1: "broker_ready ?s1" using ready by (simp add: broker_ready_def)
  have lm: "length m \<le> length ?m" "take (length m) ?m = m" using m1 by (simp_all add: padded_def)
  obtain u where u: "write_to_box name ?m (length m) ?s1 = Ret (0, ?s1\<lparr>tfs := u,
      box_list := added_size 0 (length m) (box_list s), box_list_mutex := False\<rparr>)"
    "tfs_ready u" "files u = (files (tfs s))(x \<mapsto> concat ms @ m)"
    "tfs_spare u = tfs_spare (tfs s)" "tfs_limit u = tfs_limit (tfs s)"
    "broker_ready (?s1\<lparr>tfs := u, box_list := added_size 0 (length m) (box_list s), box_list_mutex := False\<rparr>)"
    using write_to_box_run [OF r1, of x 0 "concat ms" name "length m" ?m] i c x sp name m1 lm fits room
      concat_messages_ne [OF c(2)] by auto
  let ?s2 = "?s1\<lparr>tfs := u, box_list := added_size 0 (length m) (box_list s), box_list_mutex := False\<rparr>"
  let ?n = "box_update (messages_size_update (\<lambda>ns. ns @ [length m])) n"
  have l2: "box_list ?s2 = ?n # ns" using l by (simp add: added_size_def)
  have "intact ?n" using broker_readyD(3) [OF ready] l(1) by (simp add: intact_def)
  then have sm: "spread_message ?m p ?s2 = Ret (0, ?s2\<lparr>script := es,
      objects := objects ?s2 + length subs,
      sent := sent s @ map (\<lambda>y. to_subscriber (sub_named_pipe y) m) subs, box_list_mutex := False\<rparr>)"
    using spread_message_run [OF l2 _ _ p _ _ _ ev(3), of es ?m] l(3,4) ev(2) m1
    by simp
  let ?t = "?s2\<lparr>script := es, objects := objects ?s2 + length subs,
      sent := sent s @ map (\<lambda>y. to_subscriber (sub_named_pipe y) m) subs\<rparr>"
  have "read_publisher_pipe_input fd p name s = Ret (0, ?t)"
    using fd ev(1) m1 u(1) sm
    by (simp add: read_publisher_pipe_input_def sys_bnds bnd_Ret unlock_list_return_run)
  moreover have "holds_messages ?t x (ms @ [m])"
    using holds_messages_added(1) [OF held m i] u(3) by simp
  moreover have "broker_ready ?t" using u(6) by (simp add: broker_ready_def)
  moreover have "first_box ?t x (Some pipe) subs" using l l2 by (simp add: first_box_def)
  ultimately show ?thesis using u sp by (auto simp: serving_def)
qed

text \<open>The events of a session: for each message the request and the deliveries to the subscribers.\<close>

definition published :: "int \<Rightarrow> (cstring \<times> int list) list \<Rightarrow> os_event list" where
  "published fd rs = concat (map (\<lambda>(m, fds).
     Ready fd # Got fd [9] # Got fd (padded 1024 m) # deliveries fds) rs)"

definition spread_all :: "subscriber_t list \<Rightarrow> cstring list \<Rightarrow> (cstring \<times> byte list) list" where
  "spread_all subs new = concat (map (\<lambda>m. map (\<lambda>y. to_subscriber (sub_named_pipe y) m) subs) new)"

definition rounds_ok :: "subscriber_t list \<Rightarrow> (cstring \<times> int list) list \<Rightarrow> bool" where
  "rounds_ok subs rs \<longleftrightarrow> list_all (\<lambda>(m, fds). message_ok m \<and> length fds = length subs \<and>
     list_all ((\<le>) 0) fds) rs"

lemma listen_loop_run:
  assumes "serving s x (Some pipe) subs ms" and "rounds_ok subs rs" and "x \<noteq> []"
    and "length (concat ms) + length (concat (map fst rs)) \<le> tfs_limit (tfs s)"
    and "cstr p = pipe" "0 \<in> set p" and "cstr name = 47 # x" "0 \<in> set name"
    and "0 \<le> fd" "fd < 1024"
    and "script s = published fd rs @ Ready fd # Got fd [] # es" and "length rs < fuel"
  shows "\<exists>t. listen_loop fuel fd p name s = Ret (1, t) \<and>
     serving t x (Some pipe) subs (ms @ map fst rs) \<and> script t = es \<and>
     sent t = sent s @ spread_all subs (map fst rs) \<and> tfs_limit (tfs t) = tfs_limit (tfs s) \<and>
     tfs_spare (tfs t) = tfs_spare (tfs s)"
  using assms
proof (induction rs arbitrary: s ms fuel)
  case Nil
  then obtain f where f: "fuel = Suc f" by (cases fuel) auto
  let ?t = "s\<lparr>objects := Suc (objects s), script := es\<rparr>"
  have "listen_loop fuel fd p name s = Ret (1, ?t)"
    using Nil.prems(9-11) f
    by (simp add: published_def read_publisher_pipe_input_def sys_bnds bnd_assoc bnd_Ret bnd_if ret_def)
  moreover have "serving ?t x (Some pipe) subs ms"
    using Nil.prems(1) by (simp add: serving_def first_box_def broker_ready_def holds_messages_def)
  ultimately show ?case by (simp add: spread_all_def)
next
  case (Cons r rs)
  then obtain f where f: "fuel = Suc f" by (cases fuel) auto
  obtain m fds where r: "r = (m, fds)" by fastforce
  have m: "message_ok m" "length fds = length subs" "list_all ((\<le>) 0) fds" and rs: "rounds_ok subs rs"
    using Cons.prems(2) r by (simp_all add: rounds_ok_def)
  have ev: "script s = Ready fd # Got fd [9] # Got fd (padded 1024 m) # deliveries fds @
      (published fd rs @ Ready fd # Got fd [] # es)"
    using Cons.prems(11) r by (simp add: published_def)
  have fits: "length (concat ms) + length m \<le> tfs_limit (tfs s)" using Cons.prems(4) r by simp
  obtain u where u: "read_publisher_pipe_input fd p name s = Ret (0, u)"
    "serving u x (Some pipe) subs (ms @ [m])" "script u = published fd rs @ Ready fd # Got fd [] # es"
    "sent u = sent s @ map (\<lambda>y. to_subscriber (sub_named_pipe y) m) subs"
    "tfs_limit (tfs u) = tfs_limit (tfs s)" "tfs_spare (tfs u) = tfs_spare (tfs s)"
    using publish_round [OF Cons.prems(1) m(1) Cons.prems(3) fits Cons.prems(5-10) ev m(2,3)] by blast
  have "length (concat (ms @ [m])) + length (concat (map fst rs)) \<le> tfs_limit (tfs u)"
    using Cons.prems(4) r u(5) by simp
  then obtain t where "listen_loop f fd p name u = Ret (1, t)"
    "serving t x (Some pipe) subs ((ms @ [m]) @ map fst rs)" "script t = es"
    "sent t = sent u @ spread_all subs (map fst rs)" "tfs_limit (tfs t) = tfs_limit (tfs u)"
    "tfs_spare (tfs t) = tfs_spare (tfs u)"
    using Cons.IH [OF u(2) rs Cons.prems(3) _ Cons.prems(5-10) u(3), of f] f Cons.prems(12) by auto
  moreover have "listen_loop fuel fd p name s = listen_loop f fd p name u"
    by (simp add: f bnd_def u(1))
  ultimately show ?case using u r by (auto simp: spread_all_def)
qed

text \<open>Registering the publisher of the first box and removing it again.\<close>

lemma serving_set_publisher:
  assumes "serving s x q subs ms" and "box_list s = n # ns"
  shows "serving (s\<lparr>box_list := box_update (publisher_named_pipe_update (\<lambda>_. q')) n # ns,
     box_list_mutex := False\<rparr>) x q' subs ms"
proof -
  have "list_step (box_list s) ((box_list s)[0 := box_update (publisher_named_pipe_update (\<lambda>_. q')) (box_list s ! 0)])"
    by (rule set_publisher)
  from ready_set_box [OF _ this, of "tfs s"] assms
  show ?thesis
    by (auto simp: serving_def first_box_def holds_messages_def broker_ready_def split: if_splits)
qed

lemma register_publisher_command_run:
  assumes "serving s x None subs ms" and "box_list s = n # ns" and "0 \<in> set p" and "length (cstr p) < 256"
    and "cstr name = 47 # x" "0 \<in> set name"
  shows "register_publisher_command p name s = Ret (0, s\<lparr>box_list :=
     box_update (publisher_named_pipe_update (\<lambda>_. Some (cstr p))) n # ns, box_list_mutex := False\<rparr>)"
  using assms
  by (auto simp: register_publisher_command_def serving_def first_box_def broker_ready_def intact_def
      bnd_Ret [OF find_box_by_name_run] unlock_list_return_run)

lemma remove_publisher_command_run:
  assumes "serving s x (Some (cstr p)) subs ms" and "box_list s = n # ns" and "0 \<in> set p"
    and "cstr name = 47 # x" "0 \<in> set name"
  shows "remove_publisher_command p name s = Ret (0, s\<lparr>box_list :=
     box_update (publisher_named_pipe_update (\<lambda>_. None)) n # ns, box_list_mutex := False\<rparr>)"
  using assms
  by (auto simp: remove_publisher_command_def serving_def first_box_def broker_ready_def intact_def
      bnd_Ret [OF find_box_by_name_run] unlock_list_return_run)

lemma read_field_run:
  "script s = Got fd bytes # es \<Longrightarrow> length bytes = n \<Longrightarrow>
   read_field fd n k s = k bytes ((counted_object s)\<lparr>script := es\<rparr>)"
  by (simp add: read_field_def sys_bnds)

text \<open>The whole session: the two fields of the request, the messages, the end of the pipe.\<close>

lemma register_publisher_run:
  assumes s: "serving s x None subs ms" and rs: "rounds_ok subs rs" and x: "x \<noteq> []"
    and fits: "length (concat ms) + length (concat (map fst rs)) \<le> tfs_limit (tfs s)"
    and pipe: "is_cstring pipe" "length pipe < 256"
    and fd: "0 \<le> reg_fd" "0 \<le> fd" "fd < 1024"
    and ev: "script s = Got reg_fd (padded 256 pipe) # Got reg_fd (padded 32 (47 # x)) # Result fd False #
      published fd rs @ Ready fd # Got fd [] # Result 0 False # es"
  shows "\<exists>t. register_publisher reg_fd s = Ret (0, t) \<and> serving t x None subs (ms @ map fst rs) \<and>
     script t = es \<and> sent t = sent s @ spread_all subs (map fst rs) \<and>
     tfs_limit (tfs t) = tfs_limit (tfs s) \<and> tfs_spare (tfs t) = tfs_spare (tfs s)"
proof -
  obtain n ns where l: "box_list s = n # ns" using s by (auto simp: serving_def first_box_def)
  have pos: "position (47 # x) (box_list s) = Some 0" and "broker_ready s"
    using s by (auto simp: serving_def first_box_def)
  then have len: "is_cstring x" "length x < 31" using ready_box(5,6) by blast+
  let ?p = "padded 256 pipe" and ?name = "padded 32 (47 # x)"
  have p: "cstr ?p = pipe" "0 \<in> set ?p" and name: "cstr ?name = 47 # x" "0 \<in> set ?name"
    using pipe len by simp_all
  let ?s1 = "s\<lparr>objects := Suc (Suc (objects s)), script := Result fd False #
      published fd rs @ Ready fd # Got fd [] # Result 0 False # es\<rparr>"
  have s1: "serving ?s1 x None subs ms" "box_list ?s1 = n # ns"
    using s l serving_cong [of ?s1 s] by simp_all
  let ?s2 = "?s1\<lparr>box_list := box_update (publisher_named_pipe_update (\<lambda>_. Some pipe)) n # ns,
      box_list_mutex := False\<rparr>"
  have reg: "register_publisher_command ?p ?name ?s1 = Ret (0, ?s2)"
    using register_publisher_command_run [OF s1 p(2) _ name] p(1) pipe(2) by simp
  have s2: "serving ?s2 x (Some pipe) subs ms"
    using serving_set_publisher [OF s1, of "Some pipe"] by simp
  let ?s3 = "?s2\<lparr>script := published fd rs @ Ready fd # Got fd [] # Result 0 False # es\<rparr>"
  have "serving ?s3 x (Some pipe) subs ms"
    using s2 serving_cong [of ?s3 ?s2] by simp
  moreover have "length rs \<le> length (published fd rs)"
    by (induction rs) (auto simp: published_def)
  ultimately obtain u where u: "listen_loop (Suc (length (script ?s3))) fd ?p ?name ?s3 = Ret (1, u)"
    "serving u x (Some pipe) subs (ms @ map fst rs)" "script u = Result 0 False # es"
    "sent u = sent s @ spread_all subs (map fst rs)" "tfs_limit (tfs u) = tfs_limit (tfs s)"
    "tfs_spare (tfs u) = tfs_spare (tfs s)"
    using listen_loop_run [OF _ rs x _ p name fd(2,3), of ?s3 ms "Result 0 False # es"
        "Suc (length (script ?s3))"] fits by (auto simp del: listen_loop.simps)
  have listen: "listen_to_publisher ?p ?name ?s2 = Ret (0, u\<lparr>script := es\<rparr>)"
    using p(2) fd u(1,3)
    by (simp add: listen_to_publisher_def sys_bnds bnd_Ret ret_def del: listen_loop.simps)
  let ?u = "u\<lparr>script := es\<rparr>"
  obtain m ms' where lu: "box_list ?u = m # ms'" using u(2) by (auto simp: serving_def first_box_def)
  have su: "serving ?u x (Some (cstr ?p)) subs (ms @ map fst rs)"
    using u(2) p(1) serving_cong [of ?u u] by simp
  let ?t = "?u\<lparr>box_list := box_update (publisher_named_pipe_update (\<lambda>_. None)) m # ms',
      box_list_mutex := False\<rparr>"
  have "remove_publisher_command ?p ?name ?u = Ret (0, ?t)"
    using remove_publisher_command_run [OF su lu p(2) name] .
  then have "register_publisher reg_fd s = Ret (0, ?t)"
    using fd ev pipe len p name reg listen
    by (simp add: register_publisher_def read_field_run bnd_Ret ret_def)
  with serving_set_publisher [OF su lu, of None] u show ?thesis by auto
qed

section \<open>A session of a subscriber\<close>

text \<open>The first subscriber is put into the list of the box, a later one is not.\<close>

definition listened :: "nat \<Rightarrow> subscriber_t \<Rightarrow> box_list_t list \<Rightarrow> box_list_t list" where
  "listened i sub l = (if subscribers (box (l ! i)) = []
     then l[i := box_update (subscribers_update (\<lambda>_. [sub])) (l ! i)] else l)"

lemma first_box_listened:
  assumes "first_box s x q subs" and "box_list t = listened 0 sub (box_list s)"
  shows "first_box t x q (if subs = [] then [sub] else subs)"
  using assms by (auto simp: first_box_def listened_def)

lemma register_subscriber_command_run:
  assumes ready: "broker_ready s" and held: "holds_messages s x ms" "ms \<noteq> []" and x: "x \<noteq> []"
    and sp: "0 < tfs_spare (tfs s)"
    and p: "cstr p = pipe" "0 \<in> set p" "length pipe < 256" and name: "cstr name = 47 # x" "0 \<in> set name"
    and ev: "script s = deliveries fds @ Result fd False # Ready fd # Result 0 False # es"
      "length fds = length ms" "list_all ((\<le>) 0) fds" "0 \<le> fd" "fd < 1024"
    and junk: "0 \<in> set (first_object (uninit s (objects s)) ms)"
  shows "\<exists>t. register_subscriber_command p name s = Ret (0, t) \<and> script t = es \<and> broker_ready t \<and>
     (\<forall>y ms'. holds_messages s y ms' \<longrightarrow> holds_messages t y ms') \<and>
     tfs_spare (tfs s) = Suc (tfs_spare (tfs t)) \<and> tfs_limit (tfs t) = tfs_limit (tfs s) \<and>
     box_list t = listened (the (position (47 # x) (box_list s))) \<lparr>sub_named_pipe = pipe, sub_box_name = 47 # x\<rparr> (box_list s) \<and>
     sent t = sent s @ map (to_subscriber pipe) (replayed (uninit s (objects s)) ms)"
proof -
  obtain i where i: "position (47 # x) (box_list s) = Some i"
    and size: "messages_size (box (box_list s ! i)) = map length ms"
    and c: "files (tfs s) x = Some (concat ms)" "list_all message_ok ms"
    using held by (auto simp: holds_messages_def)
  note b = ready_box [OF ready i] and r = broker_readyD [OF ready]
  let ?sub = "\<lparr>sub_named_pipe = pipe, sub_box_name = 47 # x\<rparr>"
  let ?l = "if subscribers (box (box_list s ! i)) = []
     then (box_list s)[i := box_update (subscribers_update (\<lambda>_. [?sub])) (box_list s ! i)] else box_list s"
  have listened: "listened (the (position (47 # x) (box_list s))) ?sub (box_list s) = ?l"
    using i by (simp add: listened_def)
  let ?s1 = "s\<lparr>box_list_mutex := True, box_list := ?l\<rparr>"
  have node: "box_name (box (?l ! i)) = 47 # x" "messages_size (box (?l ! i)) = map length ms"
    "\<not> box_freed (?l ! i)" "i < length ?l"
    using b size by auto
  have pos: "position y ?l = position y (box_list s)" for y by (simp add: position_update)
  have sizes: "messages_size (box (?l ! j)) = messages_size (box (box_list s ! j))"
    if "j < length (box_list s)" for j
    using that by (cases "j = i") simp_all
  have "list_step (box_list s) ((box_list s)[i := box_update (subscribers_update (\<lambda>_. [?sub])) (box_list s ! i)])"
    by (rule set_subscriber)
  then have l: "nodes_ok ?l" "list_all intact ?l"
    using nodes_ok_step r b by (auto simp: list_all_length nth_list_update intact_def)
  obtain u where u: "get_old_messages i pipe ?s1 = Ret (0, u)" "tfs_ready (tfs u)"
    "script u = Result fd False # Ready fd # Result 0 False # es" "box_list u = ?l"
    "box_list_mutex u" "files (tfs u) = files (tfs s)" "tfs_spare (tfs s) = Suc (tfs_spare (tfs u))"
    "tfs_limit (tfs u) = tfs_limit (tfs s)" "sent u = sent s @ map (to_subscriber pipe) (replayed (uninit s (objects s)) ms)"
    using get_old_messages_run [of ?s1 i x ms fds _ pipe] r(1) node c held(2) b(5) x sp ev junk
    by auto
  let ?t = "u\<lparr>script := es, box_list_mutex := False\<rparr>"
  have "register_subscriber_command p name s = Ret (0, ?t)"
    using r(3,4) name p i b ev(4,5) u(1,3)
    by (simp add: register_subscriber_command_def bnd_Ret [OF find_box_by_name_run] bnd_Ret bnd_if
        sys_bnds ret_def split del: if_split)
      (auto simp: sys_bnds bnd_Ret ret_def split: if_splits)
  moreover have "holds_messages ?t y ms'" if h: "holds_messages s y ms'" for y ms'
    using h u(4,6) pos sizes position_Some by (fastforce simp: holds_messages_def)
  ultimately show ?thesis unfolding listened using u l by (auto simp: broker_ready_def)
qed

text \<open>
  Where the byte behind the first message is 0 the replay is exact.
\<close>

lemma replayed_exact:
  assumes "list_all message_ok ms" and "ms \<noteq> []" and "memory (length (hd ms)) = 0"
  shows "0 \<in> set (first_object memory ms)" and "replayed memory ms = ms"
proof -
  obtain m rest where ms: "ms = m # rest" using assms(2) by (cases ms) auto
  have m: "is_cstring m" "length m < 1024" using assms(1) ms by (simp_all add: message_ok_def)
  then have "drop (length m) (mem_read memory 0 1024) = 0 # drop (Suc (length m)) (mem_read memory 0 1024)"
    using assms(3) ms by (simp add: Cons_nth_drop_Suc [symmetric])
  then have "first_object memory ms = m @ 0 # drop (Suc (length m)) (mem_read memory 0 1024)"
    by (simp add: first_object_def ms)
  with m show "0 \<in> set (first_object memory ms)" "replayed memory ms = ms" by (simp_all add: ms replayed_def)
qed

text \<open>What is sent for the old messages: each of them, the first perhaps with bytes behind it.\<close>

lemma length_replayed [simp]: "length (replayed memory ms) = length ms"
  by (cases ms) (simp_all add: replayed_def)

lemma replayed_Nil [simp]: "replayed memory [] = []"
  by (simp add: replayed_def)

lemma replayed_messages:
  assumes "list_all message_ok ms" and "0 \<in> set (first_object memory ms)"
  shows "list_all message_ok (replayed memory ms)"
proof (cases ms)
  case (Cons m rest)
  let ?o = "first_object memory ms"
  have m: "message_ok m" "list_all message_ok rest" using assms(1) Cons by simp_all
  then have "hd m \<noteq> 0" by (metis is_cstring_def message_ok_def hd_in_set)
  then have o: "length ?o = 1024" "hd ?o \<noteq> 0" using m Cons
    by (auto simp: first_object_def message_ok_def hd_append)
  have "length (cstr ?o) < 1024" using length_cstr [OF assms(2)] o(1) by simp
  moreover have "cstr ?o \<noteq> []" using o assms(2) by (cases ?o) (auto simp: cstr_def)
  ultimately show ?thesis using m Cons by (simp add: replayed_def message_ok_def)
qed simp

text \<open>The whole session, from the two fields of the request on.\<close>

lemma register_subscriber_run:
  assumes s: "serving s x q subs ms" and ms: "ms \<noteq> []" and x: "x \<noteq> []"
    and sub: "is_cstring sub" "length sub < 256" and fd: "0 \<le> reg_fd" "0 \<le> fd" "fd < 1024"
    and ev: "script s = Got reg_fd (padded 256 sub) # Got reg_fd (padded 32 (47 # x)) #
      deliveries fds @ Result fd False # Ready fd # Result 0 False # es"
      "length fds = length ms" "list_all ((\<le>) 0) fds"
    and mem: "0 \<in> set (first_object (uninit s (Suc (Suc (objects s)))) ms)"
  shows "\<exists>t. register_subscriber reg_fd s = Ret (0, t) \<and> script t = es \<and> broker_ready t \<and>
     (\<forall>y ms'. holds_messages s y ms' \<longrightarrow> holds_messages t y ms') \<and>
     tfs_spare (tfs s) = Suc (tfs_spare (tfs t)) \<and> tfs_limit (tfs t) = tfs_limit (tfs s) \<and>
     first_box t x q (if subs = [] then [\<lparr>sub_named_pipe = sub, sub_box_name = 47 # x\<rparr>] else subs) \<and>
     sent t = sent s @ map (to_subscriber sub) (replayed (uninit s (Suc (Suc (objects s)))) ms)"
proof -
  let ?sub = "\<lparr>sub_named_pipe = sub, sub_box_name = 47 # x\<rparr>"
  let ?t = "s\<lparr>objects := Suc (Suc (objects s)), script :=
      deliveries fds @ Result fd False # Ready fd # Result 0 False # es\<rparr>"
  have "serving ?t x q subs ms" using s serving_cong [of ?t s] by simp
  then have t: "broker_ready ?t" "holds_messages ?t x ms" "0 < tfs_spare (tfs ?t)"
    by (auto simp only: serving_def)
  have pos: "position (47 # x) (box_list ?t) = Some 0" using s by (auto simp: serving_def first_box_def)
  from ready_box(5,6) [OF t(1) pos] have len: "is_cstring x" "length x < 31" by simp_all
  obtain u where u: "register_subscriber_command (padded 256 sub) (padded 32 (47 # x)) ?t = Ret (0, u)"
    "script u = es" "broker_ready u" "\<forall>y ms'. holds_messages ?t y ms' \<longrightarrow> holds_messages u y ms'"
    "tfs_spare (tfs ?t) = Suc (tfs_spare (tfs u))" "tfs_limit (tfs u) = tfs_limit (tfs ?t)"
    "box_list u = listened (the (position (47 # x) (box_list ?t))) ?sub (box_list ?t)"
    "sent u = sent ?t @ map (to_subscriber sub) (replayed (uninit ?t (objects ?t)) ms)"
    using register_subscriber_command_run [OF t(1,2) ms x t(3), of "padded 256 sub" sub
        "padded 32 (47 # x)" fds fd es] sub fd(2,3) ev(2,3) len mem by auto
  have "register_subscriber reg_fd s = Ret (0, u)"
    using fd(1) sub(2) len(2) ev(1) u(1) by (simp add: register_subscriber_def read_field_run bnd_Ret ret_def)
  moreover have "holds_messages ?t y ms' = holds_messages s y ms'" for y ms' by (simp add: holds_messages_def)
  moreover have "sent u = sent s @ map (to_subscriber sub) (replayed (uninit s (Suc (Suc (objects s)))) ms)"
    using u(8) by simp
  moreover have "first_box u x q (if subs = [] then [?sub] else subs)"
  proof (rule first_box_listened)
    show "first_box s x q subs" using s by (simp add: serving_def)
    show "box_list u = listened 0 ?sub (box_list s)" using u(7) pos by simp
  qed
  ultimately show ?thesis using u(2-6) by auto
qed

section \<open>Creating boxes\<close>

definition box_names :: "broker \<Rightarrow> cstring list" where
  "box_names s = map (box_name \<circ> box) (box_list s)"

text \<open>The file of a new box.\<close>

lemma box_file_opens:
  assumes "broker_ready s" and "is_cstring x" and "x \<noteq> []"
  shows "\<exists>(h::int) u. tfs_open (Some (47 # x)) TFS_O_CREAT (tfs s) = Ret (h, u) \<and> tfs_ready u \<and>
     files u = spec_open x TFS_O_CREAT (can_create x (tfs s)) (files (tfs s)) \<and>
     (h < 0 \<longleftrightarrow> open_failed x TFS_O_CREAT (tfs s)) \<and>
     (if h < 0 then tfs_spare u = tfs_spare (tfs s) else tfs_spare (tfs s) = Suc (tfs_spare u))"
proof -
  note r = broker_readyD [OF assms(1)]
  have fs: "fs_inv (tfs s)" "\<not> g_library_mutex (tfs s)" "small_files (tfs s)"
    using r(1) by (simp_all add: tfs_ready_def)
  obtain h u where o: "tfs_open (Some (47 # x)) TFS_O_CREAT (tfs s) = Ret (h, u)" "tfs_ready u"
    "files u = spec_open x TFS_O_CREAT (can_create x (tfs s)) (files (tfs s))"
    "h < 0 \<longleftrightarrow> open_failed x TFS_O_CREAT (tfs s)"
    using tfs_open_files [OF fs assms(2,3), of TFS_O_CREAT] by (auto simp: tfs_ready_def split: if_splits)
  with tfs_open_spare [OF r(1) assms(2,3) _ o(1)] show ?thesis by (auto split: if_splits)
qed

lemma intact_new_box [simp]: "intact (new_box x)"
  by (simp add: intact_def new_box_def)

lemma create_box_command_run:
  assumes ready: "broker_ready s" and name: "cstr name = 47 # x" "0 \<in> set name"
    and x: "x \<noteq> []" "length x < 31"
  shows "if 47 # x \<in> set (box_names s)
     then create_box_command name s = Ret (-1, s\<lparr>box_list_mutex := False\<rparr>)
     else \<exists>(h::int) u. create_box_command name s = Ret (if h < 0 then -1 else 0, s\<lparr>tfs := u, box_list :=
         (if h < 0 then box_list s else box_list s @ [new_box (47 # x)]), box_list_mutex := False\<rparr>) \<and>
       tfs_ready u \<and> files u = spec_open x TFS_O_CREAT (can_create x (tfs s)) (files (tfs s)) \<and>
       (h < 0 \<longleftrightarrow> open_failed x TFS_O_CREAT (tfs s)) \<and>
       (if h < 0 then tfs_spare u = tfs_spare (tfs s) else tfs_spare (tfs s) = Suc (tfs_spare u)) \<and>
       broker_ready (s\<lparr>tfs := u, box_list :=
         (if h < 0 then box_list s else box_list s @ [new_box (47 # x)]), box_list_mutex := False\<rparr>)"
proof (cases "47 # x \<in> set (box_names s)")
  case True
  then have "position (47 # x) (box_list s) \<noteq> None" by (simp add: box_names_def position_None)
  with True broker_readyD(3,4) [OF ready] name show ?thesis
    by (auto simp: create_box_command_def bnd_Ret [OF find_box_by_name_run] unlock_list_return_run)
next
  case False
  then have new: "position (47 # x) (box_list s) = None" by (simp add: box_names_def position_None)
  note r = broker_readyD [OF ready]
  have cs: "is_cstring x" using is_cstring_cstr [of name] name(1) by simp
  obtain h u where o: "tfs_open (Some (47 # x)) TFS_O_CREAT (tfs s) = Ret (h, u)" "tfs_ready u"
    "files u = spec_open x TFS_O_CREAT (can_create x (tfs s)) (files (tfs s))"
    "h < 0 \<longleftrightarrow> open_failed x TFS_O_CREAT (tfs s)"
    and sp: "if h < 0 then tfs_spare u = tfs_spare (tfs s) else tfs_spare (tfs s) = Suc (tfs_spare u)"
    using box_file_opens [OF ready cs x(1)] by blast
  let ?l = "if h < 0 then box_list s else box_list s @ [new_box (47 # x)]"
  have run: "create_box_command name s = Ret (if h < 0 then -1 else 0,
      s\<lparr>tfs := u, box_list := ?l, box_list_mutex := False\<rparr>)"
    using r(3,4) name new o(1) x(2)
    by (auto simp: create_box_command_def bnd_Ret [OF find_box_by_name_run] bnd_Ret [OF in_fs_run]
        unlock_list_return_run)
  have "nodes_ok ?l" "list_all intact ?l"
    using r(2,3) nodes_ok_step [OF append_box, of "47 # x" "box_list s"] cs x(2) False
    by (auto simp: box_names_def intact_def new_box_def)
  then have b: "broker_ready (s\<lparr>tfs := u, box_list := ?l, box_list_mutex := False\<rparr>)"
    using o(2) by (simp add: broker_ready_def)
  show ?thesis
    unfolding if_not_P [OF False]
    by (rule exI [where x = h], rule exI [where x = u]) (use run b o sp in simp)
qed

text \<open>The other boxes keep their messages; a box without a file before starts empty.\<close>

lemma holds_messages_append:
  assumes "holds_messages s y ms" and "files (tfs t) y = files (tfs s) y"
    and "box_list t = box_list s @ l"
  shows "holds_messages t y ms"
proof -
  obtain i where i: "position (47 # y) (box_list s) = Some i"
    "messages_size (box (box_list s ! i)) = map length ms"
    using assms(1) by (auto simp: holds_messages_def)
  with position_Some [OF i(1)] assms show ?thesis
    by (auto simp: holds_messages_def position_append nth_append)
qed

end
