(* ===== verification/Broker_Props.thy ===== *)
theory Broker_Props imports Broker_Boxes Broker_Mutex Fs_Props begin

text \<open>
  The properties of the broker. The small instance has the file system of \<^verbatim>\<open>Fs_Props\<close> with one empty
  file, \<^verbatim>\<open>/a\<close>, and the box of that name.
\<close>

section \<open>A small instance\<close>

definition demo_broker :: "os_event list \<Rightarrow> broker" where
  "demo_broker events = \<lparr>script = events, sent = [], objects = 0, uninit = (\<lambda>_ _. 0), tfs = demo1,
     box_list = [new_box [47, 97]], box_list_mutex = False, pc_queue = None\<rparr>"

lemma demo_broker_fields [simp]:
  "script (demo_broker es) = es" "sent (demo_broker es) = []" "tfs (demo_broker es) = demo1"
  "box_list (demo_broker es) = [new_box [47, 97]]" "\<not> box_list_mutex (demo_broker es)"
  "uninit (demo_broker es) = (\<lambda>_ _. 0)"
  by (simp_all add: demo_broker_def)

lemma demo1_store:
  "tfs_ready demo1" "tfs_spare demo1 = 1" "tfs_has_block demo1" "tfs_limit demo1 = 128"
proof -
  show "tfs_ready demo1" using demo1_state by (simp add: tfs_ready_def)
  have "free_open_file_entries demo1 = [TAKEN, FREE]" by (simp add: demo1_def)
  then show "tfs_spare demo1 = 1" by (simp add: tfs_spare_def taken_def)
  show "tfs_has_block demo1" "tfs_limit demo1 = 128"
    by (simp_all add: tfs_has_block_def tfs_limit_def demo1_fields taken_def demo_params_def)
qed

lemma demo_broker_ready:
  "broker_ready (demo_broker es)" "broker_inv (demo_broker es)"
  "serving (demo_broker es) [97] None [] []"
proof -
  have n: "nodes_ok [new_box [47, 97]]" by (simp add: nodes_ok_def)
  show "broker_ready (demo_broker es)" "broker_inv (demo_broker es)"
    using n demo1_store(1) demo1_state(1) by (simp_all add: broker_ready_def broker_inv_def intact_def new_box_def)
  then show "serving (demo_broker es) [97] None [] []"
    using demo1_store demo1_state(4)
    by (simp add: serving_def first_box_def holds_messages_def new_box_def)
qed

section \<open>All requests\<close>

text \<open>The results of the next \<open>n\<close> rounds of the loop in \<^verbatim>\<open>main\<close>.\<close>

fun requests :: "nat \<Rightarrow> int \<Rightarrow> (broker, int list) prog" where
  "requests 0 fd = ret []"
| "requests (Suc n) fd =
     bnd (mbroker_read_pipe_input fd) (\<lambda>r. bnd (requests n fd) (\<lambda>rs. ret (r # rs)))"

lemma requests_keep:
  assumes "\<And>fd. keeps I (mbroker_read_pipe_input fd) (\<lambda>_. True)"
  shows "keeps I (requests n fd) (\<lambda>_. True)"
  by (induction n) (auto intro!: keeps_basic assms [THEN keeps_bnd] elim!: keeps_bnd)

text \<open>
  C18: whatever requests the clients send and whatever the kernel answers, as long as the broker goes
  on, its file system satisfies its invariant, the names of the boxes are distinct strings of at most
  31 bytes, every recorded message size is less than 1024, no box has more than one subscriber in its
  list and the count of subscribers is 0.
\<close>

theorem broker_inv_requests:
  assumes "tfs s = fs_static" and "box_list s = []" and "good_heap h tfs_default_params"
    and "init_mbroker h queue_memory q pipe n s = Ret (0, s1)"
    and "requests k fd s1 = Ret (rs, t)"
  shows "broker_inv t"
proof -
  have p: "good_params tfs_default_params" by (simp add: good_params_def tfs_default_params_def)
  have "tfs_init h None fs_static = Ret (0, started h tfs_default_params)"
    using tfs_init_run [OF p assms(3)] by (simp add: tfs_init_def)
  then have "broker_inv s1"
    using assms(1,2,4) started_views(1) [OF p assms(3)]
    by (auto simp: init_mbroker_def bnd_Ret [OF in_fs_run] sys_bnds broker_inv_def nodes_ok_def ret_def
        split: prod.splits if_splits list.splits os_event.splits)
  then show ?thesis
    using keepsD [OF requests_keep [OF inv.keeps_read_pipe_input] _ assms(5)] by simp
qed

text \<open>A fresh process, its first request an end of file.\<close>

definition start :: "os_event list \<Rightarrow> broker" where
  "start events = \<lparr>script = events, sent = [], objects = 0, uninit = (\<lambda>_ _. 0), tfs = fs_static,
     box_list = [], box_list_mutex = False, pc_queue = None\<rparr>"

definition no_queue :: "nat pc_queue_t" where
  "no_queue = \<lparr>pcq_buffer = None, pcq_capacity = 0, pcq_current_size = 0, pcq_head = 0, pcq_tail = 0,
     pcq_current_size_lock = None, pcq_head_lock = None, pcq_tail_lock = None,
     pcq_pusher_condvar_lock = None, pcq_popper_condvar_lock = None,
     pcq_pusher_condvar = {}, pcq_popper_condvar = {}\<rparr>"

lemma demo_heap_default: "good_heap demo_heap tfs_default_params" "good_params tfs_default_params"
  by (simp_all add: good_heap_def demo_heap_def good_params_def tfs_default_params_def)

lemma start_init:
  assumes "script s = Result 0 False # Result 0 False # es" and "tfs s = fs_static"
  shows "init_mbroker demo_heap (\<lambda>n. Some (replicate n 0)) no_queue pipe n s = Ret (0, s\<lparr>script := es,
     tfs := started demo_heap tfs_default_params,
     pc_queue := Some (snd (pcq_create (Some (replicate n 0)) n no_queue))\<rparr>)"
  using assms tfs_init_run [OF demo_heap_default(2,1)]
  by (simp add: init_mbroker_def tfs_init_def bnd_Ret [OF in_fs_run] sys_bnds ret_def pcq_create_def)

lemma request_end_of_file:
  "script s = Ready fd # Got fd [] # es \<Longrightarrow> 0 \<le> fd \<Longrightarrow> fd < 1024 \<Longrightarrow>
   mbroker_read_pipe_input fd s = Ret (0, (counted_object s)\<lparr>script := es\<rparr>)"
  by (simp add: mbroker_read_pipe_input_def sys_bnds ret_def)

lemma broker_inv_requests_witness:
  "\<exists>s1 t. init_mbroker demo_heap (\<lambda>n. Some (replicate n 0)) no_queue [112] 2
       (start [Result 0 False, Result 0 False, Ready 3, Got 3 []]) = Ret (0, s1) \<and>
     requests 1 3 s1 = Ret ([0], t) \<and> broker_inv t"
proof -
  let ?s = "start [Result 0 False, Result 0 False, Ready 3, Got 3 []]"
  let ?s1 = "?s\<lparr>script := [Ready 3, Got 3 []], tfs := started demo_heap tfs_default_params,
     pc_queue := Some (snd (pcq_create (Some (replicate 2 0)) 2 no_queue))\<rparr>"
  have i: "init_mbroker demo_heap (\<lambda>n. Some (replicate n 0)) no_queue [112] 2 ?s = Ret (0, ?s1)"
    using start_init [of ?s "[Ready 3, Got 3 []]"] by (simp add: start_def)
  have r: "requests 1 3 ?s1 = Ret ([0], (counted_object ?s1)\<lparr>script := []\<rparr>)"
    using request_end_of_file [of ?s1 3 "[]"] by (simp add: bnd_def ret_def)
  have "tfs ?s = fs_static" "box_list ?s = []" by (simp_all add: start_def)
  from broker_inv_requests [OF this demo_heap_default(1) i r] i r show ?thesis by blast
qed

text \<open>
  C19: the mutex of the list is free again after every request that returns, on whatever path the
  commands return: they never leave it locked for the next one.
\<close>

theorem list_mutex_free_between_requests:
  assumes "\<not> box_list_mutex s" and "requests k fd s = Ret (rs, t)"
  shows "\<not> box_list_mutex t"
  using keepsD [OF requests_keep [OF keeps_free_read_pipe_input] assms] by simp

lemma list_mutex_free_between_requests_witness:
  "\<exists>t. requests 1 3 (demo_broker [Ready 3, Got 3 []]) = Ret ([0], t) \<and> \<not> box_list_mutex t"
proof -
  let ?s = "demo_broker [Ready 3, Got 3 []]"
  have r: "requests 1 3 ?s = Ret ([0], (counted_object ?s)\<lparr>script := []\<rparr>)"
    using request_end_of_file [of ?s 3 "[]"] by (simp add: bnd_def ret_def)
  then show ?thesis using list_mutex_free_between_requests [OF _ r] by simp
qed

text \<open>
  The rounds the model gives the two endless loops are enough. More rounds change nothing, and
  with the given number the loops satisfy the equations of \<^verbatim>\<open>while (true)\<close>: every round uses up at
  least one answer of the kernel.
\<close>

lemma loops_have_enough_rounds:
  assumes "nodes_ok (box_list s)" and "length (script s) < fuel"
  shows "main_loop fuel fd s = main_loop (Suc (length (script s))) fd s \<and>
     main_loop (Suc (length (script s))) fd s =
       bnd (mbroker_read_pipe_input fd) (\<lambda>r. if r < 0 then ret (-1)
         else (\<lambda>t. main_loop (Suc (length (script t))) fd t)) s \<and>
     listen_loop fuel fd p name s = listen_loop (Suc (length (script s))) fd p name s \<and>
     listen_loop (Suc (length (script s))) fd p name s =
       bnd (read_publisher_pipe_input fd p name) (\<lambda>r. if r < 0 \<or> r = 1 then ret r
         else (\<lambda>t. listen_loop (Suc (length (script t))) fd p name t)) s"
proof -
  have m: "main_loop (length (script s)) fd t = main_loop (Suc (length (script t))) fd t"
    if "mbroker_read_pipe_input fd s = Ret (r, t)" for r t
    using round_takes_event [OF assms(1) disjI1 [OF that]] by (intro main_loop_fuel) auto
  have l: "listen_loop (length (script s)) fd p name t = listen_loop (Suc (length (script t))) fd p name t"
    if "read_publisher_pipe_input fd p name s = Ret (r, t)" for r t
    using round_takes_event [OF assms(1) disjI2 [OF that]] by (intro listen_loop_fuel) auto
  have "main_loop (Suc (length (script s))) fd s =
      bnd (mbroker_read_pipe_input fd) (\<lambda>r. if r < 0 then ret (-1)
        else (\<lambda>t. main_loop (Suc (length (script t))) fd t)) s"
    using m by (simp only: main_loop.simps) (rule bnd_same, simp)
  moreover have "listen_loop (Suc (length (script s))) fd p name s =
      bnd (read_publisher_pipe_input fd p name) (\<lambda>r. if r < 0 \<or> r = 1 then ret r
        else (\<lambda>t. listen_loop (Suc (length (script t))) fd p name t)) s"
    using l by (simp only: listen_loop.simps) (rule bnd_same, simp)
  ultimately show ?thesis
    using main_loop_fuel [OF assms lessI] listen_loop_fuel [OF assms lessI] by blast
qed

lemma loops_have_enough_rounds_witness:
  "main_loop 5 3 (demo_broker [Ready 3, Got 3 []]) =
     main_loop 3 3 (demo_broker [Ready 3, Got 3 []])"
proof -
  let ?s = "demo_broker [Ready 3, Got 3 []]"
  have "main_loop 5 3 ?s = main_loop (Suc (length (script ?s))) 3 ?s"
    by (rule conjunct1 [OF loops_have_enough_rounds]) (simp_all add: nodes_ok_def)
  moreover have "Suc (length (script ?s)) = 3" by simp
  ultimately show ?thesis by (simp only:)
qed

section \<open>Boxes and their messages\<close>

text \<open>
  C6: \<^verbatim>\<open>create_box_command\<close> adds the box at the end of the list, exactly when no box has that name and the
  file system can open the file; otherwise it answers -1 and the list stays. A new file makes a box
  without messages, and the other boxes keep theirs. Every success takes a file handle for good.
\<close>

theorem create_box_refines:
  assumes "broker_ready s" and "cstr name = 47 # x" and "0 \<in> set name" and "x \<noteq> []" and "length x < 31"
  shows "\<exists>r t. create_box_command name s = Ret (r, t) \<and> broker_ready t \<and>
     (\<forall>y ms. y \<noteq> x \<longrightarrow> holds_messages s y ms \<longrightarrow> holds_messages t y ms) \<and>
     (if 47 # x \<in> set (box_names s) \<or> open_failed x TFS_O_CREAT (tfs s)
      then r = -1 \<and> box_names t = box_names s \<and> tfs_spare (tfs t) = tfs_spare (tfs s)
      else r = 0 \<and> box_names t = box_names s @ [47 # x] \<and> tfs_spare (tfs s) = Suc (tfs_spare (tfs t)) \<and>
        (if x \<in> dom (files (tfs s)) then files (tfs t) = files (tfs s) else holds_messages t x []))"
proof (cases "47 # x \<in> set (box_names s)")
  case True
  let ?t = "s\<lparr>box_list_mutex := False\<rparr>"
  have "create_box_command name s = Ret (-1, ?t)" using create_box_command_run [OF assms] True by simp
  moreover have "broker_ready ?t" using assms(1) by (simp add: broker_ready_def)
  moreover have "holds_messages ?t y ms = holds_messages s y ms" for y ms by (simp add: holds_messages_def)
  ultimately show ?thesis using True by (auto simp: box_names_def)
next
  case False
  obtain h :: int and u where c: "create_box_command name s = Ret (if h < 0 then -1 else 0, s\<lparr>tfs := u,
      box_list := (if h < 0 then box_list s else box_list s @ [new_box (47 # x)]), box_list_mutex := False\<rparr>)"
    "files u = spec_open x TFS_O_CREAT (can_create x (tfs s)) (files (tfs s))"
    "h < 0 \<longleftrightarrow> open_failed x TFS_O_CREAT (tfs s)"
    "if h < 0 then tfs_spare u = tfs_spare (tfs s) else tfs_spare (tfs s) = Suc (tfs_spare u)"
    "broker_ready (s\<lparr>tfs := u, box_list :=
         (if h < 0 then box_list s else box_list s @ [new_box (47 # x)]), box_list_mutex := False\<rparr>)"
    using create_box_command_run [OF assms, unfolded if_not_P [OF False]] by blast
  let ?l = "if h < 0 then [] else [new_box (47 # x)]"
  let ?t = "s\<lparr>tfs := u, box_list := box_list s @ ?l, box_list_mutex := False\<rparr>"
  have t: "create_box_command name s = Ret (if h < 0 then -1 else 0, ?t)" "broker_ready ?t"
    using c(1,5) by (auto split: if_splits)
  have "files u y = files (tfs s) y" if "y \<noteq> x" for y
    using c(2) that by (auto simp: spec_open_def split: option.splits)
  then have others: "\<forall>y ms. y \<noteq> x \<longrightarrow> holds_messages s y ms \<longrightarrow> holds_messages ?t y ms"
    using holds_messages_append [of s _ _ ?t ?l] by simp
  have "position (47 # x) (box_list s) = None" using False by (simp add: box_names_def position_None)
  then have fresh: "holds_messages ?t x []" if "\<not> h < 0" "x \<notin> dom (files (tfs s))"
    using that c(2,3) by (auto simp: holds_messages_def position_append spec_open_def open_failed_def
        new_box_def domIff)
  have dom: "files u = files (tfs s)" if "x \<in> dom (files (tfs s))"
    using that c(2) by (auto simp: spec_open_def)
  show ?thesis
    using t others fresh dom c(3,4) False
    by (intro exI [of _ "if h < 0 then -1 else 0"] exI [of _ ?t]) (auto simp: box_names_def)
qed

text \<open>The instance with two bytes in \<^verbatim>\<open>/a\<close>.\<close>

lemma demo2_store: "tfs_ready demo2" "tfs_spare demo2 = 1" "tfs_limit demo2 = 128"
  using demo2_state demo2_fields(2)
  by (simp_all add: tfs_ready_def tfs_spare_def taken_def tfs_limit_def demo_params_def)

lemma demo2_broker_ready: "broker_ready ((demo_broker es)\<lparr>tfs := demo2\<rparr>)"
  using demo_broker_ready(1) [of es] demo2_store(1) by (simp add: broker_ready_def)

lemma create_box_refines_witness:
  "\<exists>t. create_box_command [47, 98, 0] ((demo_broker [])\<lparr>tfs := demo2\<rparr>) = Ret (0, t) \<and>
     box_names t = [[47, 97], [47, 98]] \<and> holds_messages t [98] []"
proof -
  have "first_free (freeinode_ts demo2) \<noteq> None"
    by (simp add: demo2_fields first_free_None)
  then have "\<not> open_failed [98] TFS_O_CREAT demo2" "[98] \<notin> dom (files demo2)"
    using demo2_store(2) tfs_spare_None [of demo2] demo2_state(4) demo2_fields(4)
    by (simp_all add: open_failed_def can_create_def root_room_def)
  then show ?thesis
    using create_box_refines [OF demo2_broker_ready, of "[47, 98, 0]" "[98]" "[]"]
    by (auto simp: box_names_def new_box_def)
qed

text \<open>
  Publishing a message to a box with room appends it to the box's messages, leaves every other box
  as it is and gives its file handle back.
\<close>

theorem write_to_box_appends:
  assumes "broker_ready s" and "holds_messages s x ms" and "x \<noteq> []" and "message_ok m"
    and "cstr name = 47 # x" and "0 \<in> set name" and "cstr message = m" and "0 \<in> set message"
    and "0 < tfs_spare (tfs s)" and "length (concat ms) + length m \<le> tfs_limit (tfs s)"
    and "ms \<noteq> [] \<or> tfs_has_block (tfs s)"
  shows "\<exists>t. write_to_box name message (length m) s = Ret (0, t) \<and> broker_ready t \<and>
     holds_messages t x (ms @ [m]) \<and>
     (\<forall>y ms'. y \<noteq> x \<longrightarrow> holds_messages s y ms' \<longrightarrow> holds_messages t y ms') \<and>
     box_names t = box_names s \<and> tfs_spare (tfs t) = tfs_spare (tfs s) \<and> sent t = sent s"
proof -
  obtain i where i: "position (47 # x) (box_list s) = Some i"
    and c: "files (tfs s) x = Some (concat ms)" "list_all message_ok ms"
    using assms(2) by (auto simp: holds_messages_def)
  have m: "0 < length m" "length m < 1024" "length m \<le> length message"
    using assms(4,8) length_cstr [OF assms(8)] assms(7) by (simp_all add: message_ok_def)
  have room: "concat ms \<noteq> [] \<or> tfs_has_block (tfs s)"
    using assms(11) concat_messages_ne [OF c(2)] by blast
  obtain u where u: "write_to_box name message (length m) s = Ret (0, s\<lparr>tfs := u,
      box_list := added_size i (length m) (box_list s), box_list_mutex := False\<rparr>)"
    "files u = (files (tfs s))(x \<mapsto> concat ms @ take (length m) message)"
    "tfs_spare u = tfs_spare (tfs s)"
    "broker_ready (s\<lparr>tfs := u, box_list := added_size i (length m) (box_list s), box_list_mutex := False\<rparr>)"
    using write_to_box_run [OF assms(1) i c(1) assms(3,9,5,6) m(1,3,2) assms(10) room] by blast
  let ?t = "s\<lparr>tfs := u, box_list := added_size i (length m) (box_list s), box_list_mutex := False\<rparr>"
  have "take (length m) message = m" using take_cstr [of message] assms(7) by simp
  then have f: "files (tfs ?t) = (files (tfs s))(x \<mapsto> concat ms @ m)" using u(2) by simp
  have l: "box_list ?t = added_size i (length m) (box_list s)" by simp
  have "box_names ?t = box_names s" by (simp add: box_names_def added_size_def names_update)
  with u(1,3,4) holds_messages_added [OF assms(2,4) i f l] show ?thesis
    by (intro exI [of _ ?t]) simp
qed

lemma write_to_box_appends_witness:
  "\<exists>t. write_to_box [47, 97, 0] [104, 105, 0] (length [104, 105 :: byte]) (demo_broker []) = Ret (0, t) \<and>
     holds_messages t [97] [[104, 105]]"
proof -
  have "holds_messages (demo_broker []) [97] []" using demo_broker_ready(3) by (simp add: serving_def)
  from write_to_box_appends [OF demo_broker_ready(1) this, of "[104, 105]" "[47, 97, 0]" "[104, 105, 0]"]
  show ?thesis using demo1_store by (auto simp: message_ok_def)
qed

text \<open>
  A new subscriber is sent the messages of the box, one per write, in the order in which they were
  published, when the kernel lets every write through. From the second on each is exact. The first was
  read into memory that was not cleared: it is sent together with the bytes up to the first 0 behind
  it. The boxes keep their messages, the file handle stays taken.
\<close>

theorem subscriber_gets_old_messages:
  assumes "broker_ready s" and "holds_messages s x ms" and "ms \<noteq> []" and "x \<noteq> []"
    and "0 < tfs_spare (tfs s)"
    and "cstr p = pipe" and "0 \<in> set p" and "length pipe < 256"
    and "cstr name = 47 # x" and "0 \<in> set name"
    and "script s = deliveries fds @ Result fd False # Ready fd # Result 0 False # es"
    and "length fds = length ms" and "list_all ((\<le>) 0) fds" and "0 \<le> fd" and "fd < 1024"
    and "0 \<in> set (first_object (uninit s (objects s)) ms)"
  shows "\<exists>t. register_subscriber_command p name s = Ret (0, t) \<and> broker_ready t \<and>
     sent t = sent s @ map (to_subscriber pipe) (replayed (uninit s (objects s)) ms) \<and>
     (uninit s (objects s) (length (hd ms)) = 0 \<longrightarrow> replayed (uninit s (objects s)) ms = ms) \<and>
     (\<forall>y ms'. holds_messages s y ms' \<longrightarrow> holds_messages t y ms') \<and>
     tfs_spare (tfs s) = Suc (tfs_spare (tfs t))"
proof -
  have "list_all message_ok ms" using assms(2) by (simp add: holds_messages_def)
  then have "uninit s (objects s) (length (hd ms)) = 0 \<longrightarrow> replayed (uninit s (objects s)) ms = ms"
    using replayed_exact(2) assms(3) by blast
  with register_subscriber_command_run [OF assms] show ?thesis by blast
qed

text \<open>The instance whose box holds one message.\<close>

definition demo_held :: "os_event list \<Rightarrow> broker" where
  "demo_held events = (demo_broker events)\<lparr>tfs := demo2, box_list := added_size 0 2 [new_box [47, 97]]\<rparr>"

lemma demo_held_fields [simp]:
  "script (demo_held es) = es" "sent (demo_held es) = []" "tfs (demo_held es) = demo2"
  "uninit (demo_held es) = (\<lambda>_ _. 0)" "\<not> box_list_mutex (demo_held es)"
  by (simp_all add: demo_held_def)

lemma demo_held_state:
  "broker_ready (demo_held es)" "holds_messages (demo_held es) [97] [[104, 105]]"
proof -
  have "list_step [new_box [47, 97]] (added_size 0 2 [new_box [47, 97]])"
    unfolding added_size_def by (rule add_size) simp
  then have "nodes_ok (added_size 0 2 [new_box [47, 97]])"
    by (rule nodes_ok_step) (simp add: nodes_ok_def)
  then show "broker_ready (demo_held es)"
    using demo2_store(1) by (simp add: broker_ready_def demo_held_def intact_def added_size_def new_box_def)
  show "holds_messages (demo_held es) [97] [[104, 105]]"
    by (simp add: holds_messages_def demo_held_def demo2_state(4) added_size_def new_box_def message_ok_def)
qed

lemma demo_held_first: "first_object (\<lambda>_. 0) [[104, 105]] = [104, 105] @ replicate 1022 0"
  by (simp add: first_object_def mem_read_def map_replicate_const)

lemma subscriber_gets_old_messages_witness:
  "\<exists>t. register_subscriber_command [112, 0] [47, 97, 0]
       (demo_held (deliveries [4] @ [Result 5 False, Ready 5, Result 0 False])) = Ret (0, t) \<and>
     sent t = [to_subscriber [112] [104, 105]]"
proof -
  let ?s = "demo_held (deliveries [4] @ [Result 5 False, Ready 5, Result 0 False])"
  have "0 \<in> set (first_object (uninit ?s (objects ?s)) [[104, 105]])" by (simp add: demo_held_first)
  then have "\<exists>t. register_subscriber_command [112, 0] [47, 97, 0] ?s = Ret (0, t) \<and> broker_ready t \<and>
     sent t = sent ?s @ map (to_subscriber [112]) (replayed (uninit ?s (objects ?s)) [[104, 105]]) \<and>
     (uninit ?s (objects ?s) (length (hd [[104, 105 :: byte]])) = 0 \<longrightarrow>
       replayed (uninit ?s (objects ?s)) [[104, 105]] = [[104, 105]]) \<and>
     (\<forall>y ms'. holds_messages ?s y ms' \<longrightarrow> holds_messages t y ms') \<and>
     tfs_spare (tfs ?s) = Suc (tfs_spare (tfs t))"
    using demo2_store
    by (intro subscriber_gets_old_messages [OF demo_held_state, where fds = "[4]" and fd = 5 and es = "[]"])
      auto
  then show ?thesis by (auto simp: demo_held_first)
qed

text \<open>
  Publishing and subscribing round trip. A publisher signs in to the first box, sends its messages
  and leaves; then a subscriber signs in. Where the kernel lets everything through, the messages fit
  the block, the subscriber is sent the messages the box had and those of the session, the first
  with what its buffer holds behind it, in order, and the subscribers that were there got each message when it was
  published.
\<close>

theorem publish_then_subscribe:
  assumes "serving s x None subs ms" and "rounds_ok subs rs" and "x \<noteq> []" and "ms @ map fst rs \<noteq> []"
    and "length (concat ms) + length (concat (map fst rs)) \<le> tfs_limit (tfs s)"
    and "is_cstring pub" "length pub < 256" and "is_cstring sub" "length sub < 256"
    and "0 \<le> reg_fd" and "0 \<le> fd" "fd < 1024" and "0 \<le> fd'" "fd' < 1024"
    and "script s = Got reg_fd (padded 256 pub) # Got reg_fd (padded 32 (47 # x)) # Result fd False #
      published fd rs @ Ready fd # Got fd [] # Result 0 False #
      Got reg_fd (padded 256 sub) # Got reg_fd (padded 32 (47 # x)) #
      deliveries fds @ Result fd' False # Ready fd' # Result 0 False # es"
    and "length fds = length ms + length rs" and "list_all ((\<le>) 0) fds"
    and "\<forall>k. 0 \<in> set (first_object (uninit s k) (ms @ map fst rs))"
  shows "\<exists>t u k. register_publisher reg_fd s = Ret (0, t) \<and> register_subscriber reg_fd t = Ret (0, u) \<and>
     sent u = sent s @ spread_all subs (map fst rs) @ map (to_subscriber sub) (replayed (uninit s k) (ms @ map fst rs)) \<and>
     broker_ready u \<and> holds_messages u x (ms @ map fst rs)"
proof -
  let ?ms = "ms @ map fst rs"
  obtain t where t: "register_publisher reg_fd s = Ret (0, t)" "serving t x None subs ?ms"
    "script t = Got reg_fd (padded 256 sub) # Got reg_fd (padded 32 (47 # x)) #
      deliveries fds @ Result fd' False # Ready fd' # Result 0 False # es"
    "sent t = sent s @ spread_all subs (map fst rs)" "tfs_spare (tfs t) = tfs_spare (tfs s)"
    using register_publisher_run [OF assms(1-3,5-7,10-12,15)] by blast
  have "nodes_ok (box_list s)" using assms(1) by (simp add: serving_def broker_ready_def)
  then have mem: "uninit t = uninit s"
    using keepsD [OF memory.keeps_sessions(1) _ t(1), of "uninit s"] by blast
  then have "0 \<in> set (first_object (uninit t (Suc (Suc (objects t)))) ?ms)" using assms(18) by simp
  then obtain u where "register_subscriber reg_fd t = Ret (0, u)" "broker_ready u"
    "\<forall>y ms'. holds_messages t y ms' \<longrightarrow> holds_messages u y ms'"
    "sent u = sent t @ map (to_subscriber sub) (replayed (uninit s (Suc (Suc (objects t)))) ?ms)"
    using register_subscriber_run [OF t(2) assms(4,3,8,9,10,13,14) t(3)] assms(4,16,17) mem by auto
  moreover have "holds_messages t x ?ms" using t(2) by (simp add: serving_def)
  ultimately show ?thesis using t(1,4) by auto
qed

lemma publish_then_subscribe_witness:
  "\<exists>t u. register_publisher 3 (demo_broker (Got 3 (padded 256 [112]) # Got 3 (padded 32 [47, 97]) #
       Result 4 False # published 4 [([104, 105], []), ([33], [])] @ Ready 4 # Got 4 [] # Result 0 False #
       Got 3 (padded 256 [115]) # Got 3 (padded 32 [47, 97]) #
       deliveries [5, 6] @ [Result 7 False, Ready 7, Result 0 False])) = Ret (0, t) \<and>
     register_subscriber 3 t = Ret (0, u) \<and>
     sent u = [to_subscriber [115] [104, 105], to_subscriber [115] [33]]"
proof -
  let ?es = "Got 3 (padded 256 [112]) # Got 3 (padded 32 [47, 97]) #
       Result 4 False # published 4 [([104, 105], []), ([33], [])] @ Ready 4 # Got 4 [] # Result 0 False #
       Got 3 (padded 256 [115]) # Got 3 (padded 32 [47, 97]) #
       deliveries [5, 6] @ [Result 7 False, Ready 7, Result 0 False]"
  have "\<exists>t u k. register_publisher 3 (demo_broker ?es) = Ret (0, t) \<and> register_subscriber 3 t = Ret (0, u) \<and>
     sent u = sent (demo_broker ?es) @ spread_all [] (map fst [([104, 105], [] :: int list), ([33], [])]) @
       map (to_subscriber [115]) (replayed (uninit (demo_broker ?es) k)
         ([] @ map fst [([104, 105], [] :: int list), ([33], [])])) \<and>
     broker_ready u \<and> holds_messages u [97] ([] @ map fst [([104, 105], [] :: int list), ([33], [])])"
    by (rule publish_then_subscribe [OF demo_broker_ready(3), where fds = "[5, 6]" and fd = 4 and fd' = 7
          and pub = "[112]" and es = "[]"])
      (simp_all add: rounds_ok_def message_ok_def demo1_store first_object_def mem_read_def map_replicate_const
          del: deliveries_simps)
  then show ?thesis by (auto simp: spread_all_def replayed_def first_object_def mem_read_def map_replicate_const)
qed

end
