(* ===== verification/Broker_Limits.thy ===== *)
theory Broker_Limits imports Broker_Props begin

text \<open>
  The bounds of the broker and the places where it does not keep its promises: each is an input on
  which the code, as it is written, ends, stops or does something else than its answer says.
\<close>

section \<open>The number of boxes\<close>

text \<open>A sequence of requests to create boxes.\<close>

fun create_boxes :: "byte list list \<Rightarrow> (broker, int list) prog" where
  "create_boxes [] = ret []"
| "create_boxes (name # names) =
     bnd (create_box_command name) (\<lambda>r. bnd (create_boxes names) (\<lambda>rs. ret (r # rs)))"

definition path_object :: "byte list \<Rightarrow> bool" where
  "path_object buf \<longleftrightarrow> 0 \<in> set buf \<and> length (cstr buf) < 32 \<and> 1 < length (cstr buf) \<and> hd (cstr buf) = 47"

lemma create_box_spare:
  assumes "broker_ready s" and "path_object name"
  shows "\<exists>r t. create_box_command name s = Ret (r, t) \<and> broker_ready t \<and>
     tfs_spare (tfs s) = (if r = 0 then 1 else 0) + tfs_spare (tfs t)"
proof -
  obtain x where x: "cstr name = 47 # x" "x \<noteq> []" "length x < 31" "0 \<in> set name"
    using assms(2) by (cases "cstr name") (auto simp: path_object_def)
  note run = create_box_command_run [OF assms(1) x(1,4,2,3)]
  show ?thesis
  proof (cases "47 # x \<in> set (box_names s)")
    case True
    with run assms(1) show ?thesis by (auto simp: broker_ready_def)
  next
    case False
    then obtain h :: int and u where c: "create_box_command name s = Ret (if h < 0 then -1 else 0, s\<lparr>tfs := u,
        box_list := (if h < 0 then box_list s else box_list s @ [new_box (47 # x)]), box_list_mutex := False\<rparr>)"
      "if h < 0 then tfs_spare u = tfs_spare (tfs s) else tfs_spare (tfs s) = Suc (tfs_spare u)"
      "broker_ready (s\<lparr>tfs := u,
         box_list := (if h < 0 then box_list s else box_list s @ [new_box (47 # x)]), box_list_mutex := False\<rparr>)"
      using run [unfolded if_not_P [OF False]] by blast
    show ?thesis by (cases "h < 0") (use c in simp_all)
  qed
qed

lemma create_boxes_spare:
  "broker_ready s \<Longrightarrow> list_all path_object names \<Longrightarrow> create_boxes names s = Ret (rs, t) \<Longrightarrow>
   broker_ready t \<and> length (filter ((=) 0) rs) + tfs_spare (tfs t) = tfs_spare (tfs s)"
proof (induction names arbitrary: s rs)
  case Nil
  then show ?case by (simp add: ret_def)
next
  case (Cons name names)
  from Cons.prems obtain r u where r: "create_box_command name s = Ret (r, u)" "broker_ready u"
    "tfs_spare (tfs s) = (if r = 0 then 1 else 0) + tfs_spare (tfs u)"
    using create_box_spare [of s name] by auto
  with Cons.prems(3) obtain rs' where rs: "create_boxes names u = Ret (rs', t)" "rs = r # rs'"
    by (auto simp: bnd_def ret_def split: outcome.splits prod.splits)
  from Cons.IH [OF r(2) _ rs(1)] Cons.prems(2) r(3) rs(2) show ?case by (auto split: if_splits)
qed

lemma started_spare: "good_params p \<Longrightarrow> good_heap h p \<Longrightarrow> tfs_spare (started h p) = max_open_files_count p"
  by (simp add: tfs_spare_def started_def taken_def)

text \<open>
  C38: each box keeps a file handle open for ever, so a broker that starts with the default parameters
  of the file system creates at most 16 boxes, whatever their paths and however many requests are made.
\<close>

theorem at_most_16_boxes:
  assumes "good_heap h tfs_default_params" and "tfs s = started h tfs_default_params"
    and "box_list s = []" and "\<not> box_list_mutex s"
    and "list_all path_object names" and "create_boxes names s = Ret (rs, t)"
  shows "length (filter ((=) 0) rs) + tfs_spare (tfs t) = 16 \<and> length (filter ((=) 0) rs) \<le> 16"
proof -
  note p = demo_heap_default(2)
  have "tfs_ready (tfs s)"
    using started_views [OF p assms(1)] small_files_started [OF p assms(1)] assms(2)
    by (simp add: tfs_ready_def)
  then have "broker_ready s" using assms(3,4) by (simp add: broker_ready_def nodes_ok_def)
  from create_boxes_spare [OF this assms(5,6)] started_spare [OF p assms(1)] assms(2)
  show ?thesis by (simp add: tfs_default_params_def)
qed

lemma at_most_16_boxes_witness:
  "\<exists>rs t. create_boxes [[47, 97, 0]] ((demo_broker [])\<lparr>tfs := started demo_heap tfs_default_params,
       box_list := []\<rparr>) = Ret (rs, t) \<and> length (filter ((=) 0) rs) \<le> 16"
proof -
  let ?s = "(demo_broker [])\<lparr>tfs := started demo_heap tfs_default_params, box_list := []\<rparr>"
  note p = demo_heap_default
  have "broker_ready ?s"
    using started_views [OF p(2,1)] small_files_started [OF p(2,1)]
    by (simp add: broker_ready_def nodes_ok_def tfs_ready_def)
  then obtain r t where "create_box_command [47, 97, 0] ?s = Ret (r, t)"
    using create_box_spare [of ?s "[47, 97, 0]"] by (auto simp: path_object_def)
  then have run: "create_boxes [[47, 97, 0]] ?s = Ret ([r], t)" by (simp add: bnd_def ret_def)
  with at_most_16_boxes [OF p(1) _ _ _ _ run] show ?thesis by (auto simp: path_object_def)
qed

section \<open>Boxes without messages\<close>

lemma open_and_rewind:
  assumes "tfs_ready s" and "files s x = Some c" and "is_cstring x" and "x \<noteq> []" and "0 < tfs_spare s"
  shows "\<exists>h t u. tfs_open (Some (47 # x)) TFS_O_APPEND s = Ret (h, t) \<and> 0 \<le> h \<and>
     tfs_rewind_offset h t = Ret (0, u) \<and> (c = [] \<longrightarrow> g_library_mutex u)"
proof -
  obtain h t where o: "tfs_open (Some (47 # x)) TFS_O_APPEND s = Ret (h, t)" "0 \<le> h" "tfs_ready t"
    "tfs_positioned t h x (length c)"
    using tfs_store.open_law [OF assms] by blast
  with tfs_rewind_offset_run [of t h] show ?thesis by (auto simp: tfs_ready_def tfs_positioned_def)
qed

text \<open>The command up to the first call of the file system.\<close>

lemma register_subscriber_command_start:
  assumes "broker_ready s" and "position (47 # x) (box_list s) = Some i"
    and "0 \<in> set p" and "length (cstr p) < 256" and "cstr name = 47 # x" and "0 \<in> set name"
  shows "\<exists>l. register_subscriber_command p name s =
       bnd (get_old_messages i (cstr p)) (\<lambda>r. if r < 0 then unlock_list_return (-1)
         else bnd (sys_open (cstr p)) (\<lambda>pipe_fd. if pipe_fd = -1 then unlock_list_return (-1)
           else bnd (sys_select pipe_fd) (\<lambda>sel. if sel = -1 then unlock_list_return (-1)
             else thn unlock_list (bnd (sys_close pipe_fd) (\<lambda>c. ret (if c = -1 then -1 else 0))))))
         (s\<lparr>box_list_mutex := True, box_list := l\<rparr>) \<and>
     i < length l \<and> \<not> box_freed (l ! i) \<and> box_name (box (l ! i)) = 47 # x \<and>
     messages_size (box (l ! i)) = messages_size (box (box_list s ! i))"
proof -
  note b = ready_box [OF assms(1,2)] and r = broker_readyD [OF assms(1)]
  let ?sub = "\<lparr>sub_named_pipe = cstr p, sub_box_name = 47 # x\<rparr>"
  let ?l = "if subscribers (box (box_list s ! i)) = []
     then (box_list s)[i := box_update (subscribers_update (\<lambda>_. [?sub])) (box_list s ! i)] else box_list s"
  show ?thesis
    using assms r(3,4) b
    by (intro exI [of _ ?l])
      (simp add: register_subscriber_command_def bnd_Ret [OF find_box_by_name_run] bnd_if)
qed

text \<open>
  Subscribing to a box to which nothing was published is undefined: the command takes the size of
  the first message from a list that does not exist.
\<close>

theorem subscribe_without_messages_undefined:
  assumes "broker_ready s" and "position (47 # x) (box_list s) = Some i"
    and "messages_size (box (box_list s ! i)) = []" and "x \<in> dom (files (tfs s))" and "x \<noteq> []"
    and "0 < tfs_spare (tfs s)"
    and "0 \<in> set p" and "length (cstr p) < 256" and "cstr name = 47 # x" and "0 \<in> set name"
  shows "register_subscriber_command p name s = Undef"
proof -
  obtain c where c: "files (tfs s) x = Some c" using assms(4) by auto
  obtain l where run: "register_subscriber_command p name s =
       bnd (get_old_messages i (cstr p)) (\<lambda>r. if r < 0 then unlock_list_return (-1)
         else bnd (sys_open (cstr p)) (\<lambda>pipe_fd. if pipe_fd = -1 then unlock_list_return (-1)
           else bnd (sys_select pipe_fd) (\<lambda>sel. if sel = -1 then unlock_list_return (-1)
             else thn unlock_list (bnd (sys_close pipe_fd) (\<lambda>c. ret (if c = -1 then -1 else 0))))))
         (s\<lparr>box_list_mutex := True, box_list := l\<rparr>)"
    and l: "i < length l" "\<not> box_freed (l ! i)" "box_name (box (l ! i)) = 47 # x" "messages_size (box (l ! i)) = []"
    using register_subscriber_command_start [OF assms(1,2,7-10)] assms(3) by auto
  have "get_old_messages i (cstr p) (s\<lparr>box_list_mutex := True, box_list := l\<rparr>) = Undef"
    using open_and_rewind [OF broker_readyD(1) [OF assms(1)] c ready_box(5) [OF assms(1,2)] assms(5,6)] l
    by (auto simp: get_old_messages_def bnd_Ret [OF in_fs_run])
  then show ?thesis unfolding run by (simp add: bnd_def)
qed

lemma subscribe_without_messages_undefined_witness:
  "register_subscriber_command [112, 0] [47, 97, 0] (demo_broker []) = Undef"
  by (rule subscribe_without_messages_undefined [OF demo_broker_ready(1), of "[97]" _ 0])
    (simp_all add: new_box_def demo1_state(4) demo1_store)

text \<open>
  C37: an empty message blocks the broker. Publishing it to a new box succeeds and records the size 0;
  the next subscriber of the box rewinds a handle that is at offset 0, which leaves the mutex of the
  file system locked, and the read that follows waits for it for ever.
\<close>

theorem empty_message_deadlocks_subscribers:
  assumes "broker_ready s" and "position (47 # x) (box_list s) = Some i"
    and "messages_size (box (box_list s ! i)) = []" and "files (tfs s) x = Some []" and "x \<noteq> []"
    and "0 < tfs_spare (tfs s)"
    and "0 \<in> set p" and "length (cstr p) < 256" and "cstr name = 47 # x" and "0 \<in> set name"
  shows "\<exists>t. write_to_box name message 0 s = Ret (0, t) \<and>
     register_subscriber_command p name t = Deadlock"
proof -
  note r = broker_readyD [OF assms(1)] and b = ready_box [OF assms(1,2)]
  obtain h s1 where o: "tfs_open (Some (47 # x)) TFS_O_APPEND (tfs s) = Ret (h, s1)" "0 \<le> h" "tfs_ready s1"
    "files s1 = files (tfs s)" "tfs_positioned s1 h x 0" "tfs_spare (tfs s) = Suc (tfs_spare s1)"
    using tfs_store.open_law [OF r(1) assms(4) b(5) assms(5,6)] by auto
  have w: "tfs_write h message 0 s1 = Ret (0, s1)"
    using tfs_write_run [of s1 0 message h] o(3,5) by (simp add: tfs_ready_def tfs_positioned_def)
  obtain u where u: "tfs_close h s1 = Ret (0, u)" "tfs_ready u" "files u = files s1" "tfs_spare u = Suc (tfs_spare s1)"
    using tfs_store.close_law [OF o(3,5)] by blast
  let ?t = "s\<lparr>tfs := u, box_list := added_size i 0 (box_list s), box_list_mutex := False\<rparr>"
  have run: "write_to_box name message 0 s = Ret (0, ?t)"
    using o(1,2) w u(1) r(3,4) assms(2,9,10)
    by (simp add: write_to_box_def bnd_Ret [OF in_fs_run] bnd_Ret [OF find_box_by_name_run] added_size_def
        unlock_list_return_run)
  have t: "broker_ready ?t"
    using ready_set_box [OF assms(1) add_size u(2)] by (simp add: added_size_def)
  have pos: "position (47 # x) (box_list ?t) = Some i" using assms(2) by simp
  obtain l where sub: "register_subscriber_command p name ?t =
       bnd (get_old_messages i (cstr p)) (\<lambda>r. if r < 0 then unlock_list_return (-1)
         else bnd (sys_open (cstr p)) (\<lambda>pipe_fd. if pipe_fd = -1 then unlock_list_return (-1)
           else bnd (sys_select pipe_fd) (\<lambda>sel. if sel = -1 then unlock_list_return (-1)
             else thn unlock_list (bnd (sys_close pipe_fd) (\<lambda>c. ret (if c = -1 then -1 else 0))))))
         (?t\<lparr>box_list_mutex := True, box_list := l\<rparr>)"
    and l: "i < length l" "\<not> box_freed (l ! i)" "box_name (box (l ! i)) = 47 # x" "messages_size (box (l ! i)) = [0]"
    using register_subscriber_command_start [OF t pos assms(7-10)] assms(3) b(1)
    by (auto simp: added_size_same)
  have "0 < tfs_spare u" "files u x = Some []" using o u assms(4) by simp_all
  from open_and_rewind [OF u(2) this(2) b(5) assms(5) this(1)]
  have "get_old_messages i (cstr p) (?t\<lparr>box_list_mutex := True, box_list := l\<rparr>) = Deadlock"
    using l by (auto simp: get_old_messages_def bnd_Ret [OF in_fs_run] read_into_def bnd_assoc)
      (simp add: bnd_def in_fs_def tfs_read_def mutex_lock_def)
  then show ?thesis using run unfolding sub by (simp add: bnd_def sub)
qed

lemma empty_message_deadlocks_subscribers_witness:
  "\<exists>t. write_to_box [47, 97, 0] [0] 0 (demo_broker []) = Ret (0, t) \<and>
     register_subscriber_command [112, 0] [47, 97, 0] t = Deadlock"
  by (rule empty_message_deadlocks_subscribers [OF demo_broker_ready(1), of "[97]" _ 0])
    (simp_all add: new_box_def demo1_state(4) demo1_store)

section \<open>Requests that end the broker\<close>

text \<open>
  A request that cannot be met ends the whole broker. Signing in to a box that does not exist, as
  a publisher or as a subscriber, makes the loop of \<^verbatim>\<open>main\<close> return -1; the client gets no answer.
\<close>

theorem unknown_box_ends_broker:
  assumes "broker_ready s" and "position (47 # x) (box_list s) = None"
    and "is_cstring x" and "length x < 31" and "is_cstring pipe" and "length pipe < 256"
    and "code = OP_CODE_REGISTER_PUBLISHER \<or> code = OP_CODE_REGISTER_SUBSCRIBER"
    and "script s = Ready fd # Got fd [code] # Got fd (padded 256 pipe) # Got fd (padded 32 (47 # x)) # es"
    and "0 \<le> fd" and "fd < 1024"
  shows "\<exists>t. main_loop (Suc n) fd s = Ret (-1, t) \<and> sent t = sent s \<and> box_names t = box_names s"
proof -
  note r = broker_readyD [OF assms(1)]
  show ?thesis
    using assms(7)
  proof
    assume "code = OP_CODE_REGISTER_PUBLISHER"
    with assms r(3,4) show ?thesis
      by (simp add: mbroker_read_pipe_input_def sys_bnds bnd_assoc register_publisher_def read_field_run
          register_publisher_command_def bnd_Ret [OF find_box_by_name_run] bnd_Ret [OF read_field_run]
          bnd_Ret op_codes ret_def box_names_def)
  next
    assume "code = OP_CODE_REGISTER_SUBSCRIBER"
    with assms r(3,4) show ?thesis
      by (simp add: mbroker_read_pipe_input_def sys_bnds bnd_assoc register_subscriber_def read_field_run
          register_subscriber_command_def bnd_Ret [OF find_box_by_name_run] bnd_Ret [OF read_field_run]
          bnd_Ret op_codes ret_def box_names_def)
  qed
qed

lemma unknown_box_ends_broker_witness:
  "\<exists>t. main_loop 1 3 (demo_broker [Ready 3, Got 3 [2], Got 3 (padded 256 [115]), Got 3 (padded 32 [47, 98])])
     = Ret (-1, t)"
  using unknown_box_ends_broker [OF demo_broker_ready(1), of "[98]" "[Ready 3, Got 3 [2],
      Got 3 (padded 256 [115]), Got 3 (padded 32 [47, 98])]" "[115]" 2 3 "[]" 0]
  by (auto simp: new_box_def op_codes)

text \<open>
  A message for a box that is not the first of the list is undefined. After writing it to the box
  the broker looks for the box by its publisher and compares the publisher of the first box, which has
  none, with \<^verbatim>\<open>strcmp\<close>.
\<close>

theorem publisher_of_later_box_undefined:
  assumes "broker_ready s" and "holds_messages s x ms" and "x \<noteq> []" and "message_ok m"
    and "box_list s = n # ns" and "box_name (box n) \<noteq> 47 # x" and "publisher_named_pipe (box n) = None"
    and "cstr name = 47 # x" and "0 \<in> set name" and "0 \<in> set p"
    and "0 < tfs_spare (tfs s)" and "length (concat ms) + length m \<le> tfs_limit (tfs s)"
    and "ms \<noteq> [] \<or> tfs_has_block (tfs s)"
    and "script s = Ready fd # Got fd [9] # Got fd (padded 1024 m) # es" and "0 \<le> fd" and "fd < 1024"
  shows "read_publisher_pipe_input fd p name s = Undef"
proof -
  obtain i where i: "position (47 # x) (box_list s) = Some i" "i \<noteq> 0"
    and c: "files (tfs s) x = Some (concat ms)" "list_all message_ok ms"
    using assms(2,5,6) by (auto simp: holds_messages_def)
  let ?m = "padded 1024 m" and ?s = "s\<lparr>objects := Suc (Suc (objects s)), script := es\<rparr>"
  have m: "0 < length m" "length m \<le> length ?m" "length m < 1024" "is_cstring m"
    using assms(4) by (simp_all add: message_ok_def)
  have r: "broker_ready ?s" using assms(1) by (simp add: broker_ready_def)
  have room: "concat ms \<noteq> [] \<or> tfs_has_block (tfs s)"
    using assms(13) concat_messages_ne [OF c(2)] by blast
  obtain u where u: "write_to_box name ?m (length m) ?s = Ret (0, ?s\<lparr>tfs := u,
      box_list := added_size i (length m) (box_list s), box_list_mutex := False\<rparr>)"
    using write_to_box_run [OF r, of x i "concat ms" name "length m" ?m] i(1) c(1) assms(3,8,9,11,12) m room
    by auto
  have "box_list (?s\<lparr>tfs := u, box_list := added_size i (length m) (box_list s), box_list_mutex := False\<rparr>)
      = n # tl (added_size i (length m) (box_list s))"
    using assms(5) i(2) by (cases i) (simp_all add: added_size_def)
  from spread_message_hidden [OF this assms(7), of ?m p]
  show ?thesis
    using u assms(14-16) m
    by (simp add: read_publisher_pipe_input_def sys_bnds bnd_Ret) (simp add: bnd_def)
qed

text \<open>The instance with a second box in front.\<close>

definition demo_behind :: "os_event list \<Rightarrow> broker" where
  "demo_behind events = (demo_broker events)\<lparr>box_list := [new_box [47, 98], new_box [47, 97]]\<rparr>"

lemma demo_behind_state:
  "broker_ready (demo_behind es)" "holds_messages (demo_behind es) [97] []"
  using demo1_store(1) demo1_state(4)
  by (simp_all add: broker_ready_def demo_behind_def nodes_ok_def intact_def new_box_def node_ok_def
      holds_messages_def)

lemma publisher_of_later_box_undefined_witness:
  "read_publisher_pipe_input 4 [112, 0] [47, 97, 0]
     (demo_behind [Ready 4, Got 4 [9], Got 4 (padded 1024 [104])]) = Undef"
  by (rule publisher_of_later_box_undefined [OF demo_behind_state, of "[104]" _ "new_box [47, 98]"])
    (simp_all add: demo_behind_def message_ok_def demo1_store, simp_all add: new_box_def)

section \<open>Removing boxes\<close>

lemma remove_first_run:
  assumes "broker_ready s" and "box_list s = n # ns" and "box_name (box n) = cstr name" and "0 \<in> set name"
  shows "remove_box_command name s = Ret (0, s\<lparr>box_list := ns, box_list_mutex := False\<rparr>)"
  using assms
  by (simp add: remove_box_command_def broker_ready_def intact_def unlock_list_return_run bnd_assoc)

text \<open>
  Removing the first box takes it out of the list and leaves its file. A box created again under
  the name has no messages, but its file still holds the bytes of the old ones: from then on the sizes
  in the list and the bytes of the file do not belong together.
\<close>

theorem removed_box_keeps_its_bytes:
  assumes "broker_ready s" and "box_list s = n # ns" and "box_name (box n) = 47 # x"
    and "files (tfs s) x = Some c" and "x \<noteq> []" and "0 < tfs_spare (tfs s)"
    and "cstr name = 47 # x" and "0 \<in> set name"
  shows "\<exists>t u. remove_box_command name s = Ret (0, t) \<and> broker_ready t \<and> box_list t = ns \<and>
     files (tfs t) = files (tfs s) \<and>
     create_box_command name t = Ret (0, u) \<and> box_list u = ns @ [new_box (47 # x)] \<and>
     files (tfs u) x = Some c"
proof -
  have pos: "position (47 # x) (box_list s) = Some 0" using assms(2,3) by simp
  note b = ready_box [OF assms(1) pos] and r = broker_readyD [OF assms(1)]
  let ?t = "s\<lparr>box_list := ns, box_list_mutex := False\<rparr>"
  have t: "remove_box_command name s = Ret (0, ?t)"
    using remove_first_run [OF assms(1,2)] assms(3,7,8) by simp
  have "nodes_ok ns" "47 # x \<notin> set (map (box_name \<circ> box) ns)"
    using r(2) assms(2,3) by (auto simp: nodes_ok_def)
  then have rt: "broker_ready ?t" and new: "47 # x \<notin> set (box_names ?t)"
    using r assms(2) by (auto simp: broker_ready_def box_names_def)
  have ok: "\<not> open_failed x TFS_O_CREAT (tfs ?t)"
    using assms(4,6) tfs_spare_None [of "tfs s"] by (auto simp: open_failed_def)
  obtain h :: int and u where u: "create_box_command name ?t = Ret (if h < 0 then -1 else 0, ?t\<lparr>tfs := u,
      box_list := (if h < 0 then box_list ?t else box_list ?t @ [new_box (47 # x)]), box_list_mutex := False\<rparr>)"
    "files u = spec_open x TFS_O_CREAT (can_create x (tfs ?t)) (files (tfs ?t))"
    "h < 0 \<longleftrightarrow> open_failed x TFS_O_CREAT (tfs ?t)"
    using create_box_command_run [OF rt assms(7,8,5) b(6), unfolded if_not_P [OF new]] by blast
  have "files u x = Some c" using u(2) assms(4) by (simp add: spec_open_def)
  with t rt u(1,3) ok show ?thesis by simp
qed

lemma removed_box_keeps_its_bytes_witness:
  "\<exists>t u. remove_box_command [47, 97, 0] (demo_held []) = Ret (0, t) \<and>
     create_box_command [47, 97, 0] t = Ret (0, u) \<and> box_list u = [new_box [47, 97]] \<and>
     files (tfs u) [97] = Some [104, 105]"
proof -
  let ?n = "hd (added_size 0 2 [new_box [47, 97]])"
  have l: "box_list (demo_held []) = [?n]" and n: "box_name (box ?n) = 47 # [97]"
    by (simp_all add: demo_held_def added_size_def)
  show ?thesis
    using removed_box_keeps_its_bytes [OF demo_held_state(1) l n, of "[104, 105]" "[47, 97, 0]"]
    by (fastforce simp: demo2_store demo2_state(4))
qed

text \<open>
  C39: removing the second box frees the first. The answer is 0 and the file of the removed box is gone,
  but the node of the first box stays in the list with its name and its box freed, so the next search
  for any box, and with it every command that names one, is undefined.
\<close>

theorem removing_second_box_frees_first:
  assumes "broker_ready s" and "box_list s = n # m # ns" and "box_name (box m) = 47 # x"
    and "x \<in> dom (files (tfs s))" and "x \<noteq> []" and "cstr name = 47 # x" and "0 \<in> set name"
  shows "\<exists>t. remove_box_command name s = Ret (0, t) \<and> x \<notin> dom (files (tfs t)) \<and>
     box_list t = n\<lparr>name_freed := True, box_freed := True\<rparr> # ns \<and>
     (\<forall>other. find_box_by_name other t = Undef \<and> create_box_command other t = Undef)"
proof -
  note r = broker_readyD [OF assms(1)]
  have names: "box_name (box n) \<noteq> 47 # x" "intact n" "intact m"
    using r(2,3) assms(2,3) by (auto simp: nodes_ok_def)
  have cs: "is_cstring x" using is_cstring_cstr [of name] assms(6) by simp
  obtain u where u: "tfs_unlink (Some (47 # x)) (tfs s) = Ret (0, u)" "files u = (files (tfs s))(x := None)"
    using tfs_unlink_files [of "tfs s" x] r(1) cs assms(4,5) by (auto simp: tfs_ready_def)
  let ?t = "s\<lparr>tfs := u, box_list := n\<lparr>name_freed := True, box_freed := True\<rparr> # ns, box_list_mutex := False\<rparr>"
  have "remove_box_command name s = Ret (0, ?t)"
    using assms(2,3,6,7) names u(1) r(4)
    by (simp add: remove_box_command_def free_name_def free_box_def bnd_assoc bnd_Ret [OF in_fs_run]
        intact_def unlock_list_return_run)
  moreover have "find_box_by_name other ?t = Undef" "create_box_command other ?t = Undef" for other
    by (simp_all add: find_box_by_name_def create_box_command_def bnd_assoc)
  ultimately show ?thesis using u(2) by auto
qed

lemma removing_second_box_frees_first_witness:
  "\<exists>t. remove_box_command [47, 97, 0] (demo_behind []) = Ret (0, t) \<and>
     create_box_command [47, 99, 0] t = Undef"
proof -
  have l: "box_list (demo_behind []) = [new_box [47, 98], new_box [47, 97]]" by (simp add: demo_behind_def)
  have d: "[97] \<in> dom (files (tfs (demo_behind [])))" by (simp add: demo_behind_def demo1_state(4))
  show ?thesis
    using removing_second_box_frees_first [OF demo_behind_state(1) l _ d, of "[47, 97, 0]"] by auto
qed

section \<open>Listing boxes\<close>

text \<open>The bytes of the listing message that are sent.\<close>

definition listed_bytes :: "bool \<Rightarrow> cstring \<Rightarrow> byte list" where
  "listed_bytes is_last name = OP_CODE_ANSWER_TO_LIST # (if is_last then 1 else 0) # take 6 (padded 32 name)"

lemma list_nodes_run:
  assumes "list_all intact l" and "list_all node_ok l"
    and "script s = replicate (length l) (Wrote True) @ es"
  shows "\<exists>n. list_nodes pipe l s = Ret (0, s\<lparr>script := es, objects := n, sent := sent s @
     map (\<lambda>i. (pipe, listed_bytes (Suc i = length l) (box_name (box (l ! i))))) [0..<length l]\<rparr>)"
  using assms
proof (induction l arbitrary: s)
  case Nil
  then show ?case by (intro exI [of _ "objects s"]) (simp add: ret_def)
next
  case (Cons n l)
  let ?e = "(pipe, listed_bytes (l = []) (box_name (box n)))"
  let ?u = "(counted_object s)\<lparr>script := replicate (length l) (Wrote True) @ es, sent := sent s @ [?e]\<rparr>"
  have n: "length (box_name (box n)) < 32" "intact n" using Cons.prems by (simp_all add: node_ok_def)
  have "list_nodes pipe (n # l) s = list_nodes pipe l ?u"
    using n Cons.prems(3)
    by (simp add: intact_def bnd_Ret [OF create_listing_message_run] write_object_def bnd_assoc sys_bnds
        sizeof_pointer_def listed_bytes_def numeral_eq_Suc)
  moreover obtain k where "list_nodes pipe l ?u = Ret (0, ?u\<lparr>script := es, objects := k, sent := sent ?u @
     map (\<lambda>i. (pipe, listed_bytes (Suc i = length l) (box_name (box (l ! i))))) [0..<length l]\<rparr>)"
    using Cons.IH [of ?u] Cons.prems by auto
  moreover have "map (\<lambda>i. (pipe, listed_bytes (Suc i = length (n # l)) (box_name (box ((n # l) ! i)))))
      [0..<length (n # l)] = ?e # map (\<lambda>i. (pipe, listed_bytes (Suc i = length l) (box_name (box (l ! i)))))
      [0..<length l]"
    by (simp add: upt_conv_Cons map_Suc_upt [symmetric] del: upt_Suc)
  ultimately show ?case by (intro exI [of _ k]) simp
qed

text \<open>
  Listing the boxes sends, for each box in the order of the list, only the first 8 bytes of the
  message that describes it: the code, whether it is the last one and 6 bytes of its name. With no box
  at all the command is undefined: it writes 1029 bytes from an object of 66.
\<close>

theorem list_boxes_sends_eight_bytes:
  assumes "broker_ready s" and "0 \<in> set p" and "0 \<le> fd"
    and "script s = Result fd False # replicate (length (box_list s)) (Wrote True) @ Result 0 False # es"
  shows "if box_list s = [] then list_boxes_command p s = Undef
     else \<exists>t. list_boxes_command p s = Ret (0, t) \<and> box_list t = box_list s \<and> \<not> box_list_mutex t \<and>
       sent t = sent s @ map (\<lambda>i. (cstr p, listed_bytes (Suc i = length (box_list s)) (box_names s ! i)))
         [0..<length (box_list s)] \<and>
       (\<forall>e \<in> set (drop (length (sent s)) (sent t)). length (snd e) = 8)"
proof (cases "box_list s = []")
  case True
  with assms show ?thesis
    by (simp add: list_boxes_command_def sys_bnds broker_ready_def create_listing_error_message_def
        poke_def clear_rest_def bnd_assoc write_object_def)
next
  case False
  note r = broker_readyD [OF assms(1)]
  let ?s = "s\<lparr>script := replicate (length (box_list s)) (Wrote True) @ Result 0 False # es,
     box_list_mutex := True\<rparr>"
  let ?log = "map (\<lambda>i. (cstr p, listed_bytes (Suc i = length (box_list s)) (box_name (box (box_list s ! i)))))
     [0..<length (box_list s)]"
  obtain n where n: "list_nodes (cstr p) (box_list s) ?s = Ret (0, ?s\<lparr>script := Result 0 False # es,
      objects := n, sent := sent s @ ?log\<rparr>)"
    using list_nodes_run [OF r(3), of ?s "Result 0 False # es" "cstr p"] r(2)
    by (auto simp: nodes_ok_def)
  let ?t = "?s\<lparr>script := es, objects := n, sent := sent s @ ?log, box_list_mutex := False\<rparr>"
  have run: "list_boxes_command p s = Ret (0, ?t)"
    using assms(2-4) r(4) False n
    by (simp add: list_boxes_command_def sys_bnds bnd_Ret unlock_list_return_run)
  have "?log = map (\<lambda>i. (cstr p, listed_bytes (Suc i = length (box_list s)) (box_names s ! i)))
         [0..<length (box_list s)]"
    by (simp add: box_names_def)
  moreover have "\<forall>e \<in> set ?log. length (snd e) = 8"
    using r(2) by (auto simp: listed_bytes_def nodes_ok_def list_all_length node_ok_def)
  ultimately show ?thesis using run False by simp
qed

lemma list_boxes_sends_eight_bytes_witness:
  "\<exists>t. list_boxes_command [109, 0] (demo_broker [Result 4 False, Wrote True, Result 0 False]) = Ret (0, t) \<and>
     sent t = [([109], [8, 1, 47, 97, 0, 0, 0, 0])]"
proof -
  have "listed_bytes True [47, 97] = [8, 1, 47, 97, 0, 0, 0, 0]"
    by (simp add: listed_bytes_def op_codes padded_def demo_lists)
  then show ?thesis
    using list_boxes_sends_eight_bytes
      [OF demo_broker_ready(1) [of "[Result 4 False, Wrote True, Result 0 False]"],
        where p = "[109, 0]" and fd = 4 and es = "[]"]
    by (auto simp: box_names_def)
qed

end
