(* ===== verification/Client_Runs.thy ===== *)
theory Client_Runs imports Clients begin

text \<open>
  What the clients do when the kernel lets them: signing in, the publisher's loop and its \<^verbatim>\<open>main\<close>, the
  subscriber's, and the manager reading an answer. Each lemma gives the whole state after the run.
\<close>

section \<open>Signing in\<close>

lemma sign_in_run:
  assumes "script c = Result fd False # Wrote True # Result 0 False # es" and "0 \<le> fd"
    and "length pipe \<le> 256" and "length name \<le> 32"
  shows "sign_in code reg pipe name c = Ret (0, (counted_object c)\<lparr>script := es,
     sent := sent c @ [(reg, code # padded 256 pipe @ padded 32 name)]\<rparr>)"
  using assms by (simp add: sign_in_def sys_bnds bnd_Ret [OF client_create_message_run] ret_def)

lemma padded_full: "length bytes = n \<Longrightarrow> padded n bytes = bytes"
  by (simp add: padded_def)

lemma sign_in_slices:
  assumes "length pipe \<le> 256" and "length name \<le> 32"
  shows "slice 1 256 (code # padded 256 pipe @ padded 32 name) = padded 256 pipe"
    and "slice 257 32 (code # padded 256 pipe @ padded 32 name) = padded 32 name"
  using assms by (simp_all add: slice_def)

section \<open>The manager\<close>

lemma manager_read_run:
  assumes "script c = Ready fd # Got fd bytes # es" and "0 \<le> fd" and "fd < 1024"
    and "0 < length bytes" and "length bytes \<le> 1029"
    and "answer = bytes @ drop (length bytes) (mem_read (uninit c (objects c)) 0 1029)"
    and "(process_command answer :: (client, int \<times> printed list) prog) = ret (0, ls)"
  shows "manager_read_pipe_input fd c =
     Ret (1, (counted_object c)\<lparr>script := es, printed_lines := printed_lines c @ ls\<rparr>)"
  using assms by (simp add: manager_read_pipe_input_def sys_bnds ANSWER_MESSAGE_SIZE_def print_def ret_run)

lemma slice_behind:
  "length bytes = k \<Longrightarrow> k \<le> off \<Longrightarrow> off + n \<le> N \<Longrightarrow>
   slice off n (bytes @ drop k (mem_read memory 0 N)) = mem_read memory off n"
  by (rule nth_equalityI) (auto simp: slice_def nth_append)

text \<open>The manager reading the 8 bytes of an answer that reach it.\<close>

lemma manager_read_answer:
  assumes "code = OP_CODE_ANSWER_TO_CREATION \<or> code = OP_CODE_ANSWER_TO_REMOVAL"
    and "- (2 ^ 31) \<le> r" and "r < 2 ^ 31" and "length error_message \<le> 1024" and "3 \<le> length error_message"
    and "answer = code # enc_le 4 r @ padded 1024 (if r < 0 then error_message else [])"
    and "script c = Ready fd # Got fd (take 8 answer) # es" and "0 \<le> fd" and "fd < 1024"
    and "r < 0 \<Longrightarrow> 0 \<in> set (mem_read (uninit c (objects c)) 8 1021)"
  shows "manager_read_pipe_input fd c = Ret (1, (counted_object c)\<lparr>script := es, printed_lines := printed_lines c @
      [if r < 0 then Error_line (cstr (take 3 error_message @ mem_read (uninit c (objects c)) 8 1021)) else Ok_line]\<rparr>)"
proof -
  let ?junk = "mem_read (uninit c (objects c)) 0 1029"
  let ?text = "if r < 0 then error_message else []"
  note answer = assms(6)
  have bytes: "take 8 answer = code # enc_le 4 r @ take 3 (padded 1024 ?text)"
    by (simp add: answer)
  have three: "take 3 (padded 1024 ?text) = take 3 error_message" if "r < 0"
    using that assms(5) by (simp add: padded_def)
  let ?tail = "mem_read (uninit c (objects c)) 8 1021"
  have rest: "drop 8 ?junk = ?tail"
    by (rule nth_equalityI) (auto simp: add.commute)
  have len: "length (take 8 answer) = 8" using assms(4) by (simp add: answer)
  have a: "take 8 answer @ drop 8 ?junk = code # enc_le 4 r @ take 3 (padded 1024 ?text) @ ?tail"
    by (simp add: bytes rest)
  have "(process_command (code # enc_le 4 r @ take 3 (padded 1024 ?text) @ ?tail) :: (client, int \<times> printed list) prog)
      = ret (0, [if r < 0 then Error_line (cstr (take 3 error_message @ ?tail)) else Ok_line])"
  proof -
    let ?a = "code # enc_le 4 r @ take 3 (padded 1024 ?text) @ ?tail"
    have "(process_command ?a :: (client, int \<times> printed list) prog) = process_answer ?a"
      using assms(1) by (auto simp: process_command_def op_codes)
    also have "\<dots> = ret (0, [if r < 0 then Error_line (cstr (take 3 error_message @ ?tail)) else Ok_line])"
      using assms(2,3,10) three by (auto simp: process_answer_def slice_def fun_eq_iff)
    finally show ?thesis .
  qed
  from this [folded a] have "(process_command (take 8 answer @ drop 8 ?junk) :: (client, int \<times> printed list) prog)
      = ret (0, [if r < 0 then Error_line (cstr (take 3 error_message @ ?tail)) else Ok_line])" .
  from manager_read_run [OF assms(7-9) _ _ _ this] len
  show ?thesis by (simp add: answer)
qed

text \<open>A request for a box and the whole run of the manager that makes it and gets an answer.\<close>

definition box_request :: "byte \<Rightarrow> cstring \<Rightarrow> cstring \<Rightarrow> mem \<Rightarrow> byte list" where
  "box_request code pipe name memory =
     code # padded 256 pipe @ name @ drop (257 + length name) (mem_read memory 0 289)"

lemma manager_request_run:
  assumes "script c = Result fd False # Wrote True # Result 0 False # es" and "0 \<le> fd"
    and "length pipe \<le> 256" and "length name \<le> 32" and "n \<le> 289"
  shows "manager_request reg (manager_create_message code pipe (Some name) BOX_MESSAGE_SIZE) n c =
     Ret (0, (counted_object c)\<lparr>script := es,
       sent := sent c @ [(reg, take n (box_request code pipe name (uninit c (objects c))))]\<rparr>)"
  using assms
  by (simp add: manager_request_def sys_bnds bnd_Ret [OF manager_create_message_run(1)] box_request_def
      ret_def)

lemmas box_request_runs = manager_request_run [where n = 289] manager_request_run [where n = 8]

lemma manager_loop_answered:
  "manager_read_pipe_input fd c = Ret (1, c') \<Longrightarrow> manager_loop (Suc n) fd c = Ret ((), c')"
  by (simp add: bnd_def ret_def)

lemma manager_main_run:
  assumes "manager_check_args (Some reg) (Some pipe) = 0" and "length name \<le> 32"
    and "script c = Result u (u < 0) # Result 0 False # es"
    and "word = create_word \<and> f = register_box_request \<or> word = remove_word \<and> f = manager_remove_box"
    and "f reg pipe name (c\<lparr>script := es\<rparr>) = Ret (r, c1)"
    and "script c1 = Result fd False # es1" and "0 \<le> fd"
    and "manager_read_pipe_input fd (c1\<lparr>script := es1\<rparr>) = Ret (1, c2)"
    and "script c2 = Result 0 False # Result 0 False # es2"
  shows "manager_main [program, reg, pipe, word, name] c = Ret (0, c2\<lparr>script := es2\<rparr>)"
proof -
  have "make_pipe pipe c = Ret (True, c\<lparr>script := es\<rparr>)"
    using assms(3) by (simp add: make_pipe_def sys_bnds ret_def)
  moreover have "manager_loop (Suc (length es1)) fd (c1\<lparr>script := es1\<rparr>) = Ret ((), c2)"
    by (rule manager_loop_answered [OF assms(8)])
  moreover have "create_word \<noteq> remove_word" by (simp add: create_word_def remove_word_def)
  ultimately show ?thesis
    using assms(1,2,4-7,9)
    by (auto simp: manager_main_def bnd_Ret sys_bnds MAX_BOX_NAME_SIZE_def ret_def bnd_assoc Let_def
        simp del: manager_loop.simps)
qed

section \<open>The publisher\<close>

text \<open>What the publisher sends of an input line.\<close>

definition line_text :: "byte list \<Rightarrow> cstring" where
  "line_text l = takeWhile (\<lambda>b. b \<noteq> 10) (cstr l)"

lemma line_text_cstring [simp]: "is_cstring (line_text l)"
  using is_cstring_cstr [of l] by (auto simp: is_cstring_def line_text_def dest: set_takeWhileD)

lemma length_line_text: "length (line_text l) \<le> length l"
  by (metis line_text_def length_takeWhile_le cstr_def le_trans)

definition published_line :: "cstring \<Rightarrow> byte list \<Rightarrow> cstring \<times> byte list" where
  "published_line pipe l = (pipe, 9 # padded 1024 (line_text l))"

lemma publish_loop_run:
  assumes "script c = concat (map (\<lambda>l. [Line l, Wrote True]) ls) @ End_of_input # es"
    and "\<forall>l \<in> set ls. length l \<le> 1023" and "length ls < fuel"
  shows "publish_loop fuel pipe c = Ret (True, c\<lparr>script := es, objects := objects c + 2 * length ls + 1,
     sent := sent c @ map (published_line pipe) ls\<rparr>)"
  using assms
proof (induction ls arbitrary: c fuel)
  case Nil
  then obtain m where "fuel = Suc m" by (cases fuel) auto
  with Nil show ?case by (simp add: sys_bnds ret_def)
next
  case (Cons l ls)
  then obtain m where m: "fuel = Suc m" by (cases fuel) auto
  let ?rest = "concat (map (\<lambda>l. [Line l, Wrote True]) ls) @ End_of_input # es"
  let ?text = "line_text l"
  let ?c = "c\<lparr>objects := objects c + 2, script := ?rest, sent := sent c @ [(pipe, 9 # padded 1024 ?text)]\<rparr>"
  have l: "length l \<le> 1023" using Cons.prems(2) by simp
  have line: "cstr (l @ 0 # junk) = cstr l" for junk
    by (induction l) auto
  have short: "length ?text \<le> 1024" using l length_line_text [of l] by simp
  have "publish_loop fuel pipe c = publish_loop m pipe ?c"
    using Cons.prems(1) l short
    by (simp add: m sys_bnds send_message_def publisher_message_run bnd_assoc line
        line_text_def [symmetric] bnd_Ret [OF publisher_message_run [OF short]] OP_CODE_PUBLISHER_MESSAGE_def)
  also have "\<dots> = Ret (True, ?c\<lparr>script := es, objects := objects ?c + 2 * length ls + 1,
     sent := sent ?c @ map (published_line pipe) ls\<rparr>)"
    using Cons.prems m by (intro Cons.IH) auto
  finally show ?case by (simp add: add.assoc published_line_def)
qed

section \<open>A small instance\<close>

definition demo_client :: "os_event list \<Rightarrow> client" where
  "demo_client events = \<lparr>script = events, sent = [], objects = 0, uninit = (\<lambda>_ _. 0),
     printed_lines = [], messages_received = 0\<rparr>"

lemma demo_client_fields [simp]:
  "script (demo_client es) = es" "sent (demo_client es) = []" "printed_lines (demo_client es) = []"
  "uninit (demo_client es) = (\<lambda>_ _. 0)" "objects (demo_client es) = 0"
  "messages_received (demo_client es) = 0"
  by (simp_all add: demo_client_def)

text \<open>The publisher's \<^verbatim>\<open>main\<close> on the lines \<open>ls\<close>, with any descriptors.\<close>

lemma pub_main_run:
  assumes "client_check_args (Some reg) (Some pipe) (Some name) = 0"
    and "script c = Result u (u < 0) # Result 0 False # Result reg_fd False # Wrote True # Result 0 False #
       Result fd False # concat (map (\<lambda>l. [Line l, Wrote True]) ls) @
       End_of_input # Result x False # Result 0 False # es"
    and "0 \<le> reg_fd" and "0 \<le> fd" and "\<forall>l \<in> set ls. length l \<le> 1023"
  shows "pub_main [program, reg, pipe, name] c = Ret (0, c\<lparr>script := es,
     objects := objects c + 2 * length ls + 2,
     sent := sent c @ (reg, 1 # padded 256 pipe @ padded 32 name) # map (published_line pipe) ls\<rparr>)"
proof -
  have len: "length pipe \<le> 256" "length name \<le> 32"
    using assms(1) by (auto simp: client_check_args_def message_sizes split: if_splits)
  let ?lines = "concat (map (\<lambda>l. [Line l, Wrote True]) ls) @ End_of_input # Result x False # Result 0 False # es"
  let ?signed = "c\<lparr>objects := objects c + 1, script := Result fd False # ?lines,
     sent := sent c @ [(reg, 1 # padded 256 pipe @ padded 32 name)]\<rparr>"
  let ?c = "?signed\<lparr>script := ?lines\<rparr>"
  have "pub_sign_in reg pipe name (c\<lparr>script := Result reg_fd False # Wrote True # Result 0 False #
      Result fd False # ?lines\<rparr>) = Ret (0, ?signed)"
    unfolding pub_sign_in_def
    using assms(3) len by (subst sign_in_run) (auto simp: OP_CODE_REGISTER_PUBLISHER_def)
  moreover have "make_pipe pipe c = Ret (True, c\<lparr>script := Result reg_fd False # Wrote True # Result 0 False #
      Result fd False # ?lines\<rparr>)"
    using assms(2) by (simp add: make_pipe_def sys_bnds ret_def)
  ultimately have "pub_main [program, reg, pipe, name] c = bnd (publish_loop (Suc (length ?lines)) pipe)
      (\<lambda>ok. if \<not> ok then ret (-1) else thn (sys_close fd)
        (bnd (sys_unlink pipe) (\<lambda>(r, _). ret (if r < 0 then -1 else 0)))) ?c"
    using assms(1,4) by (simp add: pub_main_def bnd_Ret sys_bnds del: publish_loop.simps)
  also have "\<dots> = Ret (0, ?c\<lparr>script := es, objects := objects ?c + 2 * length ls + 1,
     sent := sent ?c @ map (published_line pipe) ls\<rparr>)"
    using assms(5)
    by (subst bnd_Ret [OF publish_loop_run]) (auto simp: sys_bnds ret_def length_concat comp_def sum_list_triv)
  finally show ?thesis by simp
qed

section \<open>The subscriber\<close>

lemma subscribe_loop_run:
  assumes "script c = concat (map (\<lambda>t. [Ready fd, Got fd (10 # padded 1024 t)]) ts) @ Result (-1) False # es"
    and "list_all (\<lambda>t. is_cstring t \<and> length t < 1024) ts" and "0 \<le> fd" and "fd < 1024"
    and "length ts < fuel" and "messages_received c + int (length ts) < 2 ^ 31"
  shows "subscribe_loop fuel fd c = Ret (-1, c\<lparr>script := es, objects := objects c + length ts,
     printed_lines := printed_lines c @ map Message_line ts,
     messages_received := messages_received c + int (length ts)\<rparr>)"
  using assms
proof (induction ts arbitrary: c fuel)
  case Nil
  then obtain f where f: "fuel = Suc f" by (cases fuel) auto
  have "sub_read_pipe_input fd c = Ret (-1, c\<lparr>script := es\<rparr>)"
    using Nil.prems by (simp add: sub_read_pipe_input_def sys_bnds ret_def)
  then show ?case by (simp add: f bnd_def ret_def)
next
  case (Cons t ts)
  then obtain f where f: "fuel = Suc f" by (cases fuel) auto
  let ?c = "c\<lparr>objects := Suc (objects c), messages_received := messages_received c + 1,
     script := concat (map (\<lambda>t. [Ready fd, Got fd (10 # padded 1024 t)]) ts) @ Result (-1) False # es,
     printed_lines := printed_lines c @ [Message_line t]\<rparr>"
  have "sub_read_pipe_input fd c = Ret (0, ?c)"
    using Cons.prems
    by (simp add: sub_read_pipe_input_def sys_bnds ANSWER_MESSAGE_SIZE_def slice_def print_def ret_def)
  then have "subscribe_loop fuel fd c = subscribe_loop f fd ?c" by (simp add: f bnd_def)
  also have "\<dots> = Ret (-1, ?c\<lparr>script := es, objects := objects ?c + length ts,
     printed_lines := printed_lines ?c @ map Message_line ts,
     messages_received := messages_received ?c + int (length ts)\<rparr>)"
    using Cons.prems f by (intro Cons.IH) auto
  finally show ?case by (simp add: add.assoc)
qed

lemma sub_main_run:
  assumes "client_check_args (Some reg) (Some pipe) (Some name) = 0"
    and "script c = Result u (u < 0) # Result 0 False # Result reg_fd False # Wrote True # Result 0 False #
       Result fd False # concat (map (\<lambda>t. [Ready fd, Got fd (10 # padded 1024 t)]) ts) @ Result (-1) False # es"
    and "0 \<le> reg_fd" and "0 \<le> fd" and "fd < 1024"
    and "list_all (\<lambda>t. is_cstring t \<and> length t < 1024) ts" and "messages_received c + int (length ts) < 2 ^ 31"
  shows "sub_main [program, reg, pipe, name] c = Ret (-1, c\<lparr>script := es,
     objects := objects c + length ts + 1,
     sent := sent c @ [(reg, 2 # padded 256 pipe @ padded 32 name)],
     printed_lines := printed_lines c @ map Message_line ts,
     messages_received := messages_received c + int (length ts)\<rparr>)"
proof -
  have len: "length pipe \<le> 256" "length name \<le> 32"
    using assms(1) by (auto simp: client_check_args_def message_sizes split: if_splits)
  let ?rounds = "concat (map (\<lambda>t. [Ready fd, Got fd (10 # padded 1024 t)]) ts) @ Result (-1) False # es"
  let ?signed = "c\<lparr>objects := objects c + 1, script := Result fd False # ?rounds,
     sent := sent c @ [(reg, 2 # padded 256 pipe @ padded 32 name)]\<rparr>"
  let ?c = "?signed\<lparr>script := ?rounds\<rparr>"
  have "sub_sign_in reg pipe name (c\<lparr>script := Result reg_fd False # Wrote True # Result 0 False #
      Result fd False # ?rounds\<rparr>) = Ret (0, ?signed)"
    unfolding sub_sign_in_def
    using assms(3) len by (subst sign_in_run) (auto simp: OP_CODE_REGISTER_SUBSCRIBER_def)
  moreover have "make_pipe pipe c = Ret (True, c\<lparr>script := Result reg_fd False # Wrote True # Result 0 False #
      Result fd False # ?rounds\<rparr>)"
    using assms(2) by (simp add: make_pipe_def sys_bnds ret_def)
  ultimately have "sub_main [program, reg, pipe, name] c = subscribe_loop (Suc (length ?rounds)) fd ?c"
    using assms(1,4) by (simp add: sub_main_def bnd_Ret sys_bnds del: subscribe_loop.simps)
  also have "\<dots> = Ret (-1, ?c\<lparr>script := es, objects := objects ?c + length ts,
     printed_lines := printed_lines ?c @ map Message_line ts,
     messages_received := messages_received ?c + int (length ts)\<rparr>)"
    using assms(4-7)
    by (intro subscribe_loop_run) (auto simp: length_concat comp_def sum_list_triv)
  finally show ?thesis by simp
qed

end
