(* ===== verification/Client_Props.thy ===== *)
theory Client_Props imports Client_Runs Broker_Limits begin

text \<open>
  The properties of the clients, and of the two sides of a conversation: what a client's message is
  for the broker and what the broker's answer is for a client.
\<close>

section \<open>Signing in\<close>

text \<open>
  The message of a client that signs in has 289 bytes, and the code and the two fields that the
  broker reads one after the other from its pipe are the code, the name of the pipe and the name of
  the box padded with zeros. The names come back exactly, if they leave room for a 0. A name of 32
  bytes passes the client's check of its arguments and makes the broker's session of a publisher
  undefined: no 0 ends it.
\<close>

theorem sign_in_round_trip:
  assumes "client_check_args (Some reg) (Some pipe) (Some name) = 0"
    and "is_cstring pipe" and "is_cstring name"
    and "script c = Result fd False # Wrote True # Result 0 False # es" and "0 \<le> fd"
  shows "\<exists>c' message. sign_in code reg pipe name c = Ret (0, c') \<and> sent c' = sent c @ [(reg, message)] \<and>
     length message = 289 \<and> hd message = code \<and>
     (length pipe < 256 \<longrightarrow> 0 \<in> set (slice 1 256 message) \<and> cstr (slice 1 256 message) = pipe) \<and>
     (length name < 32 \<longrightarrow> 0 \<in> set (slice 257 32 message) \<and> cstr (slice 257 32 message) = name) \<and>
     (length name = 32 \<longrightarrow> 0 \<le> reg_fd \<longrightarrow>
       (\<forall>s es'. script s = Got reg_fd (slice 1 256 message) # Got reg_fd (slice 257 32 message) # es' \<longrightarrow>
         register_publisher reg_fd s = Undef))"
proof -
  have len: "length pipe \<le> 256" "length name \<le> 32"
    using assms(1) by (auto simp: client_check_args_def message_sizes split: if_splits)
  let ?m = "code # padded 256 pipe @ padded 32 name"
  have "register_publisher reg_fd s = Undef"
    if "length name = 32" "0 \<le> reg_fd" "script s = Got reg_fd (padded 256 pipe) # Got reg_fd (padded 32 name) # es'" for s es'
  proof -
    have "0 \<notin> set (padded 32 name)" using that(1) assms(3) by (simp add: padded_full is_cstring_def)
    then show ?thesis using that len by (simp add: register_publisher_def read_field_run)
  qed
  with len assms(2,3) sign_in_run [OF assms(4,5) len, of code reg] show ?thesis
    by (intro exI [of _ "(counted_object c)\<lparr>script := es, sent := sent c @ [(reg, ?m)]\<rparr>"] exI [of _ ?m])
      (simp add: sign_in_slices del: One_nat_def)
qed

lemma sign_in_round_trip_witness:
  "\<exists>c' message. sign_in 1 [114] [112] [47, 97] (demo_client [Result 3 False, Wrote True, Result 0 False]) = Ret (0, c') \<and>
     sent c' = [([114], message)] \<and> cstr (slice 1 256 message) = [112] \<and> cstr (slice 257 32 message) = [47, 97]"
  using sign_in_round_trip [of "[114]" "[112]" "[47, 97]"
      "demo_client [Result 3 False, Wrote True, Result 0 False]" 3 "[]" 1 0]
  by (auto simp: client_check_args_def message_sizes)

section \<open>Answers to the manager\<close>

text \<open>
  The broker sends the manager only the first 8 bytes of its answer, and that is enough for the
  result: the manager prints OK exactly when the return code was not negative. Of the error message it
  has 3 bytes and then whatever its own memory held.
\<close>

theorem answer_round_trip:
  assumes "code = OP_CODE_ANSWER_TO_CREATION \<or> code = OP_CODE_ANSWER_TO_REMOVAL"
    and "- (2 ^ 31) \<le> r" and "r < 2 ^ 31" and "length error_message \<le> 1024" and "3 \<le> length error_message"
    and "create_answer code r error_message ANSWER_MESSAGE_SIZE b = Ret (answer, b')"
    and "script c = Ready fd # Got fd (take sizeof_pointer answer) # es" and "0 \<le> fd" and "fd < 1024"
    and "0 \<in> set (mem_read (uninit c (objects c)) 8 1021)"
  shows "\<exists>c'. manager_read_pipe_input fd c = Ret (1, c') \<and> script c' = es \<and>
     printed_lines c' = printed_lines c @ [if r < 0
       then Error_line (cstr (take 3 error_message @ mem_read (uninit c (objects c)) 8 1021)) else Ok_line]"
proof -
  have "answer = code # enc_le 4 r @ padded 1024 (if r < 0 then error_message else [])"
    using assms(4,6) by (simp add: create_answer_run)
  from manager_read_answer [OF assms(1-5) this assms(7) [unfolded sizeof_pointer_def] assms(8-10)]
  show ?thesis by simp
qed

lemma answer_round_trip_witness:
  "\<exists>answer b'. create_answer 4 (-1) register_box_error ANSWER_MESSAGE_SIZE (demo_client []) = Ret (answer, b') \<and>
     (\<exists>c'. manager_read_pipe_input 3 (demo_client [Ready 3, Got 3 (take 8 answer)]) = Ret (1, c') \<and>
       printed_lines c' = [Error_line [102, 97, 105]])"
proof -
  obtain answer b' where a: "create_answer 4 (-1) register_box_error ANSWER_MESSAGE_SIZE (demo_client []) = Ret (answer, b')"
    using create_answer_run [of register_box_error 4 "-1" "demo_client []"] by (simp add: register_box_error_def)
  have "cstr ([102, 97, 105] @ replicate 1021 0) = [102, 97, 105 :: byte]" by (simp add: cstr_padded)
  then have "\<exists>c'. manager_read_pipe_input 3 (demo_client [Ready 3, Got 3 (take 8 answer)]) = Ret (1, c') \<and>
       printed_lines c' = [Error_line [102, 97, 105]]"
    using answer_round_trip [OF _ _ _ _ _ a, of "demo_client [Ready 3, Got 3 (take 8 answer)]" 3 "[]"]
    by (auto simp: op_codes register_box_error_def sizeof_pointer_def)
  with a show ?thesis by blast
qed

section \<open>A listing\<close>

text \<open>
  C30: what the manager prints of a box that is listed to it is nothing of that box. It reads the
  name and the three numbers 7 bytes behind where the broker puts them, and only 8 bytes arrive: it
  prints what its own memory held.
\<close>

theorem listing_shows_own_memory:
  assumes "create_listing_message is_last name has_publisher b = Ret (message, b')"
    and "is_cstring name" and "name \<noteq> []" and "length name < 32"
    and "script c = Ready fd # Got fd (take sizeof_pointer message) # es" and "0 \<le> fd" and "fd < 1024"
    and "memory = uninit c (objects c)" and "0 \<in> set (mem_read memory 9 32)"
  shows "\<exists>c'. manager_read_pipe_input fd c = Ret (1, c') \<and> script c' = es \<and>
     printed_lines c' = printed_lines c @ [Box_line (cstr (mem_read memory 9 32))
       (nat (dec_le (mem_read memory 41 8))) (nat (dec_le (mem_read memory 49 8)))
       (nat (dec_le (mem_read memory 57 8)))]"
proof -
  obtain x xs where name: "name = x # xs" using assms(3) by (cases name) auto
  let ?m = "take 8 message"
  let ?a = "?m @ drop 8 (mem_read memory 0 1029)"
  let ?line = "Box_line (cstr (mem_read memory 9 32)) (nat (dec_le (mem_read memory 41 8)))
     (nat (dec_le (mem_read memory 49 8))) (nat (dec_le (mem_read memory 57 8)))"
  have message: "message = OP_CODE_ANSWER_TO_LIST # (if is_last then 1 else 0) # padded 32 name @ enc_le 8 8 @
          enc_le 8 (if has_publisher then 1 else 0) @ enc_le 8 0"
    using assms(1,4) by (simp add: create_listing_message_run)
  obtain ys where m: "?m = 8 # (if is_last then 1 else 0) # x # ys" and ys: "length ys = 5"
    using assms(4) by (auto simp: message name padded_def op_codes take_Cons')
  have len: "length ?m = 8" using ys by (simp add: m)
  have slices: "slice 9 32 ?a = mem_read memory 9 32" "slice 41 8 ?a = mem_read memory 41 8"
      "slice 49 8 ?a = mem_read memory 49 8" "slice 57 8 ?a = mem_read memory 57 8"
    by (rule slice_behind, rule len, simp_all)+
  have "slice 1 8 ?a = (if is_last then 1 else 0) # x # (ys @ take 1 (drop 8 (mem_read memory 0 1029)))"
    using ys by (simp add: m slice_def drop_Cons' take_Cons')
  moreover have "0 \<le> dec_le bs" for bs by (induction bs) auto
  moreover have "uint x \<noteq> 0" using assms(2) name by (simp add: uint_0_iff)
  ultimately have last: "dec_le (slice 1 8 ?a) \<noteq> 1"
    by (smt (verit, best) dec_le.simps uint_ge_0)
  have "hd ?a = 8" by (simp add: m)
  then have "(process_command ?a :: (client, int \<times> printed list) prog) = ret (0, [?line])"
    using last assms(9) by (simp add: process_command_def slices fun_eq_iff del: One_nat_def)
  from manager_read_run [OF assms(5) [unfolded sizeof_pointer_def] assms(6,7) _ _ _ this]
    len message
  have "manager_read_pipe_input fd c =
      Ret (1, (counted_object c)\<lparr>script := es, printed_lines := printed_lines c @ [?line]\<rparr>)"
    by (simp add: assms(8))
  then show ?thesis by simp
qed

lemma listing_shows_own_memory_witness:
  "\<exists>message b'. create_listing_message False [47, 97] True (demo_client []) = Ret (message, b') \<and>
     (\<exists>c'. manager_read_pipe_input 3 (demo_client [Ready 3, Got 3 (take sizeof_pointer message)]) = Ret (1, c') \<and>
       printed_lines c' = [Box_line [] 0 0 0])"
proof -
  obtain message b' where m: "create_listing_message False [47, 97] True (demo_client []) = Ret (message, b')"
    by (simp add: create_listing_message_run)
  have zero: "dec_le (replicate 8 0) = 0" by (simp add: eval_nat_numeral)
  have "\<exists>c'. manager_read_pipe_input 3 (demo_client [Ready 3, Got 3 (take sizeof_pointer message)]) = Ret (1, c') \<and>
       printed_lines c' = [Box_line [] 0 0 0]"
    using listing_shows_own_memory [OF m, where
        c = "demo_client [Ready 3, Got 3 (take sizeof_pointer message)]" and fd = 3 and es = "[]"]
    by (auto simp: zero)
  with m show ?thesis by blast
qed

section \<open>The publisher's loop\<close>

text \<open>
  C27: a publisher that can sign in and write is the map of its input lines: it sends one message for
  each line, in order, which is the line up to its newline padded to 1024 bytes, after the message
  that signs it in. It takes exactly the events it needs and returns 0.
\<close>

theorem publisher_maps_its_lines:
  assumes "client_check_args (Some reg) (Some pipe) (Some name) = 0"
    and "script c = Result u (u < 0) # Result 0 False # Result reg_fd False # Wrote True # Result 0 False #
       Result fd False # concat (map (\<lambda>l. [Line l, Wrote True]) ls) @
       End_of_input # Result x False # Result 0 False # es"
    and "0 \<le> reg_fd" and "0 \<le> fd" and "\<forall>l \<in> set ls. length l \<le> 1023"
  shows "\<exists>c'. pub_main [program, reg, pipe, name] c = Ret (0, c') \<and> script c' = es \<and>
     sent c' = sent c @ (reg, 1 # padded 256 pipe @ padded 32 name) #
       map (published_line pipe) ls"
  using pub_main_run [OF assms] by simp

lemma publisher_maps_its_lines_witness:
  "\<exists>c'. pub_main [[112], [114], [112], [47, 97]] (demo_client [Result (-1) True, Result 0 False, Result 3 False,
       Wrote True, Result 0 False, Result 4 False, Line [104, 105, 10], Wrote True, End_of_input,
       Result 0 False, Result 0 False]) = Ret (0, c') \<and> script c' = [] \<and>
     sent c' = [([114], 1 # padded 256 [112] @ padded 32 [47, 97]), ([112], 9 # padded 1024 [104, 105])]"
  using publisher_maps_its_lines [of "[114]" "[112]" "[47, 97]" "demo_client [Result (-1) True, Result 0 False,
       Result 3 False, Wrote True, Result 0 False, Result 4 False, Line [104, 105, 10], Wrote True, End_of_input,
       Result 0 False, Result 0 False]" "-1" 3 4 "[[104, 105, 10]]" 0 "[]" "[112]"]
  by (simp add: client_check_args_def message_sizes published_line_def line_text_def)

end
