(* ===== verification/System.thy ===== *)
theory System imports Broker_Props Client_Runs begin

text \<open>
  The programs put together: what one process wrote into a pipe is what the other reads from it. The
  broker and the clients are the programs of \<^verbatim>\<open>Broker\<close> and \<^verbatim>\<open>Clients\<close>; this theory has the pipes between
  them. Each call of \<^verbatim>\<open>write\<close> is a message; a message is read before the next one is written, so reading
  it in pieces takes it apart and two messages never meet in one \<^verbatim>\<open>read\<close> unless a theorem says so.
\<close>

section \<open>Pipes\<close>

text \<open>The messages written into a pipe, and a message read in pieces of the given sizes.\<close>

definition pipe_messages :: "cstring \<Rightarrow> (cstring \<times> byte list) list \<Rightarrow> byte list list" where
  "pipe_messages pipe log = map snd (filter (\<lambda>e. fst e = pipe) log)"

fun reads :: "int \<Rightarrow> nat list \<Rightarrow> byte list \<Rightarrow> os_event list" where
  "reads fd [] bytes = []"
| "reads fd (n # ns) bytes = Got fd (take n bytes) # reads fd ns (drop n bytes)"

lemma pipe_messages_simps [simp]:
  "pipe_messages pipe [] = []"
  "pipe_messages pipe (e # log) = (if fst e = pipe then snd e # pipe_messages pipe log else pipe_messages pipe log)"
  "pipe_messages pipe (log @ log') = pipe_messages pipe log @ pipe_messages pipe log'"
  by (simp_all add: pipe_messages_def)

lemma pipe_messages_own: "pipe_messages pipe (map (\<lambda>m. (pipe, f m)) ms) = map f ms"
  by (induction ms) auto

lemma pipe_messages_other: "(\<And>m. fst (f m) \<noteq> pipe) \<Longrightarrow> pipe_messages pipe (map f ms) = []"
  by (induction ms) auto

lemma pipe_messages_subscriber:
  "pipe_messages pipe (map (to_subscriber pipe) ms) = map (\<lambda>t. 10 # padded 1024 t) ms"
  by (induction ms) (auto simp: to_subscriber_def op_codes)

text \<open>Reading one message after the other is reading the stream of their bytes.\<close>

lemma reads_append:
  "sum_list ns = length a \<Longrightarrow> reads fd (ns @ ns') (a @ b) = reads fd ns a @ reads fd ns' b"
  by (induction ns arbitrary: a) auto

section \<open>What each process sees\<close>

text \<open>
  A request that arrives at the broker, and a message that arrives in a publisher's session: the
  descriptor gets ready, then the code and the fields are read from it. \<open>fd\<close> is the descriptor of the
  request pipe, which stays open, \<open>h\<close> that of the client's pipe.
\<close>

definition request_events :: "int \<Rightarrow> byte list \<Rightarrow> os_event list" where
  "request_events fd message = Ready fd # reads fd [1, 256, 32] message"

definition session_events :: "int \<Rightarrow> byte list \<Rightarrow> os_event list" where
  "session_events h message = Ready h # reads h [1, 1024] message"

text \<open>
  The broker serves a publisher, then a subscriber and leaves. It never closes the descriptors it
  opens for the messages of a subscriber; \<open>ds\<close> are these descriptors.
\<close>

definition publisher_served :: "int \<Rightarrow> int \<Rightarrow> byte list list \<Rightarrow> byte list list \<Rightarrow> os_event list" where
  "publisher_served fd h asked messages = concat (map (request_events fd) asked) @ [Result h False] @
     concat (map (session_events h) messages) @ [Ready h, Got h [], Result 0 False]"

definition subscriber_served :: "int \<Rightarrow> int \<Rightarrow> int list \<Rightarrow> byte list list \<Rightarrow> os_event list" where
  "subscriber_served fd h ds asked = concat (map (request_events fd) asked) @ deliveries ds @
     [Result h False, Ready h, Result 0 False]"

text \<open>
  A client that makes its pipe, signs in and opens its pipe; a publisher with its input lines; a
  subscriber with the messages it reads, until waiting for the next one fails. A client closes the
  broker's pipe before it opens its own, so the kernel can give it the same descriptor \<open>h\<close> twice.
\<close>

definition signed_in :: "int \<Rightarrow> os_event list" where
  "signed_in h = [Result (-1) True, Result 0 False, Result h False, Wrote True, Result 0 False, Result h False]"

definition publisher_events :: "int \<Rightarrow> byte list list \<Rightarrow> os_event list" where
  "publisher_events h lines = signed_in h @ concat (map (\<lambda>l. [Line l, Wrote True]) lines) @
     [End_of_input, Result 0 False, Result 0 False]"

definition subscriber_events :: "int \<Rightarrow> byte list list \<Rightarrow> os_event list" where
  "subscriber_events h messages = signed_in h @ concat (map (\<lambda>m. [Ready h, Got h m]) messages) @
     [Result (-1) False]"

section \<open>The broker's side\<close>

lemma sign_in_events:
  "length pipe \<le> 256 \<Longrightarrow> length name \<le> 32 \<Longrightarrow>
   request_events fd (code # padded 256 pipe @ padded 32 name) =
     [Ready fd, Got fd [code], Got fd (padded 256 pipe), Got fd (padded 32 name)]"
  by (simp add: request_events_def)

lemma session_events_published:
  "list_all message_ok ms \<Longrightarrow>
   concat (map (session_events h) (map (\<lambda>m. 9 # padded 1024 m) ms)) = published h (map (\<lambda>m. (m, [])) ms)"
  by (induction ms) (auto simp: session_events_def published_def message_ok_def)

text \<open>A request of a publisher and of a subscriber, in the loop of \<^verbatim>\<open>main\<close>.\<close>

lemma request_run:
  assumes "script s = Ready fd # Got fd [code] # es" and "0 \<le> fd" and "fd < 1024"
    and "code = OP_CODE_REGISTER_PUBLISHER \<and> f = register_publisher \<or>
      code = OP_CODE_REGISTER_SUBSCRIBER \<and> f = register_subscriber \<or>
      code = OP_CODE_REGISTER_BOX \<and> f = register_box \<or>
      code = OP_CODE_REMOVE_BOX \<and> f = mbroker_remove_box"
    and "f fd ((counted_object s)\<lparr>script := es\<rparr>) = Ret (r, t)"
  shows "mbroker_read_pipe_input fd s = Ret (if r < 0 then -1 else 0, t)"
  using assms by (auto simp: mbroker_read_pipe_input_def sys_bnds bnd_Ret ret_def op_codes)

lemma publisher_then_subscriber_run:
  assumes s: "serving s x None [] ms" and x: "x \<noteq> []"
    and mem: "\<forall>k. 0 \<in> set (first_object (uninit s k) (ms @ new))"
    and new: "list_all message_ok new" "new \<noteq> []" "length (concat ms) + length (concat new) \<le> tfs_limit (tfs s)"
    and pub: "is_cstring pub" "length pub < 256" and sub: "is_cstring sub" "length sub < 256"
    and fd: "0 \<le> fd" "fd < 1024" and h: "0 \<le> h" "h < 1024" and h': "0 \<le> h'" "h' < 1024"
    and ds: "length ds = length ms + length new" "list_all ((\<le>) 0) ds"
    and ev: "script s = Ready fd # Got fd [1] # Got fd (padded 256 pub) # Got fd (padded 32 (47 # x)) #
      Result h False # published h (map (\<lambda>m. (m, [])) new) @ Ready h # Got h [] # Result 0 False #
      Ready fd # Got fd [2] # Got fd (padded 256 sub) # Got fd (padded 32 (47 # x)) #
      deliveries ds @ Result h' False # Ready h' # Result 0 False # es"
  shows "\<exists>u k. requests 2 fd s = Ret ([0, 0], u) \<and> script u = es \<and> holds_messages u x (ms @ new) \<and>
     sent u = sent s @ map (to_subscriber sub) (replayed (uninit s k) (ms @ new))"
proof -
  let ?rs = "map (\<lambda>m. (m, [] :: int list)) new"
  let ?subscriber = "Got fd (padded 256 sub) # Got fd (padded 32 (47 # x)) #
      deliveries ds @ Result h' False # Ready h' # Result 0 False # es"
  let ?s = "(counted_object s)\<lparr>script := Got fd (padded 256 pub) # Got fd (padded 32 (47 # x)) #
      Result h False # published h ?rs @ Ready h # Got h [] # Result 0 False #
      Ready fd # Got fd [2] # ?subscriber\<rparr>"
  have s': "serving ?s x None [] ms" using s serving_cong [of ?s s] by simp
  have rs: "rounds_ok [] ?rs" "map fst ?rs = new" using new(1) by (simp_all add: rounds_ok_def list_all_iff comp_def)
  obtain t where t: "register_publisher fd ?s = Ret (0, t)" "serving t x None [] (ms @ new)"
    "script t = Ready fd # Got fd [2] # ?subscriber" "sent t = sent s"
    using register_publisher_run [OF s' rs(1) x _ pub fd(1) h(1,2), of "Ready fd # Got fd [2] # ?subscriber"] new(3) rs(2)
    by (auto simp: spread_all_def comp_def)
  have first: "mbroker_read_pipe_input fd s = Ret (0, t)"
    using request_run [OF ev fd, of register_publisher 0 t] t(1) by (simp add: op_codes)
  have "nodes_ok (box_list ?s)" using s' by (simp add: serving_def broker_ready_def)
  then have mem': "uninit t = uninit s"
    using keepsD [OF memory.keeps_sessions(1) _ t(1), of "uninit s"] by simp
  let ?t = "(counted_object t)\<lparr>script := ?subscriber\<rparr>"
  have t': "serving ?t x None [] (ms @ new)" using t(2) serving_cong [of ?t t] by simp
  obtain u where u: "register_subscriber fd ?t = Ret (0, u)" "script u = es"
    "\<forall>y ms'. holds_messages ?t y ms' \<longrightarrow> holds_messages u y ms'" "sent u = sent t @ map (to_subscriber sub) (replayed (uninit s (Suc (Suc (objects ?t)))) (ms @ new))"
    using register_subscriber_run [OF t' _ x sub fd(1) h', of ds es] new(2) ds mem mem' by auto
  have "mbroker_read_pipe_input fd t = Ret (0, u)"
    using request_run [OF t(3) fd, of register_subscriber 0 u] u(1) by (simp add: op_codes)
  with first have "requests 2 fd s = Ret ([0, 0], u)" by (simp add: eval_nat_numeral bnd_Ret ret_def)
  moreover have "holds_messages ?t x (ms @ new)" using t' by (simp add: serving_def)
  ultimately show ?thesis using u(2-4) t(4) by auto
qed

section \<open>A manager that asks for a box\<close>

text \<open>Whether the broker makes the box \<open>/x\<close>.\<close>

definition can_make_box :: "cstring \<Rightarrow> broker \<Rightarrow> bool" where
  "can_make_box x s \<longleftrightarrow> 47 # x \<notin> set (box_names s) \<and> \<not> open_failed x TFS_O_CREAT (tfs s)"

lemma can_make_box_other [simp]:
  "can_make_box x (s\<lparr>script := es\<rparr>) = can_make_box x s"
  "can_make_box x (s\<lparr>objects := n\<rparr>) = can_make_box x s"
  by (simp_all add: can_make_box_def box_names_def)

lemma create_box_result:
  assumes "broker_ready s" and "cstr name = 47 # x" and "0 \<in> set name" and "x \<noteq> []" and "length x < 31"
  shows "\<exists>t. create_box_command name s = Ret (if can_make_box x s then 0 else -1, t) \<and> broker_ready t \<and>
     script t = script s \<and> sent t = sent s \<and>
     box_names t = box_names s @ (if can_make_box x s then [47 # x] else [])"
proof (cases "47 # x \<in> set (box_names s)")
  case True
  with create_box_command_run [OF assms] assms(1) show ?thesis
    by (auto simp: can_make_box_def broker_ready_def box_names_def)
next
  case False
  from create_box_command_run [OF assms, unfolded if_not_P [OF False]] False show ?thesis
    by (fastforce simp: can_make_box_def box_names_def new_box_def)
qed

text \<open>The answer, of which the client gets 8 bytes.\<close>

definition creation_answer :: "bool \<Rightarrow> byte list" where
  "creation_answer made = OP_CODE_ANSWER_TO_CREATION # enc_le 4 (if made then 0 else -1) @
     padded 1024 (if made then [] else register_box_error)"

lemma creation_answer_alt:
  "creation_answer made = OP_CODE_ANSWER_TO_CREATION # enc_le 4 (if made then 0 else -1) @
     padded 1024 (if (if made then 0 else -1 :: int) < 0 then register_box_error else [])"
  by (simp add: creation_answer_def)

lemma register_box_answers:
  assumes fd: "0 \<le> reg_fd" "0 \<le> h" and p: "cstr p = pipe" "0 \<in> set p" "length p = 256" and name: "length name = 32"
    and ev: "script s = Got reg_fd p # Got reg_fd name # Result h False # Wrote True # Result 0 False # es"
    and made: "create_box_command name (s\<lparr>objects := Suc (Suc (objects s)),
        script := Result h False # Wrote True # Result 0 False # es\<rparr>) = Ret (if made then 0 else -1, t)"
    and t: "script t = Result h False # Wrote True # Result 0 False # es" "sent t = sent s"
  shows "register_box reg_fd s = Ret (0, (counted_object t)\<lparr>script := es,
     sent := sent s @ [(pipe, take 8 (creation_answer made))]\<rparr>)"
proof -
  let ?answer = "creation_answer made"
  have len: "length ?answer = 1029" by (simp add: creation_answer_def register_box_error_def)
  have "create_answer OP_CODE_ANSWER_TO_CREATION (if made then 0 else -1) register_box_error
      ANSWER_MESSAGE_SIZE t = Ret (?answer, counted_object t)"
    by (subst create_answer_run) (simp_all add: register_box_error_def creation_answer_def)
  moreover have "send_answer p ?answer (counted_object t) = Ret (0, (counted_object t)\<lparr>script := es,
      sent := sent s @ [(pipe, take 8 ?answer)]\<rparr>)"
    using p fd(2) t len
    by (simp add: send_answer_def sys_bnds write_object_def sizeof_pointer_def ret_def bnd_assoc)
  ultimately show ?thesis
    using fd(1) p(3) name ev made
    by (simp add: register_box_def read_field_run bnd_Ret)
qed

lemma register_box_run:
  assumes "broker_ready s" and "x \<noteq> []" and "length x < 31" and "0 \<le> reg_fd" and "0 \<le> h"
    and p: "cstr p = pipe" "0 \<in> set p" "length p = 256"
    and name: "cstr name = 47 # x" "0 \<in> set name" "length name = 32"
    and ev: "script s = Got reg_fd p # Got reg_fd name # Result h False # Wrote True # Result 0 False # es"
  shows "\<exists>t. register_box reg_fd s = Ret (0, t) \<and> broker_ready t \<and> script t = es \<and>
     sent t = sent s @ [(pipe, take 8 (creation_answer (can_make_box x s)))] \<and>
     box_names t = box_names s @ (if can_make_box x s then [47 # x] else [])"
proof -
  let ?s = "s\<lparr>objects := Suc (Suc (objects s)), script := Result h False # Wrote True # Result 0 False # es\<rparr>"
  have "broker_ready ?s" using assms(1) by (simp add: broker_ready_def)
  from create_box_result [OF this name(1,2) assms(2,3)]
  obtain t where t: "create_box_command name ?s = Ret (if can_make_box x s then 0 else -1, t)" "broker_ready t"
    "script t = Result h False # Wrote True # Result 0 False # es" "sent t = sent s"
    "box_names t = box_names s @ (if can_make_box x s then [47 # x] else [])"
    by (auto simp: box_names_def)
  from register_box_answers [OF assms(4,5) p name(3) ev t(1,3,4)] t(2,5) show ?thesis
    by (auto simp: broker_ready_def box_names_def)
qed

text \<open>
  The manager puts no 0 behind the name of the box: what follows it in the request is what its memory
  held.
\<close>

definition name_field :: "cstring \<Rightarrow> mem \<Rightarrow> byte list" where
  "name_field name memory = name @ drop (257 + length name) (mem_read memory 0 289)"

lemma box_request_events:
  assumes "length pipe \<le> 256" and "length name \<le> 32"
  shows "request_events fd (box_request code pipe name memory) =
     [Ready fd, Got fd [code], Got fd (padded 256 pipe), Got fd (name_field name memory)]"
  using assms by (simp add: request_events_def box_request_def name_field_def)

text \<open>The name the broker finds there, without the slash: the name asked for and what is behind it.\<close>

definition stored_name :: "cstring \<Rightarrow> mem \<Rightarrow> cstring" where
  "stored_name x memory = tl (cstr (name_field (47 # x) memory))"

lemma stored_name:
  assumes "is_cstring x" and "x \<noteq> []" and "length x < 31" and "0 \<in> set (name_field (47 # x) memory)"
  shows "length (name_field (47 # x) memory) = 32" and "cstr (name_field (47 # x) memory) = 47 # stored_name x memory"
    and "is_cstring (stored_name x memory)" and "stored_name x memory \<noteq> []" and "length (stored_name x memory) < 31"
    and "take (length x) (stored_name x memory) = x"
proof -
  let ?f = "name_field (47 # x) memory" and ?rest = "drop (258 + length x) (mem_read memory 0 289)"
  show len: "length ?f = 32" using assms(3) by (simp add: name_field_def)
  have "cstr (a @ b) = a @ cstr b" if "is_cstring a" for a b
    using that by (induction a) (auto simp: cstr_def is_cstring_def)
  from this [of "47 # x" ?rest] have c: "cstr ?f = 47 # x @ cstr ?rest"
    using assms(1) by (simp add: name_field_def)
  then show name: "cstr ?f = 47 # stored_name x memory" and "take (length x) (stored_name x memory) = x"
    and "stored_name x memory \<noteq> []"
    using assms(2) by (simp_all add: stored_name_def)
  then show "is_cstring (stored_name x memory)" using is_cstring_cstr [of ?f] by simp
  show "length (stored_name x memory) < 31" using length_cstr [OF assms(4)] len name by simp
qed

lemma stored_name_exact:
  assumes "is_cstring x" and "length x < 31" and "memory (258 + length x) = 0"
  shows "0 \<in> set (name_field (47 # x) memory)" and "stored_name x memory = x"
proof -
  have "drop (258 + length x) (mem_read memory 0 289) = 0 # drop (Suc (258 + length x)) (mem_read memory 0 289)"
    using assms(2,3) by (simp add: Cons_nth_drop_Suc [symmetric])
  then have "name_field (47 # x) memory = (47 # x) @ 0 # drop (Suc (258 + length x)) (mem_read memory 0 289)"
    by (simp add: name_field_def)
  with assms(1) show "0 \<in> set (name_field (47 # x) memory)" "stored_name x memory = x"
    by (simp_all add: stored_name_def)
qed

definition manager_events :: "int \<Rightarrow> byte list list \<Rightarrow> os_event list" where
  "manager_events h answers = [Result (-1) True, Result 0 False, Result h False, Wrote True, Result 0 False,
     Result h False] @ concat (map (\<lambda>m. [Ready h, Got h m]) answers) @ [Result 0 False, Result 0 False]"

definition answered :: "int \<Rightarrow> os_event list" where
  "answered h = [Result h False, Wrote True, Result 0 False]"

text \<open>The two sides of the request.\<close>

lemma register_box_request_run:
  assumes "script c = answered h @ es" and "0 \<le> h" and "length pipe \<le> 256" and "length name \<le> 32"
  shows "register_box_request reg pipe name c = Ret (0, (counted_object c)\<lparr>script := es,
     sent := sent c @ [(reg, box_request OP_CODE_REGISTER_BOX pipe name (uninit c (objects c)))]\<rparr>)"
  using box_request_runs(1) [of c h es pipe name reg OP_CODE_REGISTER_BOX] assms
  by (simp add: register_box_request_def answered_def box_request_def BOX_MESSAGE_SIZE_def)

lemma box_request_served:
  assumes "broker_ready s" and x: "is_cstring x" "x \<noteq> []" "length x < 31" "0 \<in> set (name_field (47 # x) memory)"
    and "is_cstring pipe" and "length pipe < 256" and fd: "0 \<le> fd" "fd < 1024" and "0 \<le> h"
    and "script s = request_events fd (box_request OP_CODE_REGISTER_BOX pipe (47 # x) memory) @ answered h"
  defines "y \<equiv> stored_name x memory"
  shows "\<exists>t. requests 1 fd s = Ret ([0], t) \<and> broker_ready t \<and>
     sent t = sent s @ [(pipe, take 8 (creation_answer (can_make_box y s)))] \<and>
     box_names t = box_names s @ (if can_make_box y s then [47 # y] else [])"
proof -
  let ?field = "name_field (47 # x) memory"
  note field = stored_name [OF x, folded y_def]
  have ev: "script s = Ready fd # Got fd [3] # Got fd (padded 256 pipe) # Got fd ?field # answered h"
    using assms(4,7,11) by (simp add: box_request_events op_codes)
  let ?s = "(counted_object s)\<lparr>script := Got fd (padded 256 pipe) # Got fd ?field # answered h\<rparr>"
  have "broker_ready ?s" using assms(1) by (simp add: broker_ready_def)
  from register_box_run [OF this field(4,5) fd(1) assms(10) _ _ _ field(2) x(4) field(1), of "padded 256 pipe" pipe "[]"]
  obtain t where t: "register_box fd ?s = Ret (0, t)" "broker_ready t"
    "sent t = sent s @ [(pipe, take 8 (creation_answer (can_make_box y s)))]"
    "box_names t = box_names s @ (if can_make_box y s then [47 # y] else [])"
    using assms(6,7) by (auto simp: answered_def box_names_def)
  have "mbroker_read_pipe_input fd s = Ret (0, t)"
    using request_run [OF ev fd, of register_box 0 t] t(1) by (simp add: op_codes)
  with t(2-4) show ?thesis by (simp add: bnd_Ret ret_def)
qed

section \<open>A manager that wants a box removed\<close>

lemma manager_remove_box_run:
  assumes "script c = answered h @ es" and "0 \<le> h" and "length pipe \<le> 256" and "length name \<le> 32"
  shows "manager_remove_box reg pipe name c = Ret (0, (counted_object c)\<lparr>script := es,
     sent := sent c @ [(reg, 5 # take 7 (padded 256 pipe))]\<rparr>)"
  using box_request_runs(2) [of c h es pipe name reg 5] assms
  by (simp add: manager_remove_box_def answered_def box_request_def sizeof_pointer_def)

text \<open>A name that is neither a box nor a file: the broker frees the name of its first box and fails.\<close>

lemma tfs_unlink_missing:
  assumes "tfs_ready s" and "is_cstring y" and "\<forall>z. y = 47 # z \<longrightarrow> z \<notin> dom (files s)"
  shows "\<exists>t. tfs_unlink (Some y) s = Ret (-1, t) \<and> files t = files s"
proof (cases "\<exists>z. y = 47 # z \<and> z \<noteq> []")
  case True
  then obtain z where z: "y = 47 # z" "z \<noteq> []" by blast
  have s: "fs_inv s" "\<not> g_library_mutex s" "small_files s" using assms(1) by (simp_all add: tfs_ready_def)
  have "is_cstring z" using assms(2) z(1) by simp
  from tfs_unlink_files [OF s this z(2)] assms(3) z(1) show ?thesis by auto
next
  case False
  then have "\<not> valid_pathname (Some y)" by (simp add: valid_pathname_iff)
  then show ?thesis using assms(1) by (simp add: tfs_ready_def not_pathname)
qed

lemma remove_box_command_unknown:
  assumes "broker_ready s" and "0 \<in> set name" and "cstr name \<notin> set (box_names s)"
    and "\<forall>z. cstr name = 47 # z \<longrightarrow> z \<notin> dom (files (tfs s))"
  shows "\<exists>l u. remove_box_command name s = Ret (-1, s\<lparr>box_list := l, tfs := u, box_list_mutex := False\<rparr>) \<and>
     map (box_name \<circ> box) l = box_names s \<and> files u = files (tfs s)"
proof (cases "box_list s")
  case Nil
  then have "remove_box_command name s = Ret (-1, s\<lparr>box_list := [], tfs := tfs s, box_list_mutex := False\<rparr>)"
    using assms(1) by (simp add: broker_ready_def remove_box_command_def unlock_list_return_run)
  then show ?thesis using Nil by (fastforce simp: box_names_def)
next
  case (Cons n ns)
  obtain u where u: "tfs_unlink (Some (cstr name)) (tfs s) = Ret (-1, u)" "files u = files (tfs s)"
    using tfs_unlink_missing [OF broker_readyD(1) [OF assms(1)] is_cstring_cstr assms(4)] by blast
  have "box_name (box n) \<noteq> cstr name" "intact n"
    using assms(1,3) Cons by (auto simp: broker_ready_def box_names_def)
  with u(1) have "remove_box_command name s = Ret (-1, s\<lparr>box_list := n\<lparr>name_freed := True\<rparr> # ns,
      tfs := u, box_list_mutex := False\<rparr>)"
    using assms Cons by (auto simp: broker_ready_def remove_box_command_def free_name_def intact_def
        bnd_assoc bnd_Ret [OF in_fs_run] unlock_list_return_run ret_def)
  moreover have "map (box_name \<circ> box) (n\<lparr>name_freed := True\<rparr> # ns) = box_names s"
    by (simp add: box_names_def Cons)
  ultimately show ?thesis using u(2) by blast
qed

end
