(* ===== verification/System_Props.thy ===== *)
theory System_Props imports System Client_Props Broker_Limits begin

text \<open>
  The properties of the system: lines typed into a publisher reach the output of a subscriber, boxes
  that a manager asks for exist, and where the programs misunderstand each other.
\<close>

section \<open>From a publisher to a subscriber\<close>

text \<open>What the broker takes from the two pipes when both clients have written.\<close>

lemma both_served:
  assumes "length pub < 256" and "pub \<noteq> reg" and "length sub < 256" and "length name \<le> 32"
    and "list_all message_ok (map line_text lines)"
    and "cs = (reg, 1 # padded 256 pub @ padded 32 name) # map (published_line pub) lines"
    and "qs = [(reg, 2 # padded 256 sub @ padded 32 name)]"
  shows "publisher_served fd h (pipe_messages reg cs) (pipe_messages pub cs) @
       subscriber_served fd h' ds (pipe_messages reg qs) =
     Ready fd # Got fd [1] # Got fd (padded 256 pub) # Got fd (padded 32 name) # Result h False #
       published h (map (\<lambda>m. (m, [])) (map line_text lines)) @ Ready h # Got h [] # Result 0 False #
     [Ready fd, Got fd [2], Got fd (padded 256 sub), Got fd (padded 32 name)] @
       deliveries ds @ [Result h' False, Ready h', Result 0 False]"
proof -
  have "pipe_messages pub (map (published_line pub) lines) = map (\<lambda>m. 9 # padded 1024 m) (map line_text lines)"
    by (induction lines) (auto simp: published_line_def)
  moreover have "pipe_messages reg (map (published_line pub) lines) = []"
    using assms(2) by (intro pipe_messages_other) (auto simp: published_line_def)
  ultimately show ?thesis
    using assms by (simp add: publisher_served_def subscriber_served_def sign_in_events
        session_events_published del: map_map)
qed

text \<open>
  C3: what is typed into a publisher is what a subscriber prints. A publisher signs in to the first box
  and sends its lines; the broker serves it until it has left; then a subscriber signs in. All three
  programs run from their \<^verbatim>\<open>main\<close>, each reading what the others wrote, the subscriber each message before
  the next one is written. If the lines are not empty and fit the block of the box, the subscriber
  prints the messages the box had and then the lines, in order, and the box holds them. The broker puts
  no 0 behind the first of these messages: it is printed with what the broker's buffer held behind it,
  up to a 0, which the buffer must have somewhere; where the byte behind it is 0 the print is exact.
\<close>

theorem lines_reach_the_subscriber:
  assumes "serving s x None [] ms" and "x \<noteq> []" and "sent s = []"
    and "client_check_args (Some reg) (Some pub) (Some (47 # x)) = 0"
    and "client_check_args (Some reg) (Some sub) (Some (47 # x)) = 0"
    and "is_cstring pub" "length pub < 256" "pub \<noteq> reg" and "is_cstring sub" "length sub < 256"
    and "lines \<noteq> []" and "\<forall>l \<in> set lines. length l \<le> 1023 \<and> line_text l \<noteq> []"
    and "length (concat ms) + length (concat (map line_text lines)) \<le> tfs_limit (tfs s)"
    and "\<forall>k. 0 \<in> set (first_object (uninit s k) (ms @ map line_text lines))"
    and "sent c = []" and "sent q = []" and "printed_lines q = []" and "messages_received q = 0"
    and "length ms + length lines < 2 ^ 31"
    and "0 \<le> fd" "fd < 1024" and "0 \<le> h" "h < 1024" and "0 \<le> h'" "h' < 1024"
    and "length ds = length ms + length lines" and "list_all ((\<le>) 0) ds"
    and "0 \<le> hp" and "0 \<le> hs" "hs < 1024"
  shows "\<exists>c' q0.
     pub_main [prog1, reg, pub, 47 # x] (c\<lparr>script := publisher_events hp lines\<rparr>) = Ret (0, c') \<and>
     sub_main [prog2, reg, sub, 47 # x] (q\<lparr>script := subscriber_events hs []\<rparr>) = Ret (-1, q0) \<and>
     (\<exists>u. requests 2 fd (s\<lparr>script :=
          publisher_served fd h (pipe_messages reg (sent c')) (pipe_messages pub (sent c')) @
          subscriber_served fd h' ds (pipe_messages reg (sent q0))\<rparr>) = Ret ([0, 0], u) \<and>
       holds_messages u x (ms @ map line_text lines) \<and>
       (\<exists>q' k. sub_main [prog2, reg, sub, 47 # x]
            (q\<lparr>script := subscriber_events hs (pipe_messages sub (sent u))\<rparr>) = Ret (-1, q') \<and>
          sent q' = sent q0 \<and>
          printed_lines q' = map Message_line (replayed (uninit s k) (ms @ map line_text lines)) \<and>
          (uninit s k (length (hd (ms @ map line_text lines))) = 0 \<longrightarrow>
            printed_lines q' = map Message_line (ms @ map line_text lines))))"
proof -
  let ?new = "map line_text lines"
  let ?name = "47 # x"
  have pos: "position ?name (box_list s) = Some 0" and ready: "broker_ready s"
    using assms(1) by (auto simp: serving_def first_box_def)
  from ready_box(5,6) [OF ready pos] have len: "length ?name \<le> 32" by simp
  have new: "list_all message_ok ?new"
  proof -
    have "message_ok (line_text l)" if "l \<in> set lines" for l
      using assms(12) that length_line_text [of l] by (auto simp: message_ok_def)
    then show ?thesis by (simp add: list_all_iff)
  qed
  let ?c = "c\<lparr>script := publisher_events hp lines\<rparr>"
  obtain c' where c': "pub_main [prog1, reg, pub, ?name] ?c = Ret (0, c')"
    "sent c' = (reg, 1 # padded 256 pub @ padded 32 ?name) # map (published_line pub) lines"
    using pub_main_run [OF assms(4), of ?c "-1" hp hp lines 0 "[]" prog1] assms(12,15,28)
    by (auto simp: publisher_events_def signed_in_def)
  let ?q = "\<lambda>ts. q\<lparr>script := subscriber_events hs (map (\<lambda>t. 10 # padded 1024 t) ts)\<rparr>"
  have sub: "\<exists>q'. sub_main [prog2, reg, sub, ?name] (?q ts) = Ret (-1, q') \<and>
      sent q' = [(reg, 2 # padded 256 sub @ padded 32 ?name)] \<and> printed_lines q' = map Message_line ts"
    if "list_all message_ok ts" "length ts < 2 ^ 31" for ts
    using sub_main_run [OF assms(5), of "?q ts" "-1" hs hs ts "[]" prog2] that assms(16-18,29,30)
    by (auto simp: subscriber_events_def signed_in_def comp_def message_ok_def list_all_iff)
  obtain q0 where q0: "sub_main [prog2, reg, sub, ?name] (q\<lparr>script := subscriber_events hs []\<rparr>) = Ret (-1, q0)"
    "sent q0 = [(reg, 2 # padded 256 sub @ padded 32 ?name)]"
    using sub [of "[]"] by auto
  let ?es = "publisher_served fd h (pipe_messages reg (sent c')) (pipe_messages pub (sent c')) @
     subscriber_served fd h' ds (pipe_messages reg (sent q0))"
  note es = both_served [OF assms(7,8,10) len new c'(2) q0(2), of fd h h' ds]
  obtain u k where u: "requests 2 fd (s\<lparr>script := ?es\<rparr>) = Ret ([0, 0], u)" "holds_messages u x (ms @ ?new)"
    "sent u = map (to_subscriber sub) (replayed (uninit s k) (ms @ ?new))"
    using publisher_then_subscriber_run [of "s\<lparr>script := ?es\<rparr>" x ms ?new pub sub fd h h' ds "[]"] es
      serving_cong [of "s\<lparr>script := ?es\<rparr>" s] assms(1-3,6,7,9-11,13,14,20-27) new by auto
  let ?sent = "replayed (uninit s k) (ms @ ?new)"
  have "pipe_messages sub (sent u) = map (\<lambda>t. 10 # padded 1024 t) ?sent"
    by (simp only: u(3) pipe_messages_subscriber)
  moreover have held: "list_all message_ok (ms @ ?new)" using u(2) by (simp add: holds_messages_def)
  then have "list_all message_ok ?sent" using replayed_messages assms(14) by blast
  ultimately obtain q' where q': "sub_main [prog2, reg, sub, ?name]
      (q\<lparr>script := subscriber_events hs (pipe_messages sub (sent u))\<rparr>) = Ret (-1, q')"
    "sent q' = sent q0" "printed_lines q' = map Message_line ?sent"
    using sub [of ?sent] q0(2) assms(19) by auto
  have "?sent = ms @ ?new" if "uninit s k (length (hd (ms @ ?new))) = 0"
    using replayed_exact(2) [of "ms @ ?new" "uninit s k"] held that assms(11) by blast
  with c'(1) q0(1) u(1,2) q' show ?thesis by metis
qed

lemma demo_client_script [simp]: "(demo_client es)\<lparr>script := es'\<rparr> = demo_client es'"
  by (simp add: demo_client_def)

lemma demo_broker_script [simp]: "(demo_broker es)\<lparr>script := es'\<rparr> = demo_broker es'"
  by (simp add: demo_broker_def)

lemma lines_reach_the_subscriber_witness:
  "\<exists>es q'. sub_main [[], [114], [115], [47, 97]] (demo_client es) = Ret (-1, q') \<and>
     printed_lines q' = [Message_line [104, 105], Message_line [33]]"
proof -
  have "\<forall>k. 0 \<in> set (first_object (uninit (demo_broker []) k) ([] @ map line_text [[104, 105, 10], [33]]))"
    by (simp add: line_text_def first_object_def mem_read_def map_replicate_const)
  from lines_reach_the_subscriber [OF demo_broker_ready(3) _ _ _ _ _ _ _ _ _ _ _ _ this, where reg = "[114]" and pub = "[112]" and
      sub = "[115]" and c = "demo_client []" and q = "demo_client []" and fd = 3 and h = 4 and h' = 6 and ds = "[4, 5]" and
      hp = 3 and hs = 3 and ?prog1.0 = "[]" and ?prog2.0 = "[]"]
  show ?thesis by (auto simp: client_check_args_def message_sizes line_text_def demo1_store)
qed

section \<open>Messages that meet in a pipe\<close>

text \<open>
  C29: messages that arrive together are lost. The subscriber reads 1029 bytes where a message has 1025:
  when two are in its pipe, it prints the first, and what is left of the second starts 4 bytes late,
  has no known code and ends the subscriber.
\<close>

theorem messages_that_meet_end_the_subscriber:
  assumes "is_cstring m" and "length m < 1024" and "is_cstring m'" and "length m' < 1024" and "10 \<notin> set m'"
    and "stream = snd (to_subscriber pipe m) @ snd (to_subscriber pipe m')"
    and "script q = [Ready fd, Got fd (take 1029 stream), Ready fd, Got fd (take 1029 (drop 1029 stream))]"
    and "0 \<le> fd" and "fd < 1024" and "messages_received q + 1 < 2 ^ 31"
  shows "\<exists>q'. subscribe_loop (Suc (Suc n)) fd q = Ret (-1, q') \<and>
     printed_lines q' = printed_lines q @ [Message_line m] \<and> script q' = []"
proof -
  let ?rest = "drop 1029 stream"
  have stream: "stream = 10 # padded 1024 m @ 10 # padded 1024 m'"
    by (simp add: assms(6) to_subscriber_def op_codes)
  have rest: "?rest = drop 3 (padded 1024 m')" using assms(2) by (simp add: stream)
  have "hd ?rest \<in> set (padded 1024 m')"
    using assms(4) by (simp only: rest) (simp add: hd_drop_conv_nth)
  then have hd: "hd ?rest \<noteq> 10" using assms(5) by (auto simp: padded_def)
  have len: "length ?rest = 1021" "length stream = 2050" using assms(2,4) by (simp_all add: rest stream)
  let ?q = "q\<lparr>objects := Suc (objects q), messages_received := messages_received q + 1,
     script := [Ready fd, Got fd ?rest], printed_lines := printed_lines q @ [Message_line m]\<rparr>"
  have "slice 1 1024 (take 1029 stream) = padded 1024 m" using assms(2) by (simp add: slice_def stream)
  moreover have "hd (take 1029 stream) = 10" "length (take 1029 stream) = 1029"
    using assms(2,4) by (simp_all add: stream)
  ultimately have one: "sub_read_pipe_input fd q = Ret (0, ?q)"
    using assms(1,2,7-10) len
    by (simp add: sub_read_pipe_input_def sys_bnds ANSWER_MESSAGE_SIZE_def print_def ret_def)
  have "sub_read_pipe_input fd ?q = Ret (-1, (counted_object ?q)\<lparr>script := []\<rparr>)"
    using assms(8,9) hd len
    by (simp add: sub_read_pipe_input_def sys_bnds ANSWER_MESSAGE_SIZE_def hd_append ret_def)
  with one show ?thesis by (simp add: bnd_def ret_def)
qed

lemma messages_that_meet_end_the_subscriber_witness:
  "\<exists>es q'. subscribe_loop 2 3 (demo_client es) = Ret (-1, q') \<and> printed_lines q' = [Message_line [104, 105]]"
proof -
  let ?stream = "snd (to_subscriber [115] [104, 105]) @ snd (to_subscriber [115] [33])"
  let ?q = "demo_client [Ready 3, Got 3 (take 1029 ?stream), Ready 3, Got 3 (take 1029 (drop 1029 ?stream))]"
  have "\<exists>q'. subscribe_loop (Suc (Suc 0)) 3 ?q = Ret (-1, q') \<and>
     printed_lines q' = printed_lines ?q @ [Message_line [104, 105]] \<and> script q' = []"
    by (rule messages_that_meet_end_the_subscriber [OF _ _ _ _ _ refl]) simp_all
  then show ?thesis by (auto simp only: numeral_2_eq_2 demo_client_fields append_Nil)
qed

section \<open>A manager and the broker\<close>

text \<open>
  C5: a manager that is told to create a box prints OK exactly when the broker made one. The manager puts
  no 0 behind the name in its request, so the box gets the name followed by what the manager's memory
  held there, up to a 0, which it must have within the field of 32 bytes. The broker adds that box at the
  end of its list unless it has one of that name or the file system cannot open a file for it, and goes
  on either way; the manager reads the broker's answer, prints it and returns 0. A refusal shows three
  letters of the broker's text and what the manager's own memory held behind them, up to a 0, which it
  must have too. Where the byte behind the name is 0 the box has the name that was asked for.
\<close>

theorem manager_creates_a_box:
  assumes "broker_ready s" and "sent s = []" and "is_cstring x" and "x \<noteq> []" and "length x < 31"
    and "manager_check_args (Some reg) (Some pipe) = 0" and "is_cstring pipe" and "length pipe < 256"
    and "sent m = []" and "printed_lines m = []"
    and "0 \<in> set (name_field (47 # x) (uninit m (objects m)))" and "y = stored_name x (uninit m (objects m))"
    and "junk = mem_read (uninit m (Suc (objects m))) 8 1021" and "can_make_box y s \<or> 0 \<in> set junk"
    and "0 \<le> fd" and "fd < 1024" and "0 \<le> h" and "0 \<le> hm" and "hm < 1024"
  shows "take (length x) y = x \<and> (uninit m (objects m) (258 + length x) = 0 \<longrightarrow> y = x) \<and>
    (\<exists>m0. register_box_request reg pipe (47 # x) (m\<lparr>script := answered hm\<rparr>) = Ret (0, m0) \<and>
     (\<exists>t. requests 1 fd (s\<lparr>script := concat (map (request_events fd) (pipe_messages reg (sent m0))) @ answered h\<rparr>) =
          Ret ([0], t) \<and> broker_ready t \<and>
       box_names t = box_names s @ (if can_make_box y s then [47 # y] else []) \<and>
       (\<exists>m'. manager_main [program, reg, pipe, create_word, 47 # x]
            (m\<lparr>script := manager_events hm (pipe_messages pipe (sent t))\<rparr>) = Ret (0, m') \<and> sent m' = sent m0 \<and>
          printed_lines m' = [if can_make_box y s then Ok_line else Error_line (cstr ([102, 97, 105] @ junk))])))"
proof -
  let ?name = "47 # x" and ?made = "can_make_box y s"
  let ?request = "box_request OP_CODE_REGISTER_BOX pipe ?name (uninit m (objects m))"
  have len: "length pipe \<le> 256" "length ?name \<le> 32" using assms(5,8) by simp_all
  let ?m0 = "(counted_object m)\<lparr>script := [], sent := [(reg, ?request)]\<rparr>"
  have m0: "register_box_request reg pipe ?name (m\<lparr>script := answered hm\<rparr>) = Ret (0, ?m0)"
    using assms(9,18) len by (subst register_box_request_run [where h = hm and es = "[]"]) simp_all
  let ?s = "s\<lparr>script := concat (map (request_events fd) (pipe_messages reg (sent ?m0))) @ answered h\<rparr>"
  have "broker_ready ?s" using assms(1) by (simp add: broker_ready_def)
  from box_request_served [where memory = "uninit m (objects m)", OF this assms(3-5,11,7,8,15,16,17)]
  obtain t where t: "requests 1 fd ?s = Ret ([0], t)" "broker_ready t"
    "sent t = [(pipe, take 8 (creation_answer ?made))]"
    "box_names t = box_names s @ (if ?made then [47 # y] else [])"
    using assms(2,12) by (auto simp: box_names_def)
  let ?read = "Ready hm # Got hm (take 8 (creation_answer ?made)) # [Result 0 False, Result 0 False]"
  let ?c = "m\<lparr>script := manager_events hm (pipe_messages pipe (sent t))\<rparr>"
  let ?c1 = "(counted_object m)\<lparr>script := Result hm False # ?read, sent := [(reg, ?request)]\<rparr>"
  let ?c2 = "(counted_object (?c1\<lparr>script := ?read\<rparr>))\<lparr>script := [Result 0 False, Result 0 False],
     printed_lines := [if ?made then Ok_line else Error_line (cstr ([102, 97, 105] @ junk))]\<rparr>"
  have sc: "script ?c = Result (-1) True # Result 0 False # answered hm @ Result hm False # ?read"
    by (simp add: manager_events_def answered_def t(3))
  have c1: "register_box_request reg pipe ?name (?c\<lparr>script := answered hm @ Result hm False # ?read\<rparr>) = Ret (0, ?c1)"
    using assms(9,18) len by (subst register_box_request_run [where h = hm and es = "Result hm False # ?read"]) simp_all
  have "manager_read_pipe_input hm (?c1\<lparr>script := ?read\<rparr>) = Ret (1, ?c2)"
    using manager_read_answer [of OP_CODE_ANSWER_TO_CREATION "if ?made then 0 else -1" register_box_error
        "creation_answer ?made" "?c1\<lparr>script := ?read\<rparr>" hm] assms(10,13,14,18,19)
    by (auto simp: creation_answer_alt register_box_error_def split: if_splits)
  then have "manager_main [program, reg, pipe, create_word, ?name] ?c = Ret (0, ?c2\<lparr>script := []\<rparr>)"
    using assms(18) by (intro manager_main_run [where f = register_box_request and u = "-1", OF assms(6) len(2) _ _ c1])
      (simp_all add: sc)
  with m0 t stored_name(6) [OF assms(3-5,11)] stored_name_exact(2) [OF assms(3,5)] show ?thesis
    by (auto simp: assms(12))
qed

lemma manager_creates_a_box_witness:
  "\<exists>s t c m'. requests 1 3 s = Ret ([0], t) \<and> box_names t = [[47, 97], [47, 98]] \<and>
     manager_main [[], [114], [109], create_word, [47, 98]] c = Ret (0, m') \<and> printed_lines m' = [Ok_line]"
proof -
  let ?s = "(demo_broker [])\<lparr>tfs := demo2\<rparr>"
  have "first_free (freeinode_ts demo2) \<noteq> None"
    by (simp add: demo2_fields first_free_None)
  then have "\<not> open_failed [98] TFS_O_CREAT demo2"
    using demo2_store(2) tfs_spare_None [of demo2] demo2_state(4) demo2_fields(4)
    by (simp_all add: open_failed_def can_create_def root_room_def)
  then have make: "can_make_box [98] ?s" "box_names ?s = [[47, 97]]"
    by (simp_all add: can_make_box_def box_names_def new_box_def)
  have y: "0 \<in> set (name_field (47 # [98]) (uninit (demo_client []) (objects (demo_client []))))"
    "[98] = stored_name [98] (uninit (demo_client []) (objects (demo_client [])))"
    using stored_name_exact [of "[98]" "uninit (demo_client []) (objects (demo_client []))"] by simp_all
  show ?thesis
    using manager_creates_a_box [OF demo2_broker_ready [of "[]"] _ _ _ _ _ _ _ _ _ y, where reg = "[114]" and
        pipe = "[109]" and junk = "replicate 1021 0" and fd = 3 and h = 4 and hm = 3 and program = "[]"]
    by (auto simp only: make if_True append_Cons append_Nil) (auto simp: manager_check_args_def message_sizes)
qed

text \<open>
  C28: a manager that is told to remove a box does not have that box removed. It writes only 8 bytes of
  its request: 7 of them start the name of its pipe, and when the pipe is empty the broker's array for the
  name of the box keeps the 32 bytes it had before, of which one must be 0. If these name neither a box
  nor a file, no box is removed, no answer is sent, and the loop of the broker's \<^verbatim>\<open>main\<close> returns -1. If
  they name the first box, that box is removed, whichever the manager named, and the answer goes to the
  pipe of the 7 bytes and what the broker's memory held behind them.
\<close>

theorem manager_remove_takes_a_stale_name:
  fixes s :: broker
  defines "stale \<equiv> mem_read (uninit s (Suc (Suc (objects s)))) 0 32"
  assumes "broker_ready s" and "0 \<in> set stale"
    and "length pipe \<le> 256" and "length name \<le> 32" and "sent m = []" and "0 \<le> hm"
    and "0 \<le> fd" and "fd < 1024" and "0 \<le> h"
    and "object = take 7 (padded 256 pipe) @ drop 7 (mem_read (uninit s (Suc (objects s))) 0 256)"
  shows "\<exists>m0. manager_remove_box reg pipe name (m\<lparr>script := answered hm\<rparr>) = Ret (0, m0) \<and>
     (cstr stale \<notin> set (box_names s) \<and> (\<forall>z. cstr stale = 47 # z \<longrightarrow> z \<notin> dom (files (tfs s))) \<longrightarrow>
       (\<exists>t. main_loop (Suc n) fd (s\<lparr>script := concat (map (request_events fd) (pipe_messages reg (sent m0)))\<rparr>) =
          Ret (-1, t) \<and>
         box_names t = box_names s \<and> files (tfs t) = files (tfs s) \<and> sent t = sent s)) \<and>
     (box_names s \<noteq> [] \<and> cstr stale = hd (box_names s) \<and> 0 \<in> set object \<longrightarrow>
       (\<exists>t. requests 1 fd
            (s\<lparr>script := concat (map (request_events fd) (pipe_messages reg (sent m0))) @ answered h\<rparr>) = Ret ([0], t) \<and>
         box_names t = tl (box_names s) \<and>
         sent t = sent s @ [(cstr object, OP_CODE_ANSWER_TO_REMOVAL # enc_le 4 0 @ [0, 0, 0])]))"
proof -
  let ?message = "5 # take 7 (padded 256 pipe)"
  let ?m0 = "(counted_object m)\<lparr>script := [], sent := [(reg, ?message)]\<rparr>"
  have m0: "manager_remove_box reg pipe name (m\<lparr>script := answered hm\<rparr>) = Ret (0, ?m0)"
    using assms(4-7) by (subst manager_remove_box_run [where h = hm and es = "[]"]) simp_all
  have events: "concat (map (request_events fd) (pipe_messages reg (sent ?m0))) =
      [Ready fd, Got fd [5], Got fd (take 7 (padded 256 pipe)), Got fd []]"
    using assms(4) by (simp add: request_events_def)
  let ?s1 = "\<lambda>es. s\<lparr>objects := Suc (Suc (Suc (objects s))), script := es\<rparr>"
  have ready: "broker_ready (?s1 es)" "box_names (?s1 es) = box_names s" "tfs (?s1 es) = tfs s" for es
    using assms(2) by (simp_all add: broker_ready_def box_names_def)
  have fields: "mbroker_remove_box fd ((counted_object s)\<lparr>script := [Got fd (take 7 (padded 256 pipe)), Got fd []] @ es\<rparr>) =
      bnd (remove_box_command stale) (\<lambda>return_code. bnd (create_answer OP_CODE_ANSWER_TO_REMOVAL return_code
        remove_box_error ANSWER_MESSAGE_SIZE) (\<lambda>answer. if return_code < 0 then ret (-1) else send_answer object answer)) (?s1 es)" for es
    using assms(4,8) by (simp add: mbroker_remove_box_def read_field_def sys_bnds stale_def assms(11) cong: if_cong)
  have len: "length remove_box_error \<le> 1024" by (simp add: remove_box_error_def)
  have unknown: "\<exists>t. main_loop (Suc n) fd (s\<lparr>script := concat (map (request_events fd) (pipe_messages reg (sent ?m0)))\<rparr>) =
          Ret (-1, t) \<and> box_names t = box_names s \<and> files (tfs t) = files (tfs s) \<and> sent t = sent s"
    if y: "cstr stale \<notin> set (box_names s)" "\<forall>z. cstr stale = 47 # z \<longrightarrow> z \<notin> dom (files (tfs s))"
  proof -
    let ?s = "s\<lparr>script := [Ready fd, Got fd [5], Got fd (take 7 (padded 256 pipe)), Got fd []]\<rparr>"
    obtain l u where l: "remove_box_command stale (?s1 []) = Ret (-1, (?s1 [])\<lparr>box_list := l, tfs := u, box_list_mutex := False\<rparr>)"
      "map (box_name \<circ> box) l = box_names s" "files u = files (tfs s)"
      using remove_box_command_unknown [OF ready(1) assms(3), of "[]"] y ready(2,3) [of "[]"] by auto
    let ?t = "counted_object ((?s1 [])\<lparr>box_list := l, tfs := u, box_list_mutex := False\<rparr>)"
    have "mbroker_remove_box fd ((counted_object ?s)\<lparr>script := [Got fd (take 7 (padded 256 pipe)), Got fd []] @ []\<rparr>) = Ret (-1, ?t)"
      using fields [of "[]"] l(1) len by (simp add: bnd_Ret bnd_Ret [OF create_answer_run] ret_def)
    then have "mbroker_read_pipe_input fd ?s = Ret (-1, ?t)"
      using request_run [of ?s fd 5 "[Got fd (take 7 (padded 256 pipe)), Got fd []]" mbroker_remove_box "-1" ?t]
        assms(8,9) by (simp add: op_codes)
    then have "main_loop (Suc n) fd ?s = Ret (-1, ?t)" by (simp add: bnd_Ret ret_def)
    then show ?thesis using l(2,3) unfolding events by (auto simp: box_names_def)
  qed
  have first: "\<exists>t. requests 1 fd
            (s\<lparr>script := concat (map (request_events fd) (pipe_messages reg (sent ?m0))) @ answered h\<rparr>) = Ret ([0], t) \<and>
         box_names t = tl (box_names s) \<and>
         sent t = sent s @ [(cstr object, OP_CODE_ANSWER_TO_REMOVAL # enc_le 4 0 @ [0, 0, 0])]"
    if y: "box_names s \<noteq> []" "cstr stale = hd (box_names s)" "0 \<in> set object"
  proof -
    let ?s = "s\<lparr>script := [Ready fd, Got fd [5], Got fd (take 7 (padded 256 pipe)), Got fd []] @ answered h\<rparr>"
    obtain n ns where l: "box_list s = n # ns" "box_name (box n) = cstr stale"
      using y(1,2) by (cases "box_list s") (auto simp: box_names_def)
    let ?u = "(?s1 (answered h))\<lparr>box_list := ns, box_list_mutex := False\<rparr>"
    let ?answer = "OP_CODE_ANSWER_TO_REMOVAL # enc_le 4 0 @ [0, 0, 0]"
    let ?t = "(counted_object ?u)\<lparr>script := [], sent := sent s @ [(cstr object, ?answer)]\<rparr>"
    have removed: "remove_box_command stale (?s1 (answered h)) = Ret (0, ?u)"
      using remove_first_run [OF ready(1), of "answered h" n ns stale] l assms(3) by simp
    have "take 3 (padded 1024 []) = [0, 0, 0 :: byte]" by (simp add: padded_def eval_nat_numeral)
    then have "take 8 (OP_CODE_ANSWER_TO_REMOVAL # enc_le 4 0 @ padded 1024 []) = ?answer" by simp
    then have "send_answer object (OP_CODE_ANSWER_TO_REMOVAL # enc_le 4 0 @ padded 1024 []) (counted_object ?u) = Ret (0, ?t)"
      using y(3) assms(10)
      by (simp add: send_answer_def answered_def sys_bnds write_object_def sizeof_pointer_def ret_def bnd_assoc)
    then have "mbroker_remove_box fd ((counted_object ?s)\<lparr>script := [Got fd (take 7 (padded 256 pipe)), Got fd []] @ answered h\<rparr>)
        = Ret (0, ?t)"
      using fields [of "answered h"] removed len by (simp add: bnd_Ret bnd_Ret [OF create_answer_run])
    then have "mbroker_read_pipe_input fd ?s = Ret (0, ?t)"
      using request_run [of ?s fd 5 "[Got fd (take 7 (padded 256 pipe)), Got fd []] @ answered h" mbroker_remove_box 0 ?t]
        assms(8,9) by (simp add: op_codes)
    then have "requests 1 fd ?s = Ret ([0], ?t)" by (simp add: bnd_Ret ret_def)
    then show ?thesis using l unfolding events by (auto simp: box_names_def)
  qed
  show ?thesis using m0 unknown first by blast
qed

text \<open>An instance where the array starts with a 0.\<close>

lemma manager_remove_takes_a_stale_name_witness:
  "\<exists>s t. box_names s = [[47, 97]] \<and> main_loop (Suc 0) 5 s = Ret (-1, t) \<and> box_names t = [[47, 97]]"
proof -
  let ?s = "demo_broker []"
  have names: "box_names (?s\<lparr>script := es\<rparr>) = [[47, 97]]" for es by (simp add: box_names_def)
  have "\<exists>m0. manager_remove_box [114] [109] [47, 97] ((demo_client [])\<lparr>script := answered 5\<rparr>) = Ret (0, m0) \<and>
     (\<exists>t. main_loop (Suc 0) 5 (?s\<lparr>script := concat (map (request_events 5) (pipe_messages [114] (sent m0)))\<rparr>) =
          Ret (-1, t) \<and> box_names t = box_names ?s)"
    using manager_remove_takes_a_stale_name [OF demo_broker_ready(1) [of "[]"], of "[109]" "[47, 97]" "demo_client []" 5 5 6 _ "[114]" 0]
    by (auto simp: box_names_def)
  with names [of "[]"] names show ?thesis by (metis demo_broker_script)
qed

end
