(* ===== verification/Thread_Broker.thy ===== *)
theory Thread_Broker imports Broker begin

text \<open>
  The second broker of the repository, \<^verbatim>\<open>mbroker_thread.c\<close>, a variant on its way to worker threads: a
  request is read as one message and handed around whole, a subscriber is served without end. The calls
  that start threads are commented out here too, so one thread runs everything. A function whose code is
  that of \<^verbatim>\<open>mbroker/mbroker.c\<close> but for what it prints on \<^verbatim>\<open>stderr\<close> is the one of \<^verbatim>\<open>Broker\<close>.

  A write to a pipe nobody reads ends the process by its signal before \<^verbatim>\<open>write\<close> returns, so the branches
  for \<^verbatim>\<open>EPIPE\<close> are never taken and have no counterpart. No code waits on the condition variable of a box.
\<close>

section \<open>What the two brokers share\<close>

text \<open>
  These functions of \<^verbatim>\<open>mbroker_thread.c\<close> are those of \<^verbatim>\<open>mbroker/mbroker.c\<close> again, line for line but for
  prints on \<^verbatim>\<open>stderr\<close>, comments and, in \<^verbatim>\<open>init_mbroker\<close>, the mode of the pipe it makes.
\<close>

definition threaded_get_box_by_publisher_pipe :: "byte list \<Rightarrow> (broker, nat option) prog" where
  "threaded_get_box_by_publisher_pipe = get_box_by_publisher_pipe"

definition threaded_box_in_list :: "byte list \<Rightarrow> (broker, int) prog" where
  "threaded_box_in_list = box_in_list"

definition threaded_create_message :: "byte \<Rightarrow> cstring \<Rightarrow> (broker, byte list) prog" where
  "threaded_create_message = mbroker_create_message"

definition threaded_find_box_by_name :: "byte list \<Rightarrow> (broker, nat option) prog" where
  "threaded_find_box_by_name = find_box_by_name"

definition threaded_create_answer :: "byte \<Rightarrow> int \<Rightarrow> cstring \<Rightarrow> nat \<Rightarrow> (broker, byte list) prog" where
  "threaded_create_answer = create_answer"

definition threaded_remove_subscriber_from_box :: "nat \<Rightarrow> byte list \<Rightarrow> (broker, int) prog" where
  "threaded_remove_subscriber_from_box = remove_subscriber_from_box"

definition threaded_register_publisher_command :: "byte list \<Rightarrow> byte list \<Rightarrow> (broker, int) prog" where
  "threaded_register_publisher_command = register_publisher_command"

definition threaded_remove_publisher_command :: "byte list \<Rightarrow> byte list \<Rightarrow> (broker, int) prog" where
  "threaded_remove_publisher_command = remove_publisher_command"

definition threaded_create_listing_error_message :: "(broker, byte list) prog" where
  "threaded_create_listing_error_message = create_listing_error_message"

definition threaded_init_mbroker ::
  "c_heap \<Rightarrow> (nat \<Rightarrow> nat list option) \<Rightarrow> nat pc_queue_t \<Rightarrow> cstring \<Rightarrow> nat \<Rightarrow> (broker, int) prog" where
  "threaded_init_mbroker = init_mbroker"

definition threaded_check_args :: "cstring option \<Rightarrow> nat \<Rightarrow> int" where
  "threaded_check_args = mbroker_check_args"

lemmas same_functions [simp] =
  threaded_get_box_by_publisher_pipe_def threaded_box_in_list_def threaded_create_message_def
  threaded_find_box_by_name_def threaded_create_answer_def threaded_remove_subscriber_from_box_def
  threaded_register_publisher_command_def threaded_remove_publisher_command_def
  threaded_create_listing_error_message_def threaded_init_mbroker_def threaded_check_args_def

section \<open>Commands\<close>

text \<open>\<^verbatim>\<open>strcmp(x, y) < 0\<close>, byte by byte.\<close>

fun strcmp_less :: "byte list \<Rightarrow> byte list \<Rightarrow> bool" where
  "strcmp_less xs [] = False"
| "strcmp_less [] (y # ys) = True"
| "strcmp_less (x # xs) (y # ys) = (x < y \<or> x = y \<and> strcmp_less xs ys)"

text \<open>
  The new node goes behind the first node that is the last one or whose name is not before the new one.
  Its \<^verbatim>\<open>next\<close> is NULL: the nodes that followed are no longer in the list.
\<close>

fun threaded_insert :: "cstring \<Rightarrow> box_list_t list \<Rightarrow> (broker, box_list_t list) prog" where
  "threaded_insert text [] = ret [new_box text]"
| "threaded_insert text [n] = ret [n, new_box text]"
| "threaded_insert text (n # m # ns) =
     thn (defined (\<not> box_freed n \<and> \<not> name_freed n))
    (if strcmp_less (box_name (box n)) text
     then bnd (threaded_insert text (m # ns)) (\<lambda>l. ret (n # l))
     else ret [n, new_box text])"

definition threaded_create_box_command :: "byte list \<Rightarrow> (broker, int) prog" where
  "threaded_create_box_command name =
     thn lock_list
    (bnd (threaded_find_box_by_name name) (\<lambda>found.
     if found \<noteq> None then unlock_list_return (-1)
     else
       bnd (string_in name) (\<lambda>text.
       bnd (in_fs (tfs_open (Some text) TFS_O_CREAT)) (\<lambda>box_fd.
       if box_fd < 0 then unlock_list_return (-1)
       else
         thn (defined (length text < 32))
        (bnd (gets box_list) (\<lambda>l.
         bnd (threaded_insert text l) (\<lambda>l.
         thn (modify (\<lambda>s. s\<lparr>box_list := l\<rparr>))
             (unlock_list_return 0))))))))"

definition threaded_remove_box_command :: "byte list \<Rightarrow> (broker, int) prog" where
  "threaded_remove_box_command name =
     thn lock_list
    (bnd (threaded_find_box_by_name name) (\<lambda>found.
     case found of None \<Rightarrow> unlock_list_return (-1)
     | Some k \<Rightarrow>
         thn (modify (\<lambda>s. s\<lparr>box_list := take k (box_list s) @ drop (Suc k) (box_list s)\<rparr>))
             (unlock_list_return 0)))"

section \<open>Serving a subscriber\<close>

text \<open>Opening the subscriber's pipe and sending a message; \<open>failed\<close> is what follows a failing write.\<close>

definition threaded_send :: "cstring \<Rightarrow> byte list \<Rightarrow> (broker, int) prog \<Rightarrow> (broker, int) prog" where
  "threaded_send pipe message failed =
     bnd (sys_open pipe) (\<lambda>pipe_fd.
     if pipe_fd < 0 then ret (-1)
     else
       bnd (string_in message) (\<lambda>text.
       bnd (threaded_create_message OP_CODE_SUBSCRIBER_MESSAGE text) (\<lambda>message_to_send.
       bnd (sys_write pipe message_to_send) (\<lambda>w. if w < 0 then failed else ret 0))))"

text \<open>
  The loop for the old messages: \<open>Inl\<close> the result when the function returned, \<open>Inr\<close> the size at which it
  stopped. It sends before it reads: the first thing sent is memory that was never written, and the list
  of sizes is looked at only then.
\<close>

fun threaded_old_messages ::
  "int \<Rightarrow> cstring \<Rightarrow> nat list \<Rightarrow> byte list \<Rightarrow> (broker, int + nat \<times> byte list) prog" where
  "threaded_old_messages box_fd pipe [] message =
     bnd (threaded_send pipe message (unlock_list_return (-1))) (\<lambda>r.
     if r < 0 then ret (Inl (-1)) else thn (defined False) (ret (Inl 0)))"
| "threaded_old_messages box_fd pipe [n] message =
     bnd (threaded_send pipe message (unlock_list_return (-1))) (\<lambda>r.
     ret (if r < 0 then Inl (-1) else Inr (n, message)))"
| "threaded_old_messages box_fd pipe (n # k # ns) message =
     bnd (threaded_send pipe message (unlock_list_return (-1))) (\<lambda>r.
     if r < 0 then ret (Inl (-1))
     else
       bnd (in_fs (tfs_read box_fd k)) (\<lambda>(num_bytes, bytes).
       thn (defined (length bytes \<le> MAX_MESSAGE_SIZE))
      (if num_bytes \<le> 0 then unlock_list_return (Inl (-1))
       else threaded_old_messages box_fd pipe (k # ns) (bytes @ replicate (MAX_MESSAGE_SIZE - length bytes) 0))))"

text \<open>
  The loop for new messages: it reads from the box into the last message and then sends memory that was
  never written. Each round takes an event.
\<close>

fun threaded_follow :: "nat \<Rightarrow> int \<Rightarrow> cstring \<Rightarrow> nat \<Rightarrow> byte list \<Rightarrow> (broker, int) prog" where
  "threaded_follow 0 box_fd pipe n message = blocked"
| "threaded_follow (Suc fuel) box_fd pipe n message =
     bnd (fresh MAX_MESSAGE_SIZE) (\<lambda>message_to_write.
     bnd (in_fs (tfs_read box_fd n)) (\<lambda>(_, bytes).
     thn (defined (length bytes \<le> length message))
    (bnd (sys_open pipe) (\<lambda>pipe_fd.
     if pipe_fd < 0 then ret (-1)
     else
       bnd (string_in message_to_write) (\<lambda>text.
       bnd (threaded_create_message OP_CODE_SUBSCRIBER_MESSAGE text) (\<lambda>message.
       bnd (sys_write pipe message) (\<lambda>w.
       if w < 0 then ret (-1) else threaded_follow fuel box_fd pipe n message)))))))"

definition threaded_register_subscriber_command :: "byte list \<Rightarrow> byte list \<Rightarrow> (broker, int) prog" where
  "threaded_register_subscriber_command client_named_pipe_path name =
     thn lock_list
    (bnd (threaded_find_box_by_name name) (\<lambda>found.
     case found of None \<Rightarrow> unlock_list_return (-1)
     | Some k \<Rightarrow>
         bnd (string_in client_named_pipe_path) (\<lambda>pipe.
         bnd (string_in name) (\<lambda>text.
         thn (defined (length pipe < 256 \<and> length text < 32))
        (bnd (the_box k) (\<lambda>b.
         thn (if subscribers b = []
              then set_box k (subscribers_update (\<lambda>_. [\<lparr>sub_named_pipe = pipe, sub_box_name = text\<rparr>]))
              else ret ())
        (thn (set_box k (num_subscribers_update (\<lambda>n. (n + 1) mod 2 ^ 64)))
        (bnd (in_fs (tfs_open (Some (box_name b)) TFS_O_APPEND)) (\<lambda>box_fd.
         if box_fd < 0 then ret (-1)
         else
           bnd (in_fs (tfs_rewind_offset box_fd)) (\<lambda>r.
           if r < 0 then ret (-1)
           else
             bnd (fresh MAX_MESSAGE_SIZE) (\<lambda>message.
             bnd (threaded_old_messages box_fd pipe (messages_size b) message) (\<lambda>stopped.
             case stopped of Inl r \<Rightarrow> ret r
             | Inr (n, message) \<Rightarrow>
                 bnd (gets (\<lambda>s. Suc (length (script s)))) (\<lambda>fuel.
                 threaded_follow fuel box_fd pipe n message)))))))))))))"

section \<open>Listing boxes\<close>

definition threaded_create_listing_message ::
  "bool \<Rightarrow> cstring \<Rightarrow> bool \<Rightarrow> nat \<Rightarrow> (broker, byte list) prog" where
  "threaded_create_listing_message is_last name has_publisher n_subscribers =
     bnd (fresh 58) (\<lambda>message.
     bnd (poke 0 [OP_CODE_ANSWER_TO_LIST] message) (\<lambda>message.
     bnd (poke 1 [if is_last then 1 else 0] message) (\<lambda>message.
     thn (defined (length name + 1 \<le> 32))
    (bnd (poke 2 name message) (\<lambda>message.
     bnd (clear_rest (2 + length name) 32 (length name) message) (\<lambda>message.
     bnd (poke 34 (enc_le 8 (int sizeof_pointer)) message) (\<lambda>message.
     bnd (poke 42 (enc_le 8 (if has_publisher then 1 else 0)) message) (\<lambda>message.
     poke 50 (enc_le 8 (int n_subscribers)) message))))))))"

fun threaded_list_nodes :: "cstring \<Rightarrow> box_list_t list \<Rightarrow> (broker, int) prog" where
  "threaded_list_nodes pipe [] = ret 0"
| "threaded_list_nodes pipe (n # ns) =
     thn (defined (\<not> box_freed n \<and> \<not> name_freed n))
    (bnd (threaded_create_listing_message (ns = []) (box_name (box n)) (publisher_named_pipe (box n) \<noteq> None)
           (num_subscribers (box n))) (\<lambda>message.
     bnd (write_object pipe message sizeof_pointer) (\<lambda>w.
     if w < 0 then ret (-1) else threaded_list_nodes pipe ns)))"

definition threaded_list_boxes_command :: "byte list \<Rightarrow> (broker, int) prog" where
  "threaded_list_boxes_command manager_pipe_name =
     bnd (string_in manager_pipe_name) (\<lambda>pipe.
     bnd (sys_open pipe) (\<lambda>pipe_fd.
     if pipe_fd < 0 then ret (-1)
     else
       thn lock_list
      (bnd (gets box_list) (\<lambda>l.
       if l = [] then
         bnd threaded_create_listing_error_message (\<lambda>message.
         bnd (write_object pipe message 1029) (\<lambda>w.
         unlock_list_return (if w < 0 then -1 else 0)))
       else
         bnd (threaded_list_nodes pipe l) (\<lambda>w.
         if w < 0 then unlock_list_return (-1)
         else
           bnd (sys_close pipe_fd) (\<lambda>c. unlock_list_return (if c = -1 then -1 else 0)))))))"

section \<open>Sessions of publishers\<close>

text \<open>The message goes to the box; the broadcast that follows wakes nobody, and nobody is sent anything.\<close>

definition threaded_write_to_box :: "byte list \<Rightarrow> byte list \<Rightarrow> nat \<Rightarrow> (broker, int) prog" where
  "threaded_write_to_box = write_to_box"

definition threaded_read_publisher_pipe_input :: "int \<Rightarrow> byte list \<Rightarrow> (broker, int) prog" where
  "threaded_read_publisher_pipe_input pipe_fd name =
     bnd (sys_select pipe_fd) (\<lambda>sel.
     if sel < 0 then ret (-1)
     else
       bnd (fresh 1) (\<lambda>code.
       bnd (sys_read pipe_fd 1 code) (\<lambda>(num_bytes, code).
       if num_bytes = 0 then ret 1
       else if num_bytes = -1 then exit_with 1
       else if hd code = 9 then
         bnd (fresh 1024) (\<lambda>message.
         bnd (sys_read pipe_fd 1024 message) (\<lambda>(num_bytes, message).
         if num_bytes < 0 then ret (-1)
         else
           bnd (string_in message) (\<lambda>text.
           bnd (threaded_write_to_box name message (length text)) (\<lambda>r.
           if r < 0 then ret (-1) else unlock_list_return 0))))
       else unlock_list_return 0)))"

fun threaded_listen_loop :: "nat \<Rightarrow> int \<Rightarrow> byte list \<Rightarrow> (broker, int) prog" where
  "threaded_listen_loop 0 pipe_fd name = blocked"
| "threaded_listen_loop (Suc fuel) pipe_fd name =
     bnd (threaded_read_publisher_pipe_input pipe_fd name) (\<lambda>r.
     if r < 0 then ret (-1) else if r = 1 then ret 0 else threaded_listen_loop fuel pipe_fd name)"

text \<open>The pipe is not closed.\<close>

definition threaded_listen_to_publisher :: "byte list \<Rightarrow> byte list \<Rightarrow> (broker, int) prog" where
  "threaded_listen_to_publisher pipe_object name =
     bnd (string_in pipe_object) (\<lambda>pipe.
     bnd (sys_open pipe) (\<lambda>pipe_fd.
     if pipe_fd < 0 then ret (-1)
     else bnd (gets (\<lambda>s. Suc (length (script s)))) (\<lambda>fuel. threaded_listen_loop fuel pipe_fd name)))"

section \<open>Requests\<close>

text \<open>The two fields of a request.\<close>

definition request_pipe :: "byte list \<Rightarrow> byte list" where
  "request_pipe request = slice 1 256 request"

definition request_name :: "byte list \<Rightarrow> byte list" where
  "request_name request = slice 257 32 request"

definition threaded_register_publisher :: "int \<Rightarrow> byte list \<Rightarrow> (broker, int) prog" where
  "threaded_register_publisher pipe_fd request =
     (if pipe_fd < 0 then ret (-1)
      else
        bnd (threaded_register_publisher_command (request_pipe request) (request_name request)) (\<lambda>r.
        if r < 0 then ret (-1)
        else
          bnd (threaded_listen_to_publisher (request_pipe request) (request_name request)) (\<lambda>r.
          if r < 0 then ret (-1)
          else if r = 0 then
            bnd (threaded_remove_publisher_command (request_pipe request) (request_name request)) (\<lambda>r.
            ret (if r < 0 then -1 else 0))
          else ret 0)))"

definition threaded_register_subscriber :: "int \<Rightarrow> byte list \<Rightarrow> (broker, int) prog" where
  "threaded_register_subscriber pipe_fd request =
     (if pipe_fd < 0 then ret (-1)
      else
        thn (string_in (request_name request))
       (bnd (threaded_register_subscriber_command (request_pipe request) (request_name request)) (\<lambda>r.
        ret (if r < 0 then -1 else 0))))"

definition threaded_register_box :: "int \<Rightarrow> byte list \<Rightarrow> (broker, int) prog" where
  "threaded_register_box pipe_fd request =
     (if pipe_fd < 0 then ret (-1)
      else
        bnd (threaded_create_box_command (request_name request)) (\<lambda>return_code.
        bnd (threaded_create_answer OP_CODE_ANSWER_TO_CREATION return_code register_box_error ANSWER_MESSAGE_SIZE)
        (send_answer (request_pipe request))))"

definition threaded_remove_box :: "int \<Rightarrow> byte list \<Rightarrow> (broker, int) prog" where
  "threaded_remove_box pipe_fd request =
     (if pipe_fd < 0 then ret (-1)
      else
        bnd (threaded_remove_box_command (request_name request)) (\<lambda>return_code.
        bnd (threaded_create_answer OP_CODE_ANSWER_TO_REMOVAL return_code remove_box_error ANSWER_MESSAGE_SIZE) (\<lambda>answer.
        if return_code < 0 then ret (-1)
        else send_answer (request_pipe request) answer)))"

definition threaded_list_boxes :: "int \<Rightarrow> byte list \<Rightarrow> (broker, int) prog" where
  "threaded_list_boxes pipe_fd request =
     (if pipe_fd < 0 then ret (-1)
      else
        bnd (threaded_list_boxes_command (request_pipe request)) (\<lambda>r. ret (if r < 0 then -1 else 0)))"

definition threaded_read_pipe_input :: "int \<Rightarrow> (broker, int) prog" where
  "threaded_read_pipe_input pipe_fd =
     bnd (sys_select pipe_fd) (\<lambda>sel.
     if sel < 0 then ret (-1)
     else
       bnd (fresh BOX_MESSAGE_SIZE) (\<lambda>request.
       bnd (sys_read pipe_fd BOX_MESSAGE_SIZE request) (\<lambda>(num_bytes, request).
       if num_bytes = 0 then ret 0
       else if num_bytes = -1 then exit_with 1
       else
         let code = hd request in
         bnd (if code = OP_CODE_REGISTER_PUBLISHER then threaded_register_publisher pipe_fd request
              else if code = OP_CODE_REGISTER_SUBSCRIBER then threaded_register_subscriber pipe_fd request
              else if code = OP_CODE_REGISTER_BOX then threaded_register_box pipe_fd request
              else if code = OP_CODE_REMOVE_BOX then threaded_remove_box pipe_fd request
              else if code = OP_CODE_BOX_LIST then threaded_list_boxes pipe_fd request
              else ret (-1)) (\<lambda>r.
         ret (if r < 0 then -1 else 0)))))"

section \<open>Threads and signals\<close>

definition in_queue :: "(nat pc_queue_t \<Rightarrow> (nat \<times> nat pc_queue_t) outcome) \<Rightarrow> (broker, nat) prog" where
  "in_queue m = (\<lambda>s. case pc_queue s of None \<Rightarrow> Undef | Some q \<Rightarrow>
     (case m q of
        Ret (x, q') \<Rightarrow> Ret (x, s\<lparr>pc_queue := Some q'\<rparr>)
      | Panic e \<Rightarrow> Panic e | Undef \<Rightarrow> Undef | Deadlock \<Rightarrow> Deadlock | Blocked \<Rightarrow> Blocked | Exit c \<Rightarrow> Exit c))"

text \<open>
  The function a worker would run; nothing starts it. It takes a pointer from the queue and then declares
  \<^verbatim>\<open>int pipe_fd = pipe_fd\<close>, which reads the variable before it has a value.
\<close>

definition session_thread :: "(broker, unit) prog" where
  "session_thread =
     bnd (in_queue pcq_dequeue) (\<lambda>data.
     if data = 0 then exit_with 1 else defined False)"

text \<open>
  \<^verbatim>\<open>close_mbroker\<close> frees the structure \<^verbatim>\<open>mbroker\<close> at its end. \<open>freed\<close> says whether it is freed already; the
  second component of the result whether it is afterwards.
\<close>

definition threaded_close_mbroker :: "bool \<Rightarrow> (broker, int \<times> bool) prog" where
  "threaded_close_mbroker freed =
     bnd (in_fs tfs_destroy) (\<lambda>r.
     if r < 0 then ret (-1, freed)
     else
       bnd (gets pc_queue) (\<lambda>queue.
       thn (defined (queue \<noteq> None))
      (case pcq_destroy (the queue) of (r, q) \<Rightarrow>
         thn (modify (\<lambda>s. s\<lparr>pc_queue := Some q\<rparr>))
        (if r < 0 then ret (-1, freed) else thn (defined (\<not> freed)) (ret (0, True))))))"

text \<open>The handler sets \<^verbatim>\<open>stop\<close> and closes; the result is whether \<^verbatim>\<open>mbroker\<close> is freed then.\<close>

definition threaded_sigint_handler :: "(broker, bool) prog" where
  "threaded_sigint_handler = bnd (threaded_close_mbroker False) (\<lambda>(_, freed). ret freed)"

text \<open>
  The loop of \<^verbatim>\<open>main\<close>. The list says for each test of \<^verbatim>\<open>stop\<close> whether the signal has arrived before it; a signal
  that arrives while a request is served is not modelled. \<open>Inl\<close> the result when \<^verbatim>\<open>main\<close> returned in the loop, \<open>Inr freed\<close> when the loop ended.
\<close>

fun threaded_main_loop :: "bool list \<Rightarrow> int \<Rightarrow> (broker, int + bool) prog" where
  "threaded_main_loop [] pipe_fd = blocked"
| "threaded_main_loop (signal # signals) pipe_fd =
     (if signal then bnd threaded_sigint_handler (\<lambda>freed. ret (Inr freed))
      else
        bnd (threaded_read_pipe_input pipe_fd) (\<lambda>r.
        if r < 0 then ret (Inl (-1)) else threaded_main_loop signals pipe_fd))"

definition threaded_main ::
  "c_heap \<Rightarrow> (nat \<Rightarrow> nat list option) \<Rightarrow> nat pc_queue_t \<Rightarrow> bool list \<Rightarrow> cstring list \<Rightarrow> (broker, int) prog" where
  "threaded_main h queue_memory q signals argv =
     (if length argv \<noteq> 3 then ret (-1)
      else
        bnd (atoi (argv ! 2)) (\<lambda>v.
        let register_pipe_name = argv ! 1; max_sessions = nat (v mod 2 ^ 64) in
        if threaded_check_args (Some register_pipe_name) max_sessions < 0 then ret (-1)
        else
          bnd (threaded_init_mbroker h queue_memory q register_pipe_name max_sessions) (\<lambda>r.
          if r < 0 then ret (-1)
          else
            bnd (sys_open register_pipe_name) (\<lambda>pipe_fd.
            if pipe_fd < 0 then ret (-1)
            else
              bnd (threaded_main_loop signals pipe_fd) (\<lambda>stopped.
              case stopped of Inl r \<Rightarrow> ret r
              | Inr freed \<Rightarrow>
                  bnd (sys_close pipe_fd) (\<lambda>c.
                  if c < 0 then ret (-1)
                  else
                    thn (defined (\<not> freed))
                   (bnd (sys_unlink register_pipe_name) (\<lambda>(r, _).
                    if r < 0 then ret (-1)
                    else bnd (threaded_close_mbroker freed) (\<lambda>(r, _). ret (if r < 0 then -1 else 0))))))))))"

end
