(* ===== verification/Thread_Props.thy ===== *)
theory Thread_Props imports Thread_Broker System_Props begin

text \<open>
  What the second broker does with its list of boxes, its publishers and its subscribers, compared with
  the first.
\<close>

section \<open>Creating and removing\<close>

text \<open>The nodes that stay in the list when a box is added.\<close>

definition kept :: "cstring \<Rightarrow> box_list_t list \<Rightarrow> box_list_t list" where
  "kept y l = take (Suc (length (takeWhile (\<lambda>n. strcmp_less (box_name (box n)) y) (butlast l)))) l"

lemma threaded_insert_run:
  "list_all intact l \<Longrightarrow> threaded_insert y l s = Ret (kept y l @ [new_box y], s)"
  by (induction y l rule: threaded_insert.induct)
    (auto simp: kept_def ret_def bnd_def intact_def defined_def)

lemma kept_ready:
  assumes "broker_ready s" and "is_cstring y" and "length y < 32" and "y \<notin> set (box_names s)" and "tfs_ready u"
  shows "broker_ready (s\<lparr>tfs := u, box_list := kept y (box_list s) @ [new_box y], box_list_mutex := False\<rparr>)"
proof -
  have "list_all P (take k l)" if "list_all P l" for P :: "box_list_t \<Rightarrow> bool" and k l
    using that by (auto simp: list_all_iff dest: in_set_takeD)
  then show ?thesis
    using assms
    by (auto simp: broker_ready_def nodes_ok_def kept_def box_names_def 
        simp flip: take_map dest: in_set_takeD)
qed

text \<open>
  C22: adding a box to the second broker's list cuts the list. The new box goes behind the first one
  whose name is not before the new name, or behind the last one; every box that followed is gone from
  the list, although its file stays. As in the first broker, nothing changes when the name is taken or
  no file can be opened.
\<close>

theorem threaded_create_cuts_the_list:
  assumes "broker_ready s" and "cstr name = 47 # x" and "0 \<in> set name" and "x \<noteq> []" and "length x < 31"
  shows "\<exists>r t. threaded_create_box_command name s = Ret (r, t) \<and> broker_ready t \<and>
     dom (files (tfs s)) \<subseteq> dom (files (tfs t)) \<and>
     (if 47 # x \<in> set (box_names s) \<or> open_failed x TFS_O_CREAT (tfs s)
      then r = -1 \<and> box_list t = box_list s
      else r = 0 \<and> box_list t =
        take (Suc (length (takeWhile (\<lambda>n. strcmp_less (box_name (box n)) (47 # x)) (butlast (box_list s)))))
          (box_list s) @ [new_box (47 # x)])"
proof (cases "47 # x \<in> set (box_names s)")
  case True
  then have "position (47 # x) (box_list s) \<noteq> None" by (simp add: box_names_def position_None)
  with assms(2,3) broker_readyD(3,4) [OF assms(1)]
  have "threaded_create_box_command name s = Ret (-1, s\<lparr>box_list_mutex := False\<rparr>)"
    by (auto simp: threaded_create_box_command_def bnd_Ret [OF find_box_by_name_run] unlock_list_return_run)
  moreover have "broker_ready (s\<lparr>box_list_mutex := False\<rparr>)" using assms(1) by (simp add: broker_ready_def)
  ultimately show ?thesis using True by simp
next
  case False
  then have new: "position (47 # x) (box_list s) = None" by (simp add: box_names_def position_None)
  note r = broker_readyD [OF assms(1)]
  have cs: "is_cstring x" using is_cstring_cstr [of name] assms(2) by simp
  obtain h :: int and u where o: "tfs_open (Some (47 # x)) TFS_O_CREAT (tfs s) = Ret (h, u)" "tfs_ready u"
    "files u = spec_open x TFS_O_CREAT (can_create x (tfs s)) (files (tfs s))"
    "h < 0 \<longleftrightarrow> open_failed x TFS_O_CREAT (tfs s)"
    using box_file_opens [OF assms(1) cs assms(4)] by blast
  let ?l = "if h < 0 then box_list s else kept (47 # x) (box_list s) @ [new_box (47 # x)]"
  let ?t = "s\<lparr>tfs := u, box_list := ?l, box_list_mutex := False\<rparr>"
  have "threaded_create_box_command name s = Ret (if h < 0 then -1 else 0, ?t)"
    using r(3,4) assms(2,3,5) new o(1)
    by (auto simp: threaded_create_box_command_def bnd_Ret [OF find_box_by_name_run] bnd_Ret [OF in_fs_run]
        bnd_Ret [OF threaded_insert_run] unlock_list_return_run)
  moreover have "broker_ready ?t"
    using kept_ready [OF assms(1) _ _ False o(2)] cs assms(1,5) o(2) by (auto simp: broker_ready_def)
  moreover have "dom (files (tfs s)) \<subseteq> dom (files u)"
    using o(3) by (auto simp: spec_open_def split: option.splits if_splits)
  ultimately show ?thesis
    using False o(4) by (intro exI [of _ "if h < 0 then -1 else 0"] exI [of _ ?t]) (auto simp: kept_def)
qed

lemma threaded_create_cuts_the_list_witness:
  "\<exists>s t. threaded_create_box_command [47, 98, 0] s = Ret (0, t) \<and>
     box_names s = [[47, 99], [47, 97]] \<and> box_names t = [[47, 99], [47, 98]]"
proof -
  let ?s = "(demo_broker [])\<lparr>tfs := demo2, box_list := [new_box [47, 99], new_box [47, 97]]\<rparr>"
  have ready: "broker_ready ?s"
    using demo2_store(1) by (simp add: broker_ready_def nodes_ok_def)
  have "first_free (freeinode_ts demo2) \<noteq> None"
    by (simp add: demo2_fields first_free_None)
  then have "\<not> open_failed [98] TFS_O_CREAT demo2"
    using demo2_store(2) tfs_spare_None [of demo2] demo2_state(4) demo2_fields(4)
    by (simp_all add: open_failed_def can_create_def root_room_def)
  then obtain t where "threaded_create_box_command [47, 98, 0] ?s = Ret (0, t)"
      "box_list t = [new_box [47, 99], new_box [47, 98]]"
    using threaded_create_cuts_the_list [OF ready, of "[47, 98, 0]" "[98]"] by (auto simp: box_names_def)
  moreover have "box_names ?s = [[47, 99], [47, 97]]" by (simp add: box_names_def)
  moreover have "box_names t = [[47, 99], [47, 98]]"
    using \<open>box_list t = _\<close> by (simp add: box_names_def)
  ultimately show ?thesis by blast
qed

lemma drop_position:
  "distinct (map (box_name \<circ> box) l) \<Longrightarrow> position y l = Some k \<Longrightarrow>
   take k l @ drop (Suc k) l = filter (\<lambda>n. box_name (box n) \<noteq> y) l"
  by (induction l arbitrary: k) (auto split: if_splits simp: image_iff intro!: filter_True [symmetric])

lemma position_filter:
  "x \<noteq> y \<Longrightarrow> position x l = Some i \<Longrightarrow>
   \<exists>j. position x (filter (\<lambda>n. box_name (box n) \<noteq> y) l) = Some j \<and>
     filter (\<lambda>n. box_name (box n) \<noteq> y) l ! j = l ! i"
  by (induction l arbitrary: i) (fastforce split: if_splits)+

text \<open>
  C23: removing a box from the second broker's list takes out the box of that name and nothing else. The
  other boxes keep their messages and their order; when there is no such box the answer is -1 and the
  list stays. The file of the box stays.
\<close>

theorem threaded_remove_takes_out_one_box:
  assumes "broker_ready s" and "0 \<in> set name"
  shows "\<exists>t. threaded_remove_box_command name s = Ret (if cstr name \<in> set (box_names s) then 0 else -1, t) \<and>
     broker_ready t \<and> tfs t = tfs s \<and> sent t = sent s \<and>
     box_list t = filter (\<lambda>n. box_name (box n) \<noteq> cstr name) (box_list s) \<and>
     (\<forall>y ms. 47 # y \<noteq> cstr name \<longrightarrow> holds_messages s y ms \<longrightarrow> holds_messages t y ms)"
proof -
  note r = broker_readyD [OF assms(1)]
  let ?l = "filter (\<lambda>n. box_name (box n) \<noteq> cstr name) (box_list s)"
  let ?t = "s\<lparr>box_list := ?l, box_list_mutex := False\<rparr>"
  have "threaded_remove_box_command name s = Ret (if cstr name \<in> set (box_names s) then 0 else -1, ?t)"
  proof (cases "position (cstr name) (box_list s)")
    case None
    then have n: "cstr name \<notin> set (box_names s)" by (simp add: position_None box_names_def)
    then have "?l = box_list s" by (auto simp: box_names_def image_iff intro!: filter_True)
    with None n r(3,4) assms(2) show ?thesis
      by (simp add: threaded_remove_box_command_def bnd_Ret [OF find_box_by_name_run] unlock_list_return_run)
  next
    case (Some k)
    then have n: "cstr name \<in> set (box_names s)"
      using position_None [of "cstr name" "box_list s"] by (auto simp: box_names_def)
    have "distinct (map (box_name \<circ> box) (box_list s))" using r(2) by (simp add: nodes_ok_def)
    from drop_position [OF this Some] n Some r(3,4) assms(2) show ?thesis
      by (simp add: threaded_remove_box_command_def bnd_Ret [OF find_box_by_name_run] unlock_list_return_run)
  qed
  moreover have "broker_ready ?t"
    using assms(1) by (auto simp: broker_ready_def nodes_ok_def list_all_iff distinct_map_filter)
  moreover have "holds_messages ?t y ms" if ne: "47 # y \<noteq> cstr name" and h: "holds_messages s y ms" for y ms
  proof -
    obtain i where i: "position (47 # y) (box_list s) = Some i"
      "messages_size (box (box_list s ! i)) = map length ms"
      using h by (auto simp: holds_messages_def)
    with position_filter [OF ne i(1)] h show ?thesis by (auto simp: holds_messages_def)
  qed
  ultimately show ?thesis by (intro exI [of _ ?t]) simp
qed

lemma threaded_remove_takes_out_one_box_witness:
  "\<exists>t. threaded_remove_box_command [47, 97, 0] (demo_broker []) = Ret (0, t) \<and> box_list t = []"
  using threaded_remove_takes_out_one_box [OF demo_broker_ready(1), of "[47, 97, 0]" "[]"]
  by (auto simp: box_names_def)

section \<open>Listing\<close>

lemma threaded_create_listing_message_run:
  "length name < 32 \<Longrightarrow> threaded_create_listing_message is_last name pub n s =
     Ret (OP_CODE_ANSWER_TO_LIST # (if is_last then 1 else 0) # padded 32 name @ enc_le 8 8 @
          enc_le 8 (if pub then 1 else 0) @ enc_le 8 (int n), counted_object s)"
  "\<not> length name < 32 \<Longrightarrow> threaded_create_listing_message is_last name pub n s = Undef"
  by (simp_all add: threaded_create_listing_message_def fresh_def bnd_def poke_def clear_rest_def defined_def
      ret_def padded_def sizeof_pointer_def)

lemma create_listing_message_long:
  "\<not> length name < 32 \<Longrightarrow> create_listing_message is_last name pub s = Undef"
  by (simp add: create_listing_message_def fresh_def bnd_def poke_def clear_rest_def defined_def ret_def)

lemma threaded_list_nodes_same: "threaded_list_nodes pipe l = list_nodes pipe l"
proof (induction l)
  case (Cons n l)
  have "bnd (threaded_create_listing_message (l = []) name pub k) (\<lambda>message. bnd (write_object pipe message sizeof_pointer) f) s =
      bnd (create_listing_message (l = []) name pub) (\<lambda>message. bnd (write_object pipe message sizeof_pointer) f) s"
    for name pub k s and f :: "int \<Rightarrow> (broker, int) prog"
    by (cases "length name < 32")
      (simp_all add: bnd_Ret [OF threaded_create_listing_message_run(1)] bnd_Ret [OF create_listing_message_run]
        bnd_fails(2) [OF threaded_create_listing_message_run(2)] bnd_fails(2) [OF create_listing_message_long]
        write_object_def bnd_assoc sizeof_pointer_def padded_def)
  with Cons show ?case by (intro ext) (simp cong: if_cong)
qed simp

text \<open>
  A manager cannot tell the brokers apart by their listings. The second counts the subscribers of a
  box and puts the number into the message, but the 8 bytes that are sent end before it: on every state
  and with every answer of the kernel the two commands do the same.
\<close>

theorem threaded_listing_is_the_same:
  "threaded_list_boxes_command p s = list_boxes_command p s"
  by (simp only: threaded_list_boxes_command_def list_boxes_command_def threaded_list_nodes_same same_functions)

section \<open>A publisher\<close>

text \<open>The box \<open>/x\<close>, wherever it is in the list, has the publisher \<open>q\<close> and room for messages.\<close>

definition publishing :: "broker \<Rightarrow> cstring \<Rightarrow> cstring option \<Rightarrow> cstring list \<Rightarrow> bool" where
  "publishing s x q ms \<longleftrightarrow> broker_ready s \<and> holds_messages s x ms \<and> 0 < tfs_spare (tfs s) \<and>
     (ms \<noteq> [] \<or> tfs_has_block (tfs s)) \<and>
     (\<exists>i. position (47 # x) (box_list s) = Some i \<and> publisher_named_pipe (box (box_list s ! i)) = q)"

lemma publishing_cong:
  "tfs t = tfs s \<Longrightarrow> box_list t = box_list s \<Longrightarrow> box_list_mutex t = box_list_mutex s \<Longrightarrow>
   publishing t x q ms = publishing s x q ms"
  by (simp add: publishing_def broker_ready_def holds_messages_def)

text \<open>What the other boxes hold.\<close>

definition others_kept :: "cstring \<Rightarrow> broker \<Rightarrow> broker \<Rightarrow> bool" where
  "others_kept x s t \<longleftrightarrow> (\<forall>y ms. y \<noteq> x \<longrightarrow> holds_messages s y ms \<longrightarrow> holds_messages t y ms)"

lemma others_kept_trans: "others_kept x s t \<Longrightarrow> others_kept x t u \<Longrightarrow> others_kept x s u"
  by (simp add: others_kept_def)

lemma others_kept_cong: "tfs t = tfs s \<Longrightarrow> box_list t = box_list s \<Longrightarrow> others_kept x s t"
  by (simp add: others_kept_def holds_messages_def)

lemma set_publisher_at:
  assumes "publishing s x q ms" and "position (47 # x) (box_list s) = Some i"
    and "t = s\<lparr>box_list := (box_list s)[i := box_update (publisher_named_pipe_update (\<lambda>_. q')) (box_list s ! i)],
      box_list_mutex := False\<rparr>"
  shows "publishing t x q' ms" and "others_kept x s t" and "tfs t = tfs s" and "script t = script s" and "sent t = sent s"
proof -
  let ?n = "box_update (publisher_named_pipe_update (\<lambda>_. q')) (box_list s ! i)"
  have ready: "broker_ready s" using assms(1) by (simp add: publishing_def)
  note b = ready_box [OF ready assms(2)]
  have "list_step (box_list s) ((box_list s)[i := ?n])" by (rule set_publisher)
  from ready_set_box [OF ready this, of "tfs s"] have t: "broker_ready t"
    using ready by (simp add: assms(3) broker_ready_def)
  have pos: "position y (box_list t) = position y (box_list s)" for y
    by (simp add: assms(3) position_update)
  have "messages_size (box (box_list t ! j)) = messages_size (box (box_list s ! j))" if "j < length (box_list s)" for j
    using that by (cases "j = i") (simp_all add: assms(3))
  then have holds: "holds_messages t y ms' = holds_messages s y ms'" for y ms'
    using position_Some pos by (fastforce simp: holds_messages_def assms(3))
  show "publishing t x q' ms"
    using assms(1,2) t holds b(1) by (auto simp: publishing_def pos) (simp_all add: assms(3))
  show "others_kept x s t" using holds by (simp add: others_kept_def)
qed (simp_all add: assms(3))

lemma threaded_publish_round:
  assumes s: "publishing s x q ms" and m: "message_ok m" and x: "x \<noteq> []"
    and fits: "length (concat ms) + length m \<le> tfs_limit (tfs s)"
    and name: "cstr name = 47 # x" "0 \<in> set name" and fd: "0 \<le> fd" "fd < 1024"
    and ev: "script s = Ready fd # Got fd [9] # Got fd (padded 1024 m) # es"
  shows "\<exists>t. threaded_read_publisher_pipe_input fd name s = Ret (0, t) \<and> publishing t x q (ms @ [m]) \<and>
     others_kept x s t \<and> script t = es \<and> sent t = sent s \<and> tfs_limit (tfs t) = tfs_limit (tfs s)"
proof -
  have ready: "broker_ready s" and held: "holds_messages s x ms" and sp: "0 < tfs_spare (tfs s)"
    and room: "ms \<noteq> [] \<or> tfs_has_block (tfs s)"
    using s by (simp_all add: publishing_def)
  obtain i where i: "position (47 # x) (box_list s) = Some i" "publisher_named_pipe (box (box_list s ! i)) = q"
    using s by (auto simp: publishing_def)
  have c: "files (tfs s) x = Some (concat ms)" "list_all message_ok ms"
    using held by (simp_all add: holds_messages_def)
  have m1: "0 < length m" "length m < 1024" "is_cstring m" using m by (simp_all add: message_ok_def)
  let ?m = "padded 1024 m" and ?s1 = "s\<lparr>objects := Suc (Suc (objects s)), script := es\<rparr>"
  have r1: "broker_ready ?s1" using ready by (simp add: broker_ready_def)
  have lm: "length m \<le> length ?m" "take (length m) ?m = m" using m1 by (simp_all add: padded_def)
  let ?l = "added_size i (length m) (box_list s)"
  obtain u where u: "write_to_box name ?m (length m) ?s1 = Ret (0, ?s1\<lparr>tfs := u, box_list := ?l, box_list_mutex := False\<rparr>)"
    "files u = (files (tfs s))(x \<mapsto> concat ms @ m)"
    "tfs_spare u = tfs_spare (tfs s)" "tfs_limit u = tfs_limit (tfs s)"
    "broker_ready (?s1\<lparr>tfs := u, box_list := ?l, box_list_mutex := False\<rparr>)"
    using write_to_box_run [OF r1, of x i "concat ms" name "length m" ?m] i(1) c x sp name m1 lm fits room
      concat_messages_ne [OF c(2)] by auto
  let ?t = "?s1\<lparr>tfs := u, box_list := ?l, box_list_mutex := False\<rparr>"
  have "threaded_read_publisher_pipe_input fd name s = Ret (0, ?t)"
    using fd ev m1 u(1)
    by (simp add: threaded_read_publisher_pipe_input_def threaded_write_to_box_def sys_bnds bnd_Ret
        unlock_list_return_run)
  moreover have "holds_messages ?t x (ms @ [m])"
    using holds_messages_added(1) [OF held m i(1)] u(2) by simp
  moreover have "others_kept x s ?t"
    using holds_messages_added(2) [OF held m i(1)] u(2) by (simp add: others_kept_def)
  moreover have "publisher_named_pipe (box (?l ! i)) = q"
    using i(2) position_Some [OF i(1)] by (simp add: added_size_same)
  ultimately show ?thesis using u(3-5) sp i(1) by (auto simp: publishing_def)
qed

lemma threaded_listen_loop_run:
  assumes "publishing s x q ms" and "list_all message_ok new" and "x \<noteq> []"
    and "length (concat ms) + length (concat new) \<le> tfs_limit (tfs s)"
    and "cstr name = 47 # x" "0 \<in> set name" and "0 \<le> fd" "fd < 1024"
    and "script s = published fd (map (\<lambda>m. (m, [])) new) @ Ready fd # Got fd [] # es" and "length new < fuel"
  shows "\<exists>t. threaded_listen_loop fuel fd name s = Ret (0, t) \<and> publishing t x q (ms @ new) \<and>
     others_kept x s t \<and> script t = es \<and> sent t = sent s"
  using assms
proof (induction new arbitrary: s ms fuel)
  case Nil
  then obtain f where f: "fuel = Suc f" by (cases fuel) auto
  let ?t = "(counted_object s)\<lparr>script := es\<rparr>"
  have "threaded_read_publisher_pipe_input fd name s = Ret (1, ?t)"
    using Nil.prems(7-9) by (simp add: published_def threaded_read_publisher_pipe_input_def sys_bnds ret_def)
  then have "threaded_listen_loop fuel fd name s = Ret (0, ?t)" by (simp add: f bnd_def ret_def)
  moreover have "publishing ?t x q ms" using Nil.prems(1) publishing_cong [of ?t s] by simp
  moreover have "others_kept x s ?t" by (rule others_kept_cong) simp_all
  ultimately show ?case by simp
next
  case (Cons m new)
  then obtain f where f: "fuel = Suc f" by (cases fuel) auto
  have m: "message_ok m" and fits: "length (concat ms) + length m \<le> tfs_limit (tfs s)"
    using Cons.prems(2,4) by simp_all
  have ev: "script s = Ready fd # Got fd [9] # Got fd (padded 1024 m) #
      (published fd (map (\<lambda>m. (m, [])) new) @ Ready fd # Got fd [] # es)"
    using Cons.prems(9) by (simp add: published_def)
  obtain u where u: "threaded_read_publisher_pipe_input fd name s = Ret (0, u)" "publishing u x q (ms @ [m])"
    "others_kept x s u" "script u = published fd (map (\<lambda>m. (m, [])) new) @ Ready fd # Got fd [] # es"
    "sent u = sent s" "tfs_limit (tfs u) = tfs_limit (tfs s)"
    using threaded_publish_round [OF Cons.prems(1) m Cons.prems(3) fits Cons.prems(5-8) ev] by blast
  obtain t where "threaded_listen_loop f fd name u = Ret (0, t)" "publishing t x q ((ms @ [m]) @ new)"
    "others_kept x u t" "script t = es" "sent t = sent u"
    using Cons.IH [OF u(2) _ Cons.prems(3) _ Cons.prems(5-8) u(4), of f] Cons.prems(2,4,10) u(6) f by auto
  with u others_kept_trans show ?case by (auto simp: f bnd_def)
qed

lemma publisher_commands_at:
  assumes "broker_ready s" and "position (47 # x) (box_list s) = Some i" and "0 \<in> set p" and "length (cstr p) < 256"
    and "cstr name = 47 # x" "0 \<in> set name"
  shows "publisher_named_pipe (box (box_list s ! i)) = None \<Longrightarrow> register_publisher_command p name s = Ret (0, s\<lparr>box_list :=
     (box_list s)[i := box_update (publisher_named_pipe_update (\<lambda>_. Some (cstr p))) (box_list s ! i)],
     box_list_mutex := False\<rparr>)"
    and "publisher_named_pipe (box (box_list s ! i)) = Some (cstr p) \<Longrightarrow> remove_publisher_command p name s = Ret (0,
     s\<lparr>box_list := (box_list s)[i := box_update (publisher_named_pipe_update (\<lambda>_. None)) (box_list s ! i)],
     box_list_mutex := False\<rparr>)"
  using assms ready_box [OF assms(1,2)]
  by (auto simp: register_publisher_command_def remove_publisher_command_def broker_ready_def
      bnd_Ret [OF find_box_by_name_run] unlock_list_return_run)

lemma threaded_listen_to_publisher_run:
  assumes "publishing s x (Some pub) ms" and "list_all message_ok new" and "x \<noteq> []"
    and "length (concat ms) + length (concat new) \<le> tfs_limit (tfs s)"
    and name: "cstr name = 47 # x" "0 \<in> set name" and pipe: "cstr p = pub" "0 \<in> set p"
    and "0 \<le> h" and "h < 1024"
    and "script s = Result h False # published h (map (\<lambda>m. (m, [])) new) @ Ready h # Got h [] # es"
  shows "\<exists>t. threaded_listen_to_publisher p name s = Ret (0, t) \<and> publishing t x (Some pub) (ms @ new) \<and>
     others_kept x s t \<and> script t = es \<and> sent t = sent s"
proof -
  let ?session = "published h (map (\<lambda>m. (m, [])) new) @ Ready h # Got h [] # es"
  let ?s = "s\<lparr>script := ?session\<rparr>"
  have s: "publishing ?s x (Some pub) ms" using assms(1) publishing_cong [of ?s s] by simp
  have "length new \<le> length (published h (map (\<lambda>m. (m, [])) new))"
    by (induction new) (auto simp: published_def)
  then obtain t where t: "threaded_listen_loop (Suc (length ?session)) h name ?s = Ret (0, t)"
    "publishing t x (Some pub) (ms @ new)" "others_kept x ?s t" "script t = es" "sent t = sent s"
    using threaded_listen_loop_run [OF s assms(2,3) _ name assms(9,10), of es "Suc (length ?session)"] assms(4)
    by (auto simp del: threaded_listen_loop.simps)
  moreover have "others_kept x s t"
    using others_kept_trans [OF others_kept_cong [of ?s s x]] t(3) by auto
  ultimately show ?thesis
    using pipe assms(9,11) by (simp add: threaded_listen_to_publisher_def sys_bnds del: threaded_listen_loop.simps)
qed

text \<open>
  C21: the second broker takes messages for any box. A publisher whose request names a box without a
  publisher, wherever the box is in the list, has its messages appended to those of the box, in order;
  the other boxes keep theirs, the request succeeds and the box is free for the next publisher. No
  subscriber is sent anything.
\<close>

theorem threaded_publisher_appends:
  assumes "publishing s x None ms" and "x \<noteq> []" and "list_all message_ok new"
    and "length (concat ms) + length (concat new) \<le> tfs_limit (tfs s)"
    and "is_cstring pub" and "length pub < 256" and "0 \<le> h" and "h < 1024" and "0 \<le> fd" and "fd < 1024"
    and "script s = Ready fd # Got fd (1 # padded 256 pub @ padded 32 (47 # x)) # Result h False #
      published h (map (\<lambda>m. (m, [])) new) @ Ready h # Got h [] # es"
  shows "\<exists>t. threaded_read_pipe_input fd s = Ret (0, t) \<and> publishing t x None (ms @ new) \<and>
     (\<forall>y ms'. y \<noteq> x \<longrightarrow> holds_messages s y ms' \<longrightarrow> holds_messages t y ms') \<and> script t = es \<and> sent t = sent s"
proof -
  let ?p = "padded 256 pub" and ?name = "padded 32 (47 # x)"
  let ?session = "published h (map (\<lambda>m. (m, [])) new) @ Ready h # Got h [] # es"
  let ?s1 = "(counted_object s)\<lparr>script := Result h False # ?session\<rparr>"
  have s1: "publishing ?s1 x None ms" using assms(1) publishing_cong [of ?s1 s] by simp
  then obtain i where i: "position (47 # x) (box_list ?s1) = Some i"
    "publisher_named_pipe (box (box_list ?s1 ! i)) = None" and ready: "broker_ready ?s1"
    by (auto simp: publishing_def)
  from ready_box(5,6) [OF ready i(1)] have len: "is_cstring x" "length x < 31" .
  have p: "cstr ?p = pub" "0 \<in> set ?p" and name: "cstr ?name = 47 # x" "0 \<in> set ?name"
    using assms(5,6) len by simp_all
  obtain s2 where s2: "register_publisher_command ?p ?name ?s1 = Ret (0, s2)" "publishing s2 x (Some pub) ms"
    "others_kept x ?s1 s2" "tfs s2 = tfs s" "script s2 = Result h False # ?session" "sent s2 = sent s"
    using publisher_commands_at(1) [OF ready i(1) p(2) _ name i(2)] set_publisher_at [OF s1 i(1) refl, of "Some pub"]
      p(1) assms(6) by auto
  obtain u where u: "threaded_listen_to_publisher ?p ?name s2 = Ret (0, u)"
    "publishing u x (Some pub) (ms @ new)" "others_kept x s2 u" "script u = es" "sent u = sent s"
    using threaded_listen_to_publisher_run [OF s2(2) assms(3,2) _ name p assms(7,8) s2(5)] assms(4) s2(4,6) by auto
  obtain j where j: "position (47 # x) (box_list u) = Some j" "publisher_named_pipe (box (box_list u ! j)) = Some (cstr ?p)"
    and ready': "broker_ready u"
    using u(2) p(1) by (auto simp: publishing_def)
  obtain t where t: "remove_publisher_command ?p ?name u = Ret (0, t)" "publishing t x None (ms @ new)"
    "others_kept x u t" "script t = es" "sent t = sent s"
    using publisher_commands_at(2) [OF ready' j(1) p(2) _ name j(2)] set_publisher_at [OF u(2) j(1) refl, of None]
      p(1) assms(6) u(4,5) by auto
  let ?request = "1 # ?p @ ?name"
  have "request_pipe ?request = ?p" "request_name ?request = ?name" "length ?request = 289"
    using assms(6) len by (simp_all add: request_pipe_def request_name_def slice_def)
  then have "threaded_read_pipe_input fd s = Ret (0, t)"
    using assms(7-11) s2(1) u(1) t(1)
    by (simp add: threaded_read_pipe_input_def sys_bnds BOX_MESSAGE_SIZE_def threaded_register_publisher_def
        bnd_Ret op_codes ret_def)
  moreover have "others_kept x s t"
    using others_kept_trans [OF others_kept_cong [of ?s1 s x]] others_kept_trans [OF s2(3)]
      others_kept_trans [OF u(3) t(3)] by auto
  ultimately show ?thesis using t(2,4,5) by (auto simp: others_kept_def)
qed

lemma threaded_publisher_appends_witness:
  "\<exists>s t. threaded_read_pipe_input 3 s = Ret (0, t) \<and> box_names s = [[47, 98], [47, 97]] \<and>
     holds_messages t [97] [[104, 105], [33]]"
proof -
  let ?es = "Ready 3 # Got 3 (1 # padded 256 [112] @ padded 32 [47, 97]) # Result 5 False #
      published 5 (map (\<lambda>m. (m, [])) [[104, 105], [33]]) @ Ready 5 # Got 5 [] # []"
  have p: "publishing (demo_behind ?es) [97] None []"
    using demo_behind_state [of ?es] demo1_store
    by (simp add: publishing_def) (simp add: demo_behind_def new_box_def)
  have "\<exists>t. threaded_read_pipe_input 3 (demo_behind ?es) = Ret (0, t) \<and> publishing t [97] None ([] @ [[104, 105], [33]]) \<and>
     (\<forall>y ms'. y \<noteq> [97] \<longrightarrow> holds_messages (demo_behind ?es) y ms' \<longrightarrow> holds_messages t y ms') \<and>
     script t = [] \<and> sent t = sent (demo_behind ?es)"
    by (rule threaded_publisher_appends [OF p, of "[[104, 105], [33]]" "[112]" 5 3])
      (simp_all add: message_ok_def demo_behind_def demo1_store)
  moreover have "box_names (demo_behind ?es) = [[47, 98], [47, 97]]" by (simp add: box_names_def demo_behind_def)
  ultimately show ?thesis by (auto simp: publishing_def)
qed

section \<open>A subscriber\<close>

text \<open>Whatever happens, serving a subscriber fails in the end.\<close>

lemma keeps_any: "keeps (\<lambda>_. True) m (\<lambda>_. True)"
  by (simp add: keeps_def)

lemma threaded_follow_fails: "keeps (\<lambda>_. True) (threaded_follow fuel fd pipe n message) (\<lambda>r. r = -1)"
  by (induction fuel arbitrary: message)
    (auto intro!: keeps_bnd [OF keeps_any] keeps_basic keeps_cases(1) split: prod.split simp del: prog_simps bnd_fresh)

lemma threaded_old_messages_fails:
  "keeps (\<lambda>_. True) (threaded_old_messages fd pipe ns message) (\<lambda>r. case r of Inl r \<Rightarrow> r = -1 | Inr _ \<Rightarrow> True)"
proof (induction fd pipe ns message rule: threaded_old_messages.induct)
  case (1 fd pipe message)
  then show ?case
    by (auto intro!: keeps_bnd [OF keeps_any] keeps_basic keeps_cases(1) keeps_bnd [OF keeps_defined] simp del: prog_simps)
next
  case (2 fd pipe n message)
  then show ?case by (auto intro!: keeps_bnd [OF keeps_any] keeps_basic)
next
  case (3 fd pipe n k ns message)
  then show ?case
    by (auto intro!: keeps_bnd [OF keeps_any] keeps_basic keeps_cases(1) split: prod.split
        simp: unlock_list_return_def simp del: prog_simps bnd_unlock_list)
qed

lemma threaded_register_subscriber_fails:
  "keeps (\<lambda>_. True) (threaded_register_subscriber_command p name) (\<lambda>r. r = -1)"
  unfolding threaded_register_subscriber_command_def unlock_list_return_def
  by (auto intro!: keeps_bnd [OF keeps_any] keeps_basic keeps_cases(1) keeps_bnd [OF threaded_old_messages_fails]
      threaded_follow_fails split: option.split sum.split prod.split
      simp del: prog_simps bnd_lock_list bnd_unlock_list bnd_the_box bnd_fresh bnd_set_box)

text \<open>
  C24: a subscriber is the last client of the second broker. Once the loop of \<^verbatim>\<open>main\<close> has read a request with a
  subscriber's code, no later request is served: if the loop ends, it ends with -1, whatever the kernel
  answers, whichever box is named and however often the loop would go on.
\<close>

theorem threaded_subscriber_is_the_last_client:
  assumes "script s = Ready fd # Got fd request # es" and "request \<noteq> []" and "hd request = OP_CODE_REGISTER_SUBSCRIBER"
    and "threaded_main_loop (False # signals) fd s = Ret (x, t)"
  shows "x = Inl (-1)"
proof -
  have fails: "keeps (\<lambda>_. True) (threaded_register_subscriber fd r) (\<lambda>r. r = -1)" for r
    unfolding threaded_register_subscriber_def
    by (intro keeps_cases(1) keeps_bnd [OF keeps_string_in] keeps_bnd [OF threaded_register_subscriber_fails] keeps_basic)
      simp_all
  obtain r u where r: "threaded_read_pipe_input fd s = Ret (r, u)"
    and x: "(if r < 0 then ret (Inl (-1)) else threaded_main_loop signals fd) u = Ret (x, t)"
    using assms(4) by (auto elim: bnd_RetE)
  have "0 < min (length request) 289" using assms(2) by simp
  then obtain k where k: "min (length request) 289 = Suc k" by (auto simp: gr0_conv_Suc)
  have "take 289 request \<noteq> []" "hd (take 289 request @ rest) = hd request" for rest
    using assms(2) by (cases request; simp)+
  with r k assms(1-3) obtain y v w where y: "threaded_register_subscriber fd v w = Ret (y, u)" "r = (if y < 0 then -1 else 0)"
    by (auto simp: threaded_read_pipe_input_def sys_bnds BOX_MESSAGE_SIZE_def op_codes ret_def
        elim!: bnd_RetE split: if_splits)
  from keepsD [OF fails _ y(1)] y(2) have "r = -1" by simp
  with x show ?thesis by (simp add: ret_def)
qed

lemma threaded_subscriber_is_the_last_client_witness:
  "\<exists>s t. threaded_main_loop [False] 5 s = Ret (Inl (-1), t) \<and> box_names s = [[47, 97]]"
proof -
  let ?request = "2 # padded 256 [115] @ padded 32 [47, 98]"
  let ?s = "demo_broker [Ready 5, Got 5 ?request]"
  have r: "request_pipe ?request = padded 256 [115]" "request_name ?request = padded 32 [47, 98]"
    by (simp_all add: request_pipe_def request_name_def slice_def)
  have "broker_ready ((counted_object ?s)\<lparr>script := []\<rparr>)"
    using demo_broker_ready(1) by (simp add: broker_ready_def)
  then have "threaded_read_pipe_input 5 ?s = Ret (-1, (counted_object ?s)\<lparr>script := [], box_list_mutex := False\<rparr>)"
    by (simp add: threaded_read_pipe_input_def sys_bnds BOX_MESSAGE_SIZE_def op_codes bnd_assoc
        threaded_register_subscriber_def r threaded_register_subscriber_command_def
        bnd_Ret [OF find_box_by_name_run] broker_ready_def unlock_list_return_def) (simp add: ret_def demo_broker_def)
  then have "\<exists>x t. threaded_main_loop [False] 5 ?s = Ret (x, t)" by (simp add: bnd_Ret ret_def)
  then obtain x t where run: "threaded_main_loop [False] 5 ?s = Ret (x, t)" by blast
  moreover from threaded_subscriber_is_the_last_client [OF _ _ _ this, of ?request "[]"] have "x = Inl (-1)"
    by (simp add: op_codes)
  moreover have "box_names ?s = [[47, 97]]" by (simp add: box_names_def)
  ultimately show ?thesis by blast
qed

lemma threaded_send_run:
  assumes "script s = Result fd False # Wrote True # es" and "0 \<le> fd"
    and "0 \<in> set message" and "length (cstr message) \<le> 1024"
  shows "threaded_send pipe message failed s = Ret (0, (counted_object s)
     \<lparr>script := es, sent := sent s @ [to_subscriber pipe (cstr message)]\<rparr>)"
  using assms
  by (simp add: threaded_send_def to_subscriber_def sys_bnds
      bnd_Ret [OF mbroker_create_message_run(1)] ret_def)

text \<open>
  C25: what a subscriber of the second broker gets is not what the box holds. The message of a box with one
  message is never sent: the subscriber gets memory that was not written instead, which is an empty
  message where memory is zero. When its pipe can no longer be opened the request fails, and the mutex of
  the list stays locked.
\<close>

theorem threaded_subscriber_gets_unwritten_memory:
  assumes "broker_ready s" and "holds_messages s x [m]" and "x \<noteq> []" and "0 < tfs_spare (tfs s)"
    and "cstr p = pipe" and "0 \<in> set p" and "length pipe < 256" and "cstr name = 47 # x" and "0 \<in> set name"
    and "memory = mem_read (uninit s (objects s)) 0 1024" and "0 \<in> set memory"
    and "script s = Result h False # Wrote True # Result (-1) False # es" and "0 \<le> h"
  shows "\<exists>t. threaded_register_subscriber_command p name s = Ret (-1, t) \<and> script t = es \<and>
     sent t = sent s @ [to_subscriber pipe (cstr memory)] \<and> box_list_mutex t"
proof -
  obtain i where i: "position (47 # x) (box_list s) = Some i"
    and size: "messages_size (box (box_list s ! i)) = [length m]"
    and c: "files (tfs s) x = Some m" "message_ok m"
    using assms(2) by (auto simp: holds_messages_def)
  note b = ready_box [OF assms(1) i] and r = broker_readyD [OF assms(1)]
  have m: "m \<noteq> []" "length m < 1024" using c(2) by (simp_all add: message_ok_def)
  obtain fd s1 u where o: "tfs_open (Some (47 # x)) TFS_O_APPEND (tfs s) = Ret (fd, s1)" "0 \<le> fd"
    "tfs_rewind_offset fd s1 = Ret (0, u)" and u: "tfs_ready u" "files u = files (tfs s)" "tfs_positioned u fd x 0"
    using tfs_store.open_at_start [OF r(1) c(1) b(5) assms(3,4) m(1)] by blast
  obtain v where v: "tfs_read fd (length m) u = Ret ((int (length m), m), v)"
    using tfs_store.read_law [OF u(1,3), of m "length m"] c(1) u(2) m(1) by auto
  let ?sub = "\<lparr>sub_named_pipe = pipe, sub_box_name = 47 # x\<rparr>"
  let ?count = "num_subscribers_update (\<lambda>n. (n + 1) mod 2 ^ 64)"
  let ?l = "if subscribers (box (box_list s ! i)) = []
     then (box_list s)[i := box_update (subscribers_update (\<lambda>_. [?sub])) (box_list s ! i)] else box_list s"
  let ?s2 = "s\<lparr>box_list_mutex := True, box_list := ?l[i := box_update ?count (?l ! i)], tfs := u,
     objects := Suc (objects s)\<rparr>"
  have memory: "length memory = 1024" "length (cstr memory) \<le> 1024"
    using assms(10) length_cstr [OF assms(11)] by simp_all
  let ?s3 = "?s2\<lparr>objects := Suc (Suc (objects s)), script := Result (-1) False # es,
     sent := sent s @ [to_subscriber pipe (cstr memory)]\<rparr>"
  have "threaded_send pipe memory (unlock_list_return (-1)) ?s2 = Ret (0, ?s3)"
    using threaded_send_run [of ?s2 h "Result (-1) False # es" memory pipe] assms(11-13) memory(2) by simp
  then have old: "threaded_old_messages fd pipe [length m] memory ?s2 = Ret (Inr (length m, memory), ?s3)"
    by (simp add: bnd_Ret ret_def)
  let ?t = "?s3\<lparr>objects := Suc (Suc (Suc (objects s))), tfs := v, script := es\<rparr>"
  have follow: "threaded_follow (Suc f) fd pipe (length m) memory ?s3 = Ret (-1, ?t)" for f
    using v m(2) memory(1) by (simp add: bnd_Ret [OF in_fs_run] sys_bnds ret_def)
  have "threaded_register_subscriber_command p name s = Ret (-1, ?t)"
    using r(3,4) assms(5-10) i b o size old follow
    by (simp add: threaded_register_subscriber_command_def bnd_Ret [OF find_box_by_name_run] bnd_if
        bnd_Ret [OF in_fs_run] MAX_MESSAGE_SIZE_def bnd_Ret split del: if_split del: threaded_old_messages.simps threaded_follow.simps)
      (auto simp: bnd_Ret [OF in_fs_run] bnd_Ret MAX_MESSAGE_SIZE_def split: if_splits
        simp del: threaded_old_messages.simps threaded_follow.simps)
  then show ?thesis by auto
qed

lemma threaded_subscriber_gets_unwritten_memory_witness:
  "\<exists>t. threaded_register_subscriber_command [115, 0] [47, 97, 0] (demo_held [Result 5 False, Wrote True, Result (-1) False])
       = Ret (-1, t) \<and>
     holds_messages (demo_held []) [97] [[104, 105]] \<and> sent t = [to_subscriber [115] []] \<and> box_list_mutex t"
proof -
  let ?s = "demo_held [Result 5 False, Wrote True, Result (-1) False]"
  have memory: "replicate 1024 0 = mem_read (uninit ?s (objects ?s)) 0 1024"
    by (simp add: mem_read_def map_replicate_const)
  have c: "cstr (replicate 1024 0) = []" by (simp add: cstr_def)
  show ?thesis
    using threaded_subscriber_gets_unwritten_memory [OF demo_held_state _ _ _ _ _ _ _ memory, of "[115, 0]" "[115]" "[47, 97, 0]" 5 "[]"]
      demo2_store demo_held_state(2) [of "[]"] c by (auto simp: cstr_def)
qed

section \<open>The signal\<close>

lemma threaded_close_mbroker_ends:
  "threaded_close_mbroker False s = Ret ((r, freed), t) \<Longrightarrow>
   freed \<or> (\<exists>q. pc_queue t = Some q \<and> pcq_buffer q = None)"
  by (auto simp: threaded_close_mbroker_def tfs_destroy_def state_destroy_def in_fs_def pcq_destroy_def
      bnd_def ret_def gets_def modify_def defined_def split: if_splits outcome.splits)

lemma threaded_main_loop_ends:
  "threaded_main_loop signals fd s = Ret (x, t) \<Longrightarrow>
   x = Inl (-1) \<or> x = Inr True \<or> x = Inr False \<and> (\<exists>q. pc_queue t = Some q \<and> pcq_buffer q = None)"
proof (induction signals arbitrary: s)
  case Nil
  then show ?case by (simp add: blocked_def)
next
  case (Cons signal signals)
  show ?case
  proof (cases signal)
    case True
    with Cons.prems obtain r freed where "threaded_close_mbroker False s = Ret ((r, freed), t)" "x = Inr freed"
      by (auto simp: threaded_sigint_handler_def bnd_assoc ret_def elim!: bnd_RetE)
    then show ?thesis using threaded_close_mbroker_ends [of s r freed t] by (cases freed) auto
  next
    case False
    with Cons show ?thesis by (auto simp: ret_def elim!: bnd_RetE split: if_splits)
  qed
qed

lemma threaded_close_again:
  "pc_queue s = Some q \<Longrightarrow> pcq_buffer q = None \<Longrightarrow> threaded_close_mbroker freed s = Ret ((r, f), t) \<Longrightarrow> r = -1"
  by (auto simp: threaded_close_mbroker_def tfs_destroy_def state_destroy_def in_fs_def pcq_destroy_def
      bnd_def ret_def gets_def modify_def defined_def split: if_splits outcome.splits)

text \<open>
  C26: the second broker never exits with success, whatever requests it gets and whenever between them the
  signal comes: a failing request ends it with -1, and after SIGINT the handler has destroyed the file system and the queue and freed the
  structure whose field \<^verbatim>\<open>main\<close> reads next.
\<close>

theorem threaded_main_never_returns_0:
  "threaded_main h queue_memory q signals argv s \<noteq> Ret (0, t)"
proof
  assume "threaded_main h queue_memory q signals argv s = Ret (0, t)"
  then obtain fd u x v where loop: "threaded_main_loop signals fd u = Ret (x, v)"
    and rest: "(case x of Inl r \<Rightarrow> ret r
      | Inr freed \<Rightarrow>
          bnd (sys_close fd) (\<lambda>c.
          if c < 0 then ret (-1)
          else
            thn (defined (\<not> freed))
           (bnd (sys_unlink (argv ! 1)) (\<lambda>(r, _).
            if r < 0 then ret (-1)
            else bnd (threaded_close_mbroker freed) (\<lambda>(r, _). ret (if r < 0 then -1 else 0)))))) v = Ret (0, t)"
    by (auto simp: threaded_main_def Let_def ret_run simp del: One_nat_def elim!: bnd_RetE split: if_splits)
  from threaded_main_loop_ends [OF loop] rest show False
    by (auto simp: sys_bnds ret_def elim!: bnd_RetE dest!: threaded_close_again [rotated 2]
        split: list.splits os_event.splits if_splits)
qed

end
