(* ===== verification/Logging.thy ===== *)
theory Logging imports C_Prelude "HOL-Library.Sublist" begin

text \<open>
  The log of the program: the level of \<^verbatim>\<open>utils/logging.c\<close> and the macros of \<^verbatim>\<open>utils/logging.h\<close>, over a
  state that holds the level and what was printed to \<^verbatim>\<open>stderr\<close>. The models of the other files leave
  these lines out: no level makes a macro other than \<^verbatim>\<open>PANIC\<close> do more than print.
\<close>

section \<open>The level\<close>

datatype log_level_t = LOG_QUIET | LOG_NORMAL | LOG_VERBOSE

primrec level_value :: "log_level_t \<Rightarrow> int" where
  "level_value LOG_QUIET = 0"
| "level_value LOG_NORMAL = 1"
| "level_value LOG_VERBOSE = 2"

lemma level_value_inject [simp]: "level_value a = level_value b \<longleftrightarrow> a = b"
  by (cases a; cases b) simp_all

instantiation log_level_t :: linorder
begin

definition less_eq_log_level_t :: "log_level_t \<Rightarrow> log_level_t \<Rightarrow> bool" where
  "less_eq_log_level_t a b \<longleftrightarrow> level_value a \<le> level_value b"

definition less_log_level_t :: "log_level_t \<Rightarrow> log_level_t \<Rightarrow> bool" where
  "less_log_level_t a b \<longleftrightarrow> level_value a < level_value b"

instance
  by standard (auto simp: less_eq_log_level_t_def less_log_level_t_def)

end

text \<open>\<open>err\<close> has one string for each \<^verbatim>\<open>fprintf\<close> to \<^verbatim>\<open>stderr\<close>.\<close>

record log_state =
  g_level :: log_level_t
  err :: "string list"

definition log_static :: log_state where
  "log_static = \<lparr>g_level = LOG_QUIET, err = []\<rparr>"

definition set_log_level :: "log_level_t \<Rightarrow> (log_state, unit) prog" where
  "set_log_level level = modify (\<lambda>s. s\<lparr>g_level := level\<rparr>)"

section \<open>The macros\<close>

text \<open>
  \<open>site\<close> is what the preprocessor puts in: the file, the line and the function. The message is the text
  the arguments of the macro format to; \<^verbatim>\<open>snprintf\<close> cuts it to the 2048 bytes of \<^verbatim>\<open>buf\<close>, NUL included.
\<close>

type_synonym site = "string \<times> nat \<times> string"

fun decimal :: "nat \<Rightarrow> string" where
  "decimal n = (if n < 10 then [] else decimal (n div 10)) @ [char_of (48 + n mod 10)]"

declare decimal.simps [simp del]

definition snprintf_buf :: "string \<Rightarrow> string" where
  "snprintf_buf message = take 2047 message"

definition log_line :: "string \<Rightarrow> site \<Rightarrow> string \<Rightarrow> string" where
  "log_line tag site buf = (case site of (file, line, func) \<Rightarrow>
     tag @ file @ '':'' @ decimal line @ '' :: '' @ func @ '' :: '' @ buf @ [char_of (10 :: nat)])"

definition fprintf_err :: "string \<Rightarrow> (log_state, unit) prog" where
  "fprintf_err line = modify (\<lambda>s. s\<lparr>err := err s @ [line]\<rparr>)"

definition log_info :: "site \<Rightarrow> string \<Rightarrow> (log_state, unit) prog" where
  "log_info site message = fprintf_err (log_line ''[INFO]:  '' site (snprintf_buf message))"

definition log_panic :: "site \<Rightarrow> string \<Rightarrow> (log_state, unit) prog" where
  "log_panic site message =
     thn (fprintf_err (log_line ''[PANIC]: '' site (snprintf_buf message))) (\<lambda>s. Panic (snprintf_buf message))"

definition log_warn :: "site \<Rightarrow> string \<Rightarrow> (log_state, unit) prog" where
  "log_warn site message =
     bnd (gets g_level) (\<lambda>level.
       if level = LOG_NORMAL \<or> level = LOG_VERBOSE
       then fprintf_err (log_line ''[WARN]:  '' site (snprintf_buf message)) else ret ())"

definition log_log :: "site \<Rightarrow> string \<Rightarrow> (log_state, unit) prog" where
  "log_log site message =
     bnd (gets g_level) (\<lambda>level.
       if level = LOG_NORMAL \<or> level = LOG_VERBOSE
       then fprintf_err (log_line ''[LOG]:   '' site (snprintf_buf message)) else ret ())"

definition log_debug :: "site \<Rightarrow> string \<Rightarrow> (log_state, unit) prog" where
  "log_debug site message =
     bnd (gets g_level) (\<lambda>level.
       if level = LOG_VERBOSE
       then fprintf_err (log_line ''[DEBUG]: '' site (snprintf_buf message)) else ret ())"

section \<open>A run of log calls\<close>

datatype log_call = Info site string | Warn site string | Log site string | Debug site string

fun run_macro :: "log_call \<Rightarrow> (log_state, unit) prog" where
  "run_macro (Info site message) = log_info site message"
| "run_macro (Warn site message) = log_warn site message"
| "run_macro (Log site message) = log_log site message"
| "run_macro (Debug site message) = log_debug site message"

fun run_macros :: "log_call list \<Rightarrow> (log_state, unit) prog" where
  "run_macros [] = ret ()"
| "run_macros (c # cs) = thn (run_macro c) (run_macros cs)"

text \<open>The level from which a macro prints, and its line.\<close>

fun from_level :: "log_call \<Rightarrow> log_level_t" where
  "from_level (Info site message) = LOG_QUIET"
| "from_level (Warn site message) = LOG_NORMAL"
| "from_level (Log site message) = LOG_NORMAL"
| "from_level (Debug site message) = LOG_VERBOSE"

fun line_of :: "log_call \<Rightarrow> string" where
  "line_of (Info site message) = log_line ''[INFO]:  '' site (snprintf_buf message)"
| "line_of (Warn site message) = log_line ''[WARN]:  '' site (snprintf_buf message)"
| "line_of (Log site message) = log_line ''[LOG]:   '' site (snprintf_buf message)"
| "line_of (Debug site message) = log_line ''[DEBUG]: '' site (snprintf_buf message)"

lemma run_macro_run [run_simps]:
  "run_macro c s = Ret ((), if from_level c \<le> g_level s then s\<lparr>err := err s @ [line_of c]\<rparr> else s)"
  by (cases c; cases "g_level s")
    (simp_all add: log_info_def log_warn_def log_log_def log_debug_def fprintf_err_def
      less_eq_log_level_t_def run_simps)

lemma run_macros_run [run_simps]:
  "run_macros cs s = Ret ((), s\<lparr>err := err s @ map line_of (filter (\<lambda>c. from_level c \<le> g_level s) cs)\<rparr>)"
  by (induction cs arbitrary: s) (simp_all add: run_simps)

lemma set_log_level_run [run_simps]: "set_log_level l s = Ret ((), s\<lparr>g_level := l\<rparr>)"
  by (simp add: set_log_level_def run_simps)

lemma filter_stronger: "(\<And>x. P x \<Longrightarrow> Q x) \<Longrightarrow> subseq (filter P xs) (filter Q xs)"
  by (induction xs) auto

text \<open>
  C40: the levels are nested. A run of log calls never fails and never changes the level, and at a higher
  level it prints what it prints at a lower one, in the same order, with further lines between. The level
  a program starts with, which nothing in the repository changes, prints the lines of \<^verbatim>\<open>INFO\<close> alone, so
  none of the warnings of the other files is ever seen.
\<close>

theorem log_levels_are_nested:
  assumes "l \<le> l'"
  shows "\<exists>t u v. bnd (set_log_level l) (\<lambda>_. run_macros cs) s = Ret ((), t) \<and> g_level t = l \<and>
      bnd (set_log_level l') (\<lambda>_. run_macros cs) s = Ret ((), u) \<and> g_level u = l' \<and> subseq (err t) (err u) \<and>
      run_macros cs log_static = Ret ((), v) \<and>
      err v = map line_of (filter (\<lambda>c. \<exists>site message. c = Info site message) cs)"
proof -
  have "subseq (filter (\<lambda>c. from_level c \<le> l) cs) (filter (\<lambda>c. from_level c \<le> l') cs)"
    using assms by (intro filter_stronger) (rule order_trans)
  moreover have "from_level c \<le> LOG_QUIET \<longleftrightarrow> (\<exists>site message. c = Info site message)" for c
    by (cases c) (auto simp: less_eq_log_level_t_def)
  ultimately show ?thesis
    by (simp add: run_simps log_static_def subseq_append' subseq_map)
qed

lemma log_levels_are_nested_witness:
  "\<exists>t u. bnd (set_log_level LOG_NORMAL) (\<lambda>_. run_macros [Warn (''a.c'', 7, ''f'') ''w'', Debug (''a.c'', 12, ''f'') ''d'']) log_static
       = Ret ((), t) \<and>
     bnd (set_log_level LOG_VERBOSE) (\<lambda>_. run_macros [Warn (''a.c'', 7, ''f'') ''w'', Debug (''a.c'', 12, ''f'') ''d'']) log_static
       = Ret ((), u) \<and> subseq (err t) (err u)"
  using log_levels_are_nested [of LOG_NORMAL LOG_VERBOSE
      "[Warn (''a.c'', 7, ''f'') ''w'', Debug (''a.c'', 12, ''f'') ''d'']" log_static]
  by (auto simp: less_eq_log_level_t_def)

end
