(* ===== verification/Box_Log.thy ===== *)
theory Box_Log imports System begin

text \<open>
  What the broker promises the clients of its first box: the box is a log. A publisher's session appends
  to it, a subscriber's session gets all of it, and the first subscriber also gets what is appended
  later. The broker implements this machine for every sequence of sessions.
\<close>

section \<open>The log\<close>

text \<open>The messages so far and the pipe of the first subscriber.\<close>

record box_log =
  logged :: "cstring list"
  listener :: "cstring option"

datatype session = Publish cstring "cstring list" | Subscribe cstring

fun log_step :: "session \<Rightarrow> box_log \<Rightarrow> box_log" where
  "log_step (Publish pub new) b = b\<lparr>logged := logged b @ new\<rparr>"
| "log_step (Subscribe sub) b = b\<lparr>listener := (case listener b of None \<Rightarrow> Some sub | Some p \<Rightarrow> Some p)\<rparr>"

text \<open>
  What a session makes the broker send, pipe by pipe, and what of it the log promises. They differ in the
  first of the old messages: it is sent from a buffer of \<^verbatim>\<open>malloc\<close> which does not end it, so what the buffer
  held goes with it, up to a 0.
\<close>

fun sent_for :: "mem \<Rightarrow> session \<Rightarrow> box_log \<Rightarrow> (cstring \<times> byte list) list" where
  "sent_for buf (Publish pub new) b = (case listener b of None \<Rightarrow> [] | Some p \<Rightarrow> map (to_subscriber p) new)"
| "sent_for buf (Subscribe sub) b = map (to_subscriber sub) (replayed buf (logged b))"


text \<open>
  What the broker takes from the kernel in a session when every call works: the request from the
  descriptor \<open>fd\<close> of its own pipe, which stays open; the descriptors \<open>d 0\<close>, \<open>d 1\<close>, ... in the order in which it
  opens pipes; for each message what it reads and, if there is a listener, what it sends. Every call works:
  the pipe of the listener opens and takes each message, also after the session of the listener has
  ended, and so does the pipe of a subscriber for each old message and then for the wait that ends its
  session.
\<close>

definition heard :: "(nat \<Rightarrow> int) \<Rightarrow> box_log \<Rightarrow> nat \<Rightarrow> int list" where
  "heard d b i = (if listener b = None then [] else [d (Suc i)])"

fun served :: "cstring \<Rightarrow> int \<Rightarrow> (nat \<Rightarrow> int) \<Rightarrow> session \<Rightarrow> box_log \<Rightarrow> os_event list" where
  "served x fd d (Publish pub new) b = request_events fd (1 # padded 256 pub @ padded 32 (47 # x)) @ [Result (d 0) False] @
     concat (map (\<lambda>(i, m). session_events (d 0) (9 # padded 1024 m) @ deliveries (heard d b i)) (enumerate 0 new)) @
     [Ready (d 0), Got (d 0) [], Result 0 False]"
| "served x fd d (Subscribe sub) b = request_events fd (2 # padded 256 sub @ padded 32 (47 # x)) @
     deliveries (map d [0..<length (logged b)]) @
     [Result (d (length (logged b))) False, Ready (d (length (logged b))), Result 0 False]"

text \<open>How many pipes a session opens.\<close>

fun opens :: "session \<Rightarrow> box_log \<Rightarrow> nat" where
  "opens (Publish pub new) b = Suc (if listener b = None then 0 else length new)"
| "opens (Subscribe sub) b = Suc (length (logged b))"

text \<open>
  The sessions that the box has room for: the messages fit its block, which has \<open>limit\<close> bytes, there is
  something to subscribe to, and each subscriber takes one of the \<open>spare\<close> handles for ever.
\<close>

fun session_fits :: "nat \<Rightarrow> nat \<Rightarrow> session \<Rightarrow> box_log \<Rightarrow> bool" where
  "session_fits limit spare (Publish pub new) b \<longleftrightarrow> is_cstring pub \<and> length pub < 256 \<and>
     list_all message_ok new \<and> length (concat (logged b)) + length (concat new) \<le> limit"
| "session_fits limit spare (Subscribe sub) b \<longleftrightarrow> is_cstring sub \<and> length sub < 256 \<and>
     logged b \<noteq> [] \<and> 1 < spare"

fun spare_after :: "session \<Rightarrow> nat \<Rightarrow> nat" where
  "spare_after (Publish pub new) spare = spare"
| "spare_after (Subscribe sub) spare = spare - 1"

text \<open>A 0 ends the first message in every buffer, somewhere or right behind the message.\<close>

definition buffers_end :: "(nat \<Rightarrow> mem) \<Rightarrow> cstring list \<Rightarrow> bool" where
  "buffers_end memory ms \<longleftrightarrow> ms = [] \<or> (\<forall>k. 0 \<in> set (first_object (memory k) ms))"


section \<open>Sequences of sessions\<close>

fun run_log :: "session list \<Rightarrow> box_log \<Rightarrow> box_log" where
  "run_log [] b = b"
| "run_log (e # ss) b = run_log ss (log_step e b)"

text \<open>\<open>bufs\<close> are the buffers of the sessions, one for each.\<close>

fun all_sent :: "(nat \<Rightarrow> mem) \<Rightarrow> session list \<Rightarrow> box_log \<Rightarrow> (cstring \<times> byte list) list" where
  "all_sent bufs [] b = []"
| "all_sent bufs (e # ss) b = sent_for (bufs 0) e b @ all_sent (\<lambda>i. bufs (Suc i)) ss (log_step e b)"


fun all_served :: "cstring \<Rightarrow> int \<Rightarrow> (nat \<Rightarrow> int) \<Rightarrow> session list \<Rightarrow> box_log \<Rightarrow> os_event list" where
  "all_served x fd d [] b = []"
| "all_served x fd d (e # ss) b = served x fd d e b @ all_served x fd (\<lambda>i. d (opens e b + i)) ss (log_step e b)"

fun all_opens :: "session list \<Rightarrow> box_log \<Rightarrow> nat" where
  "all_opens [] b = 0"
| "all_opens (e # ss) b = opens e b + all_opens ss (log_step e b)"

fun sessions_fit :: "nat \<Rightarrow> nat \<Rightarrow> session list \<Rightarrow> box_log \<Rightarrow> bool" where
  "sessions_fit limit spare [] b = True"
| "sessions_fit limit spare (e # ss) b \<longleftrightarrow> session_fits limit spare e b \<and>
     sessions_fit limit (spare_after e spare) ss (log_step e b)"

text \<open>The first message of a log stays the first; where a 0 is right behind it, what is sent is what the log promises.\<close>

lemma hd_run_log:
  "logged b \<noteq> [] \<Longrightarrow> logged (run_log ss b) \<noteq> [] \<and> hd (logged (run_log ss b)) = hd (logged b)"
proof (induction ss arbitrary: b)
  case (Cons e ss)
  then have "logged (log_step e b) \<noteq> []" "hd (logged (log_step e b)) = hd (logged b)" by (cases e; simp)+
  with Cons.IH show ?case by simp
qed simp

lemma buffers_end_before:
  "buffers_end memory (logged (run_log ss b)) \<Longrightarrow> buffers_end memory (logged b)"
  using hd_run_log [of b ss] by (auto simp: buffers_end_def first_object_def)


section \<open>The broker implements the log\<close>

text \<open>The state of the broker that the log stands for.\<close>

definition listeners :: "cstring \<Rightarrow> box_log \<Rightarrow> subscriber_t list" where
  "listeners x b = (case listener b of None \<Rightarrow> [] | Some p \<Rightarrow> [\<lparr>sub_named_pipe = p, sub_box_name = 47 # x\<rparr>])"

definition log_of :: "cstring \<Rightarrow> broker \<Rightarrow> box_log \<Rightarrow> bool" where
  "log_of x s b \<longleftrightarrow> serving s x None (listeners x b) (logged b)"

lemma log_of_cong:
  "tfs t = tfs s \<Longrightarrow> box_list t = box_list s \<Longrightarrow> box_list_mutex t = box_list_mutex s \<Longrightarrow>
   log_of x t b = log_of x s b"
  using serving_cong [of t s] by (simp add: log_of_def)

lemma log_of_messages: "log_of x s b \<Longrightarrow> list_all message_ok (logged b)"
  by (auto simp: log_of_def serving_def holds_messages_def)

lemma listeners_simps [simp]:
  "listeners x (b\<lparr>logged := ms\<rparr>) = listeners x b"
  "listeners x (b\<lparr>listener := None\<rparr>) = []"
  "listeners x (b\<lparr>listener := Some p\<rparr>) = [\<lparr>sub_named_pipe = p, sub_box_name = 47 # x\<rparr>]"
  "listener b = None \<Longrightarrow> listeners x b = []"
  "length (listeners x b) = (if listener b = None then 0 else 1)"
  by (simp_all add: listeners_def split: option.splits)

lemma log_of_length: "log_of x s b \<Longrightarrow> length (47 # x) \<le> 32 \<and> is_cstring x"
  using ready_box(5,6) by (fastforce simp: log_of_def serving_def first_box_def)

text \<open>The rounds of a session of a publisher.\<close>

lemma rounds_published:
  "list_all message_ok new \<Longrightarrow>
   concat (map (\<lambda>(i, m). session_events h (9 # padded 1024 m) @ deliveries (heard d b i)) (enumerate n new)) =
     published h (map (\<lambda>(i, m). (m, heard d b i)) (enumerate n new))"
  by (induction new arbitrary: n) (auto simp: session_events_def published_def message_ok_def)

lemma rounds_ok_heard:
  assumes "list_all message_ok new" and "\<forall>i < opens (Publish pub new) b. 0 \<le> d i"
  shows "rounds_ok (listeners x b) (map (\<lambda>(i, m). (m, heard d b i)) (enumerate 0 new))"
proof -
  have "message_ok m \<and> length (heard d b i) = length (listeners x b) \<and> list_all ((\<le>) 0) (heard d b i)"
    if "(i, m) \<in> set (enumerate 0 new)" for i m
  proof -
    from that have "i < length new" "m \<in> set new" by (auto simp: in_set_enumerate_eq)
    with assms show ?thesis by (auto simp: heard_def list_all_iff)
  qed
  then show ?thesis by (auto simp: rounds_ok_def list_all_iff)
qed

lemma fst_rounds: "map fst (map (\<lambda>(i, m). (m, heard d b i)) (enumerate n new)) = new"
  by (simp add: comp_def case_prod_beta flip: snd_def [abs_def])

lemma publish_implements:
  assumes b: "log_of x s b" and x: "x \<noteq> []" and fd: "0 \<le> fd" "fd < 1024"
    and d: "\<forall>i < opens (Publish pub new) b. 0 \<le> d i \<and> d i < 1024"
    and fits: "session_fits (tfs_limit (tfs s)) (tfs_spare (tfs s)) (Publish pub new) b"
    and ev: "script s = served x fd d (Publish pub new) b @ es"
  shows "\<exists>t. mbroker_read_pipe_input fd s = Ret (0, t) \<and> log_of x t (log_step (Publish pub new) b) \<and>
     uninit t = uninit s \<and> script t = es \<and> sent t = sent s @ sent_for buf (Publish pub new) b \<and>
     tfs_limit (tfs t) = tfs_limit (tfs s) \<and> tfs_spare (tfs t) = tfs_spare (tfs s)"
proof -
  let ?rs = "map (\<lambda>(i, m). (m, heard d b i)) (enumerate 0 new)"
  let ?es = "Got fd (padded 256 pub) # Got fd (padded 32 (47 # x)) # Result (d 0) False #
      published (d 0) ?rs @ Ready (d 0) # Got (d 0) [] # Result 0 False # es"
  have pub: "is_cstring pub" "length pub < 256" and new: "list_all message_ok new"
    using fits by simp_all
  have h: "0 \<le> d 0" "d 0 < 1024" using d by simp_all
  have ev': "script s = Ready fd # Got fd [1] # ?es"
    using ev pub log_of_length [OF b] by (simp add: sign_in_events rounds_published [OF new])
  let ?s = "(counted_object s)\<lparr>script := ?es\<rparr>"
  have s: "serving ?s x None (listeners x b) (logged b)"
    using b serving_cong [of ?s s] by (simp add: log_of_def)
  have rs: "rounds_ok (listeners x b) ?rs" "map fst ?rs = new"
    using rounds_ok_heard [OF new] d fst_rounds [of d b 0 new] by auto
  have room: "length (concat (logged b)) + length (concat (map fst ?rs)) \<le> tfs_limit (tfs ?s)"
    using fits rs(2) by (simp del: map_map)
  obtain t where t: "register_publisher fd ?s = Ret (0, t)" "serving t x None (listeners x b) (logged b @ new)"
    "script t = es" "sent t = sent s @ spread_all (listeners x b) new"
    "tfs_limit (tfs t) = tfs_limit (tfs s)" "tfs_spare (tfs t) = tfs_spare (tfs s)"
    using register_publisher_run [OF s rs(1) x room pub fd(1) h, of es] unfolding rs(2) by auto
  have "nodes_ok (box_list ?s)" using s by (simp add: serving_def broker_ready_def)
  then have mem: "uninit t = uninit s"
    using keepsD [OF memory.keeps_sessions(1) _ t(1), of "uninit s"] by simp
  have "log_of x t (log_step (Publish pub new) b)" using t(2) by (simp add: log_of_def)
  moreover have "mbroker_read_pipe_input fd s = Ret (0, t)"
    using request_run [OF ev' fd, of register_publisher 0 t] t(1) by (simp add: op_codes)
  moreover have "spread_all (listeners x b) new = sent_for buf (Publish pub new) b"
    by (induction new) (auto simp: spread_all_def listeners_def split: option.splits)
  ultimately show ?thesis using t(3-6) mem by auto
qed

lemma subscribe_implements:
  assumes b: "log_of x s b" and x: "x \<noteq> []" and fd: "0 \<le> fd" "fd < 1024"
    and d: "\<forall>i < opens (Subscribe sub) b. 0 \<le> d i \<and> d i < 1024"
    and mem: "buffers_end (uninit s) (logged b)"
    and fits: "session_fits (tfs_limit (tfs s)) (tfs_spare (tfs s)) (Subscribe sub) b"
    and ev: "script s = served x fd d (Subscribe sub) b @ es"
  shows "\<exists>t k. mbroker_read_pipe_input fd s = Ret (0, t) \<and> log_of x t (log_step (Subscribe sub) b) \<and>
     uninit t = uninit s \<and> script t = es \<and> sent t = sent s @ sent_for (uninit s k) (Subscribe sub) b \<and>
     tfs_limit (tfs t) = tfs_limit (tfs s) \<and> tfs_spare (tfs t) = tfs_spare (tfs s) - 1"
proof -
  let ?fds = "map d [0..<length (logged b)]" and ?h = "d (length (logged b))"
  let ?es = "Got fd (padded 256 sub) # Got fd (padded 32 (47 # x)) #
      deliveries ?fds @ Result ?h False # Ready ?h # Result 0 False # es"
  have sub: "is_cstring sub" "length sub < 256" and ms: "logged b \<noteq> []" and spare: "1 < tfs_spare (tfs s)"
    using fits by simp_all
  have h: "0 \<le> ?h" "?h < 1024" and fds: "length ?fds = length (logged b)" "list_all ((\<le>) 0) ?fds"
    using d by (simp_all add: list_all_iff)
  have ev': "script s = Ready fd # Got fd [2] # ?es"
    using ev sub log_of_length [OF b] by (simp add: sign_in_events)
  let ?s = "(counted_object s)\<lparr>script := ?es\<rparr>"
  let ?k = "Suc (Suc (objects ?s))"
  have s: "serving ?s x None (listeners x b) (logged b)"
    using b serving_cong [of ?s s] by (simp add: log_of_def)
  have "0 \<in> set (first_object (uninit ?s ?k) (logged b))" using mem ms by (simp add: buffers_end_def)
  from register_subscriber_run [OF s ms x sub fd(1) h _ fds this, of es]
  obtain t where t: "register_subscriber fd ?s = Ret (0, t)" "script t = es" "broker_ready t"
    "\<forall>y ms'. holds_messages ?s y ms' \<longrightarrow> holds_messages t y ms'"
    "tfs_spare (tfs s) = Suc (tfs_spare (tfs t))" "tfs_limit (tfs t) = tfs_limit (tfs s)"
    "first_box t x None (if listeners x b = [] then [\<lparr>sub_named_pipe = sub, sub_box_name = 47 # x\<rparr>] else listeners x b)"
    "sent t = sent s @ map (to_subscriber sub) (replayed (uninit s ?k) (logged b))"
    by auto
  have "nodes_ok (box_list ?s)" using s by (simp add: serving_def broker_ready_def)
  then have "uninit t = uninit s"
    using keepsD [OF memory.keeps_sessions(2) _ t(1), of "uninit s"] by simp
  moreover have "holds_messages t x (logged b)" using s t(4) by (simp add: serving_def)
  moreover have "first_box t x None (listeners x (log_step (Subscribe sub) b))"
    using t(7) by (auto simp: listeners_def split: option.splits if_splits)
  ultimately have "uninit t = uninit s" "log_of x t (log_step (Subscribe sub) b)"
    using t(3,5) spare ms by (simp_all add: log_of_def serving_def)
  moreover have "mbroker_read_pipe_input fd s = Ret (0, t)"
    using request_run [OF ev' fd, of register_subscriber 0 t] t(1) by (simp add: op_codes)
  moreover have "sent t = sent s @ sent_for (uninit s ?k) (Subscribe sub) b" using t(8) by simp
  ultimately show ?thesis using t(2,5,6) by (metis diff_Suc_1)
qed

lemma session_implements:
  assumes "log_of x s b" and "x \<noteq> []" and "0 \<le> fd" and "fd < 1024"
    and "\<forall>i < opens e b. 0 \<le> d i \<and> d i < 1024" and "buffers_end (uninit s) (logged b)"
    and "session_fits (tfs_limit (tfs s)) (tfs_spare (tfs s)) e b" and "script s = served x fd d e b @ es"
  shows "\<exists>t k. mbroker_read_pipe_input fd s = Ret (0, t) \<and> log_of x t (log_step e b) \<and>
     uninit t = uninit s \<and> script t = es \<and> sent t = sent s @ sent_for (uninit s k) e b \<and>
     tfs_limit (tfs t) = tfs_limit (tfs s) \<and> tfs_spare (tfs t) = spare_after e (tfs_spare (tfs s))"
proof (cases e)
  case (Publish pub new)
  from publish_implements [OF assms(1-4), of pub new d es "uninit s 0"] assms(5,7,8) show ?thesis
    unfolding Publish by (simp del: served.simps session_fits.simps opens.simps sent_for.simps) blast
next
  case (Subscribe sub)
  from subscribe_implements [OF assms(1-4), of sub d es] assms(5-8) show ?thesis
    unfolding Subscribe by (simp del: served.simps session_fits.simps opens.simps sent_for.simps)
qed

lemma sessions_implement:
  assumes "log_of x s b" and "x \<noteq> []" and "0 \<le> fd" and "fd < 1024"
    and "\<forall>i < all_opens ss b. 0 \<le> d i \<and> d i < 1024" and "buffers_end (uninit s) (logged (run_log ss b))"
    and "sessions_fit (tfs_limit (tfs s)) (tfs_spare (tfs s)) ss b" and "script s = all_served x fd d ss b @ es"
  shows "\<exists>t ks. requests (length ss) fd s = Ret (replicate (length ss) 0, t) \<and> log_of x t (run_log ss b) \<and>
     uninit t = uninit s \<and> script t = es \<and> sent t = sent s @ all_sent (\<lambda>i. uninit s (ks i)) ss b"
  using assms
proof (induction ss arbitrary: s b d)
  case Nil
  then show ?case by (simp add: ret_def)
next
  case (Cons e ss)
  let ?d = "\<lambda>i. d (opens e b + i)"
  have "buffers_end (uninit s) (logged b)" using buffers_end_before Cons.prems(6) by blast
  from session_implements [OF Cons.prems(1-4) _ this, of e d "all_served x fd ?d ss (log_step e b) @ es"] Cons.prems(5,7,8)
  obtain u k where u: "mbroker_read_pipe_input fd s = Ret (0, u)" "log_of x u (log_step e b)" "uninit u = uninit s"
    "script u = all_served x fd ?d ss (log_step e b) @ es" "sent u = sent s @ sent_for (uninit s k) e b"
    "tfs_limit (tfs u) = tfs_limit (tfs s)" "tfs_spare (tfs u) = spare_after e (tfs_spare (tfs s))"
    by (auto simp del: served.simps session_fits.simps opens.simps sent_for.simps)
  have "\<forall>i < all_opens ss (log_step e b). 0 \<le> ?d i \<and> ?d i < 1024" using Cons.prems(5) by simp
  from Cons.IH [OF u(2) Cons.prems(2-4) this _ _ u(4)] u(3,6,7) Cons.prems(6,7)
  obtain t ks where t: "requests (length ss) fd u = Ret (replicate (length ss) 0, t)"
    "log_of x t (run_log ss (log_step e b))" "uninit t = uninit s" "script t = es"
    "sent t = sent u @ all_sent (\<lambda>i. uninit s (ks i)) ss (log_step e b)"
    by auto
  have "sent t = sent s @ all_sent (\<lambda>i. uninit s (case_nat k ks i)) (e # ss) b" using t(5) u(5) by simp
  moreover have "requests (length (e # ss)) fd s = Ret (replicate (length (e # ss)) 0, t)"
    using t(1) u(1) by (simp add: bnd_Ret ret_def)
  ultimately show ?case using t(2-4) by (auto simp del: all_sent.simps requests.simps)
qed






lemma demo_log_heard:
  "\<exists>s. log_of [97] s \<lparr>logged = [[104, 105]], listener = Some [115]\<rparr> \<and> tfs_limit (tfs s) = 128 \<and>
     tfs_spare (tfs s) = 2 \<and> script s = es \<and> sent s = [] \<and> uninit s = (\<lambda>_ _. 0)"
proof -
  have "tfs_positioned demo2 0 [97] 0" using demo2_state by (simp add: tfs_positioned_def)
  then obtain u where u: "tfs_ready u" "files u = files demo2" "tfs_spare u = 2" "tfs_limit u = 128"
    using tfs_store.close_law [OF demo2_store(1)] demo2_store by fastforce
  let ?sub = "\<lparr>sub_named_pipe = [115], sub_box_name = [47, 97]\<rparr>"
  let ?l = "box_list (demo_held es)"
  let ?s = "(demo_held es)\<lparr>tfs := u, box_list := listened 0 ?sub ?l\<rparr>"
  have l: "?l = added_size 0 2 [new_box [47, 97]]" by (simp add: demo_held_def)
  have "list_step ?l (listened 0 ?sub ?l)"
    using list_step.set_subscriber [of ?l 0 ?sub] by (simp add: listened_def l added_size_def new_box_def)
  moreover have "nodes_ok ?l" using demo_held_state(1) by (simp add: broker_ready_def)
  ultimately have "nodes_ok (listened 0 ?sub ?l)" by (rule nodes_ok_step)
  then have "broker_ready ?s" using u(1) demo_held_state(1) [of es]
    by (simp add: broker_ready_def listened_def l added_size_def new_box_def intact_def)
  then have "serving ?s [97] None [?sub] [[104, 105]]"
    using u demo2_state(4)
    by (simp add: serving_def first_box_def holds_messages_def listened_def l added_size_def new_box_def message_ok_def)
  then have "log_of [97] ?s \<lparr>logged = [[104, 105]], listener = Some [115]\<rparr>"
    by (simp add: log_of_def listeners_def)
  then show ?thesis using u(3,4) by (intro exI [of _ ?s]) simp
qed

text \<open>What the sessions publish.\<close>

fun published_in :: "session list \<Rightarrow> cstring list" where
  "published_in [] = []"
| "published_in (Publish pub new # ss) = new @ published_in ss"
| "published_in (Subscribe sub # ss) = published_in ss"

lemma pipe_messages_delivered:
  "fst (to_subscriber p m) = p"
  "pipe_messages q (map (to_subscriber p) ms) = (if p = q then map (\<lambda>t. 10 # padded 1024 t) ms else [])"
  using pipe_messages_subscriber [of p ms] pipe_messages_other [of "to_subscriber p" q ms]
  by (auto simp: to_subscriber_def)

lemma sent_to:
  "listener b = Some p \<Longrightarrow> \<forall>e \<in> set ss. e \<noteq> Subscribe q \<Longrightarrow>
   pipe_messages q (all_sent bufs ss b) = (if p = q then map (\<lambda>t. 10 # padded 1024 t) (published_in ss) else [])"
proof (induction ss arbitrary: b bufs)
  case Nil
  then show ?case by simp
next
  case (Cons e ss)
  have "listener (log_step e b) = Some p" using Cons.prems(1) by (cases e) simp_all
  then have "pipe_messages q (all_sent (\<lambda>i. bufs (Suc i)) ss (log_step e b)) =
      (if p = q then map (\<lambda>t. 10 # padded 1024 t) (published_in ss) else [])"
    using Cons by simp
  with Cons.prems show ?case by (cases e) (auto simp: pipe_messages_delivered)
qed

text \<open>
  C7: only the first subscriber of a box hears of new messages. Once a box has a listener, every message
  that is published is written to the listener's pipe, once and in order, and nothing is ever written to
  the pipe of a subscriber that came later but the old messages, whoever publishes and subscribes in the
  meantime: the node of a later subscriber is made but not put into the list. The pipe of the listener has
  to be open for reading again, although its session ended when \<^verbatim>\<open>select\<close> reported it, and every \<^verbatim>\<open>open\<close> and
  \<^verbatim>\<open>write\<close> has to succeed. The first of the old messages goes with what the buffer held behind it, up to a
  0; where that is right behind the message, the old messages are exact.
\<close>

theorem only_the_first_subscriber_hears_on:
  assumes "log_of x s b" and "x \<noteq> []" and "0 \<le> fd" and "fd < 1024"
    and "\<forall>i < all_opens (Subscribe late # ss) b. 0 \<le> d i \<and> d i < 1024"
    and "buffers_end (uninit s) (logged (run_log (Subscribe late # ss) b))"
    and "sessions_fit (tfs_limit (tfs s)) (tfs_spare (tfs s)) (Subscribe late # ss) b"
    and "script s = all_served x fd d (Subscribe late # ss) b @ es"
    and "listener b = Some first" and "late \<noteq> first"
    and "Subscribe late \<notin> set ss" and "Subscribe first \<notin> set ss"
  shows "\<exists>t k. requests (Suc (length ss)) fd s = Ret (replicate (Suc (length ss)) 0, t) \<and>
     pipe_messages late (sent t) =
       pipe_messages late (sent s) @ map (\<lambda>m. 10 # padded 1024 m) (replayed (uninit s k) (logged b)) \<and>
     (uninit s k (length (hd (logged b))) = 0 \<longrightarrow> replayed (uninit s k) (logged b) = logged b) \<and>
     pipe_messages first (sent t) =
       pipe_messages first (sent s) @ map (\<lambda>m. 10 # padded 1024 m) (published_in ss)"
proof -
  obtain t ks where t: "requests (Suc (length ss)) fd s = Ret (replicate (Suc (length ss)) 0, t)"
    "sent t = sent s @ all_sent (\<lambda>i. uninit s (ks i)) (Subscribe late # ss) b"
    using sessions_implement [OF assms(1-8)] by auto
  have "listener (log_step (Subscribe late) b) = Some first" using assms(9) by simp
  note to = sent_to [OF this, of ss]
  have "logged b \<noteq> []" using assms(7) by simp
  then show ?thesis
    using t to [of late] to [of first] assms(9-12) replayed_exact(2) [OF log_of_messages [OF assms(1)]]
    by - (rule exI [of _ t], rule exI [of _ "ks 0"], fastforce simp: pipe_messages_delivered)
qed

lemma only_the_first_subscriber_hears_on_witness:
  "\<exists>s t. requests (Suc (Suc 0)) 3 s = Ret ([0, 0], t) \<and> pipe_messages [113] (sent t) = [10 # padded 1024 [104, 105]] \<and>
     pipe_messages [115] (sent t) = [10 # padded 1024 [33]]"
proof -
  let ?b = "\<lparr>logged = [[104, 105]], listener = Some [115]\<rparr>" and ?ss = "[Publish [112] [[33]]]"
  let ?d = "\<lambda>i. 4 + int i"
  let ?es = "all_served [97] 3 ?d (Subscribe [113] # ?ss) ?b"
  obtain s where s: "log_of [97] s ?b" "tfs_limit (tfs s) = 128" "tfs_spare (tfs s) = 2"
    "script s = ?es @ []" "sent s = []" "uninit s = (\<lambda>_ _. 0)"
    using demo_log_heard [of ?es] by auto
  have mem: "buffers_end (uninit s) (logged (run_log (Subscribe [113] # ?ss) ?b))"
    by (simp add: s(6) buffers_end_def first_object_def mem_read_def map_replicate_const)
  have "\<exists>t k. requests (Suc (length ?ss)) 3 s = Ret (replicate (Suc (length ?ss)) 0, t) \<and>
     pipe_messages [113] (sent t) =
       pipe_messages [113] (sent s) @ map (\<lambda>m. 10 # padded 1024 m) (replayed (uninit s k) (logged ?b)) \<and>
     (uninit s k (length (hd (logged ?b))) = 0 \<longrightarrow> replayed (uninit s k) (logged ?b) = logged ?b) \<and>
     pipe_messages [115] (sent t) =
       pipe_messages [115] (sent s) @ map (\<lambda>m. 10 # padded 1024 m) (published_in ?ss)"
    by (rule only_the_first_subscriber_hears_on [OF s(1) _ _ _ _ mem _ s(4)]) (simp_all add: s(2,3) message_ok_def)
  then show ?thesis
    by - (rule exI [of _ s], auto simp: s(5,6) simp del: requests.simps)
qed

end
