(* ===== verification/Pipes.thy ===== *)
theory Pipes imports System begin

text \<open>
  A pipe between processes that run at the same time. A message of at most \<^verbatim>\<open>PIPE_BUF\<close> bytes (4096, all
  messages here have fewer) is written whole, so writers that share a pipe put one message behind the
  other; the reader may come at any moment and gets at most what is there. The reader's answers are
  the same for every timing as long as it reads messages in pieces that add up to them.
\<close>

section \<open>Writers and a reader\<close>

text \<open>What the reader calls: \<^verbatim>\<open>select\<close> and \<^verbatim>\<open>read\<close> of at most so many bytes.\<close>

datatype pipe_call = Wait | Take nat

text \<open>
  \<open>arrives h calls bytes ws es\<close>: while \<open>bytes\<close> are in the pipe and the messages \<open>ws\<close> are still to be
  written, the calls on its descriptor \<open>h\<close> can be answered by \<open>es\<close>. A call waits until there are bytes, or the last writer has left.
\<close>

inductive arrives :: "int \<Rightarrow> pipe_call list \<Rightarrow> byte list \<Rightarrow> byte list list \<Rightarrow> os_event list \<Rightarrow> bool" for h where
  finished: "arrives h [] bytes ws []"
| written: "arrives h calls (bytes @ w) ws es \<Longrightarrow> arrives h calls bytes (w # ws) es"
| ready: "bytes \<noteq> [] \<or> ws = [] \<Longrightarrow> arrives h calls bytes ws es \<Longrightarrow>
    arrives h (Wait # calls) bytes ws (Ready h # es)"
| taken: "bytes \<noteq> [] \<or> ws = [] \<Longrightarrow> arrives h calls (drop n bytes) ws es \<Longrightarrow>
    arrives h (Take n # calls) bytes ws (Got h (take n bytes) # es)"

inductive_simps arrives_end [simp]:
  "arrives h [] bytes [] es" "arrives h (Wait # calls) bytes [] es" "arrives h (Take n # calls) bytes [] es"

text \<open>Reading the rest \<open>r\<close> of a message when whole messages may already be behind it.\<close>

lemma arrives_rest:
  assumes "arrives h calls bytes ws es" and "calls = map Take ns @ later" and "bytes = r @ concat behind"
    and "sum_list ns = length r" and "0 \<notin> set ns"
  shows "\<exists>es' behind' ws'. es = reads h ns r @ es' \<and> behind' @ ws' = behind @ ws \<and>
     arrives h later (concat behind') ws' es'"
  using assms
proof (induction arbitrary: ns r behind rule: arrives.induct)
  case (finished bytes ws)
  then show ?case by (auto intro: arrives.finished)
next
  case (written calls bytes w ws es)
  from written.IH [of ns r "behind @ [w]"] written.prems show ?case by simp
next
  case (ready bytes ws calls es)
  then have "ns = []" by (cases ns) auto
  with ready.prems arrives.ready [OF ready.hyps(1,2)] show ?case
    by (intro exI [of _ "Ready h # es"] exI [of _ behind] exI [of _ ws]) simp
next
  case (taken bytes ws calls n es)
  show ?case
  proof (cases ns)
    case Nil
    with taken.prems arrives.taken [OF taken.hyps(1,2)] show ?thesis
      by (intro exI [of _ "Got h (take n bytes) # es"] exI [of _ behind] exI [of _ ws]) simp
  next
    case (Cons k ns')
    with taken.prems have k: "k = n" "calls = map Take ns' @ later" "n \<le> length r" "sum_list ns' = length (drop n r)"
      "0 \<notin> set ns'" by auto
    then have "drop n bytes = drop n r @ concat behind" using taken.prems(2) by simp
    from taken.IH [OF k(2) this k(4,5)] Cons k taken.prems(2) show ?thesis by auto
  qed
qed

lemma arrives_message:
  assumes "arrives h calls bytes ws es" and "calls = Wait # map Take ns @ later" and "bytes = concat before"
    and "before @ ws = m # ms" and "m \<noteq> []" and "sum_list ns = length m" and "0 \<notin> set ns"
  shows "\<exists>es' before' ws'. es = Ready h # reads h ns m @ es' \<and> before' @ ws' = ms \<and>
     arrives h later (concat before') ws' es'"
  using assms
proof (induction arbitrary: before rule: arrives.induct)
  case (written calls bytes w ws es)
  from written.IH [of "before @ [w]"] written.prems show ?case by simp
next
  case (ready bytes ws calls es)
  then obtain behind where b: "before = m # behind" "behind @ ws = ms" by (cases before) auto
  then have "bytes = m @ concat behind" using ready.prems(2) by simp
  from arrives_rest [OF ready.hyps(2) _ this] ready.prems b(2) show ?case by auto
qed simp_all

text \<open>Message after message, for every timing of the writers and the reader.\<close>

lemma arrives_messages:
  assumes "arrives h (concat (map (\<lambda>_. Wait # map Take ns) ms) @ later) (concat before) ws es" and "before @ ws = ms"
    and "\<forall>m \<in> set ms. length m = sum_list ns" and "0 \<notin> set ns" and "ns \<noteq> []"
  shows "\<exists>es'. es = concat (map (\<lambda>m. Ready h # reads h ns m) ms) @ es' \<and> arrives h later [] [] es'"
  using assms
proof (induction ms arbitrary: before ws es)
  case Nil
  then show ?case by auto
next
  case (Cons m ms)
  have "sum_list ns \<noteq> 0" using Cons.prems(4,5) by (cases ns) auto
  then have m: "m \<noteq> []" "sum_list ns = length m" using Cons.prems(3) by (metis list.set_intros(1) list.size(3))+
  have calls: "concat (map (\<lambda>_. Wait # map Take ns) (m # ms)) @ later =
      Wait # map Take ns @ (concat (map (\<lambda>_. Wait # map Take ns) ms) @ later)" by simp
  obtain es' before' ws' where e: "es = Ready h # reads h ns m @ es'" "before' @ ws' = ms"
    "arrives h (concat (map (\<lambda>_. Wait # map Take ns) ms) @ later) (concat before') ws' es'"
    using arrives_message [OF Cons.prems(1) calls refl Cons.prems(2) m Cons.prems(4)] by blast
  from Cons.IH [OF e(3,2)] Cons.prems(3-5) e(1) show ?case by auto
qed

text \<open>Some timing is possible: every message may be read before the next one is written.\<close>

lemma arrives_in_turn:
  assumes "\<forall>m \<in> set ms. length m = sum_list ns" and "0 \<notin> set ns" and "ns \<noteq> []" and "arrives h later [] [] es"
  shows "arrives h (concat (map (\<lambda>_. Wait # map Take ns) ms) @ later) [] ms
     (concat (map (\<lambda>m. Ready h # reads h ns m) ms) @ es)"
  using assms(1)
proof (induction ms)
  case Nil
  then show ?case using assms(4) by simp
next
  case (Cons m ms)
  have rest: "arrives h (map Take ks @ calls) r ws (reads h ks r @ es')"
    if "sum_list ks = length r" "0 \<notin> set ks" "arrives h calls [] ws es'" for ks r ws es' calls
    using that
  proof (induction ks arbitrary: r)
    case (Cons k ks)
    then have "r \<noteq> []" by auto
    with Cons.IH [of "drop k r"] Cons.prems show ?case by (auto intro: arrives.taken)
  qed simp
  have "sum_list ns \<noteq> 0" using assms(2,3) by (cases ns) auto
  then have "m \<noteq> []" using Cons.prems by (metis list.set_intros(1) list.size(3))
  with rest [of ns m] Cons assms(2) show ?case by (auto intro!: arrives.written arrives.ready)
qed

section \<open>A session, whatever the timing\<close>

text \<open>The calls of the broker in a session of \<open>n\<close> messages, the last two for the end of the file.\<close>

definition session_calls :: "nat \<Rightarrow> pipe_call list" where
  "session_calls n = concat (replicate n [Wait, Take 1, Take 1024]) @ [Wait, Take 1]"

lemma session_arrives:
  assumes "arrives h (session_calls (length ms)) [] (map (\<lambda>m. 9 # padded 1024 m) ms) es" and "list_all message_ok ms"
  shows "es = published h (map (\<lambda>m. (m, [])) ms) @ [Ready h, Got h []]"
proof -
  let ?ws = "map (\<lambda>m. 9 # padded 1024 m) ms"
  have "concat (map (\<lambda>_. Wait # map Take [1, 1024]) ?ws) = concat (replicate (length ms) [Wait, Take 1, Take 1024])"
    by (induction ms) simp_all
  then have "arrives h (concat (map (\<lambda>_. Wait # map Take [1, 1024]) ?ws) @ [Wait, Take 1]) (concat []) ?ws es"
    using assms(1) by (simp add: session_calls_def)
  note messages = arrives_messages [OF this]
  have "\<forall>w \<in> set ?ws. length w = sum_list [1, 1024]" using assms(2) by (auto simp: list_all_iff message_ok_def)
  then obtain es' where es: "es = concat (map (\<lambda>m. Ready h # reads h [1, 1024] m) ?ws) @ es'"
    "arrives h [Wait, Take 1] [] [] es'"
    using messages by fastforce
  have "concat (map (\<lambda>m. Ready h # reads h [1, 1024] m) ?ws) = concat (map (session_events h) ?ws)"
    by (simp only: session_events_def [abs_def])
  also have "\<dots> = published h (map (\<lambda>m. (m, [])) ms)" by (rule session_events_published [OF assms(2)])
  finally show ?thesis using es by simp
qed

text \<open>
  C4: a publisher and the broker may run at any speed. The publisher writes its lines into its pipe one
  after the other while the broker reads from it, and however the writes and the reads meet, with several
  messages in the pipe or none, the broker takes every line as one message, in order, and the session
  ends when the publisher has left. The request comes from the descriptor \<open>fd\<close>, which stays open, the
  messages from the descriptor \<open>h\<close> of the publisher's pipe; the box is the first of the broker and has no
  subscriber, and the lines fit its block.
\<close>

theorem timing_does_not_matter:
  assumes "serving s x None [] ms" and "x \<noteq> []"
    and "client_check_args (Some reg) (Some pub) (Some (47 # x)) = 0"
    and "is_cstring pub" and "length pub < 256" and "pub \<noteq> reg"
    and "\<forall>l \<in> set lines. length l \<le> 1023 \<and> line_text l \<noteq> []"
    and "length (concat ms) + length (concat (map line_text lines)) \<le> tfs_limit (tfs s)"
    and "sent c = []" and "0 \<le> hp" and "0 \<le> fd" "fd < 1024" and "0 \<le> h" "h < 1024"
    and "pub_main [program, reg, pub, 47 # x] (c\<lparr>script := publisher_events hp lines\<rparr>) = Ret (0, c')"
    and "arrives h (session_calls (length lines)) [] (pipe_messages pub (sent c')) es"
    and "script s = concat (map (request_events fd) (pipe_messages reg (sent c'))) @ Result h False # es @
      Result 0 False # later"
  shows "\<exists>t. mbroker_read_pipe_input fd s = Ret (0, t) \<and> serving t x None [] (ms @ map line_text lines) \<and>
     script t = later \<and> sent t = sent s"
proof -
  let ?new = "map line_text lines" and ?name = "47 # x"
  let ?rs = "map (\<lambda>m. (m, [] :: int list)) ?new"
  have new: "list_all message_ok ?new"
  proof -
    have "message_ok (line_text l)" if "l \<in> set lines" for l
      using assms(7) that length_line_text [of l] by (auto simp: message_ok_def)
    then show ?thesis by (simp add: list_all_iff)
  qed
  have len: "length ?name \<le> 32" using assms(3) by (auto simp: client_check_args_def message_sizes split: if_splits)
  have c': "sent c' = (reg, 1 # padded 256 pub @ padded 32 ?name) # map (published_line pub) lines"
    using pub_main_run [OF assms(3), of "c\<lparr>script := publisher_events hp lines\<rparr>" "-1" hp hp lines 0 "[]" program]
      assms(7,9,10,15) by (auto simp: publisher_events_def signed_in_def)
  have "pipe_messages pub (map (published_line pub) lines) = map (\<lambda>m. 9 # padded 1024 m) ?new"
    "pipe_messages reg (map (published_line pub) lines) = []"
    using assms(6) by (induction lines) (auto simp: published_line_def)
  then have pipes: "pipe_messages pub (sent c') = map (\<lambda>m. 9 # padded 1024 m) ?new"
    "pipe_messages reg (sent c') = [1 # padded 256 pub @ padded 32 ?name]"
    using c' assms(6) by auto
  have es: "es = published h ?rs @ [Ready h, Got h []]"
    using session_arrives [of h ?new es] assms(16) pipes(1) new by simp
  let ?es = "Got fd (padded 256 pub) # Got fd (padded 32 ?name) # Result h False #
      published h ?rs @ Ready h # Got h [] # Result 0 False # later"
  have ev: "script s = Ready fd # Got fd [1] # ?es"
    using assms(5,17) pipes(2) len es by (simp add: sign_in_events del: map_map)
  let ?s = "(counted_object s)\<lparr>script := ?es\<rparr>"
  have s: "serving ?s x None [] ms" using assms(1) serving_cong [of ?s s] by simp
  have rs: "rounds_ok [] ?rs" "map fst ?rs = ?new" using new by (simp_all add: rounds_ok_def list_all_iff comp_def)
  obtain t where t: "register_publisher fd ?s = Ret (0, t)" "serving t x None [] (ms @ ?new)"
    "script t = later" "sent t = sent s"
    using register_publisher_run [OF s rs(1) assms(2) _ assms(4,5,11,13,14), of later] assms(8) rs(2)
    by (auto simp: spread_all_def comp_def)
  have "mbroker_read_pipe_input fd s = Ret (0, t)"
    using request_run [OF ev assms(11,12), of register_publisher 0 t] t(1) by (simp add: op_codes)
  with t show ?thesis by blast
qed

text \<open>Both messages are in the pipe before the broker reads the first.\<close>

lemma timing_does_not_matter_witness:
  "\<exists>c' es t. pub_main [[], [114], [112], [47, 97]] ((demo_client [])\<lparr>script := publisher_events 3 [[104, 10], [33]]\<rparr>) = Ret (0, c') \<and>
     arrives 4 (session_calls 2) (concat (pipe_messages [112] (sent c'))) [] es \<and>
     mbroker_read_pipe_input 3 (demo_broker (concat (map (request_events 3) (pipe_messages [114] (sent c'))) @
       Result 4 False # es @ [Result 0 False])) = Ret (0, t) \<and> serving t [97] None [] [[104], [33]]"
proof -
  let ?lines = "[[104, 10], [33]] :: byte list list"
  have args: "client_check_args (Some [114]) (Some [112]) (Some [47, 97]) = 0"
    by (simp add: client_check_args_def message_sizes)
  obtain c' where c': "pub_main [[], [114], [112], [47, 97]] ((demo_client [])\<lparr>script := publisher_events 3 ?lines\<rparr>) = Ret (0, c')"
    "sent c' = ([114], 1 # padded 256 [112] @ padded 32 [47, 97]) # map (published_line [112]) ?lines"
    using pub_main_run [OF args, of "(demo_client [])\<lparr>script := publisher_events 3 ?lines\<rparr>" "-1" 3 3 ?lines 0 "[]" "[]"]
    by (auto simp: publisher_events_def signed_in_def)
  let ?ws = "[9 # padded 1024 [104], 9 # padded 1024 [33]] :: byte list list"
  let ?es = "[Ready 4, Got 4 [9], Got 4 (padded 1024 [104]), Ready 4, Got 4 [9], Got 4 (padded 1024 [33]),
      Ready 4, Got 4 []]"
  have ws: "pipe_messages [112] (sent c') = ?ws" "length ?lines = 2"
    by (simp_all add: c'(2) published_line_def line_text_def)
  have together: "arrives 4 (session_calls 2) (concat ?ws) [] ?es"
    by (simp add: session_calls_def numeral_2_eq_2)
  then have arrived: "arrives 4 (session_calls (length ?lines)) [] (pipe_messages [112] (sent c')) ?es"
    unfolding ws by (intro arrives.written) simp
  let ?s = "demo_broker (concat (map (request_events 3) (pipe_messages [114] (sent c'))) @ Result 4 False # ?es @ [Result 0 False])"
  have "\<exists>t. mbroker_read_pipe_input 3 ?s = Ret (0, t) \<and> serving t [97] None [] ([] @ map line_text ?lines) \<and>
      script t = [] \<and> sent t = sent ?s"
    by (rule timing_does_not_matter [OF demo_broker_ready(3) _ args _ _ _ _ _ _ _ _ _ _ _ c'(1) arrived])
      (simp_all add: demo1_store line_text_def)
  then obtain t where "mbroker_read_pipe_input 3 ?s = Ret (0, t)" "serving t [97] None [] [[104], [33]]"
    by (auto simp: line_text_def)
  with c'(1) together show ?thesis by (metis ws(1))
qed

end
