(* ===== verification/Fs_Threads.thy ===== *)
theory Fs_Threads imports Fs_Props begin

text \<open>
  Threads over one file system, as the tests of the repository start them, and handles of files that are
  gone. Every call of \<^verbatim>\<open>fs/operations.c\<close> holds the mutex of the library from its
  first line to its return, so the calls of the threads follow one another in some order and a step
  is one call.
\<close>

section \<open>Threads\<close>

text \<open>A thread at a call, with how it goes on for each result; a failed \<^verbatim>\<open>assert\<close> ends the process.\<close>

datatype fs_thread = Finished | Failed | Calling fs_call "int \<Rightarrow> fs_thread"

type_synonym fs_threads = "fs \<times> fs_thread list"

inductive fs_step :: "fs_threads \<Rightarrow> nat \<Rightarrow> fs_threads \<Rightarrow> bool" where
  call: "i < length ts \<Longrightarrow> ts ! i = Calling c k \<Longrightarrow> run_call c s = Ret (r, t) \<Longrightarrow>
    fs_step (s, ts) i (t, ts[i := k r])"

inductive_cases fs_stepE: "fs_step (s, ts) i c"

text \<open>The threads run by a schedule: which of them makes the next call.\<close>

inductive fs_runs :: "fs_threads \<Rightarrow> nat list \<Rightarrow> fs_threads \<Rightarrow> bool" where
  stays: "fs_runs c [] c"
| steps: "fs_step c i c' \<Longrightarrow> fs_runs c' schedule c'' \<Longrightarrow> fs_runs c (i # schedule) c''"

inductive_cases fs_runs_NilE: "fs_runs c [] c'" and fs_runs_ConsE: "fs_runs c (i # schedule) c''"

lemma fs_runs_append: "fs_runs c a c' \<Longrightarrow> fs_runs c' b c'' \<Longrightarrow> fs_runs c (a @ b) c''"
  by (induction rule: fs_runs.induct) (auto intro: fs_runs.intros)

text \<open>The calls of a thread are in order: names are strings, buffers are long enough.\<close>

primrec thread_ok :: "fs_thread \<Rightarrow> bool" where
  "thread_ok Finished \<longleftrightarrow> True"
| "thread_ok Failed \<longleftrightarrow> True"
| "thread_ok (Calling c k) \<longleftrightarrow> call_ok c \<and> (\<forall>r. thread_ok (k r))"

text \<open>What the threads do is what one program does that makes the same calls.\<close>

lemma fs_runs_calls:
  assumes "fs_runs (s, ts) schedule (t, ts')" and "list_all thread_ok ts"
  shows "\<exists>cs rs. length cs = length schedule \<and> list_all call_ok cs \<and> run_calls cs s = Ret (rs, t) \<and> list_all thread_ok ts'"
  using assms
proof (induction schedule arbitrary: s ts)
  case Nil
  then show ?case by (auto elim: fs_runs_NilE simp: ret_def)
next
  case (Cons i schedule)
  from Cons.prems(1) obtain c k r u where i: "i < length ts" "ts ! i = Calling c k" "run_call c s = Ret (r, u)"
    and rest: "fs_runs (u, ts[i := k r]) schedule (t, ts')"
    by (fastforce elim: fs_runs_ConsE fs_stepE)
  have "thread_ok (ts ! i)" using Cons.prems(2) i(1) by (simp add: list_all_length)
  then have c: "call_ok c" "thread_ok (k r)" using i(2) by simp_all
  then have "list_all thread_ok (ts[i := k r])"
    using Cons.prems(2) i(1) by (auto simp: list_all_length nth_list_update)
  from Cons.IH [OF rest this] obtain cs rs where
    "length cs = length schedule" "list_all call_ok cs" "run_calls cs u = Ret (rs, t)" "list_all thread_ok ts'" by blast
  then show ?case
    using c i(3) by (intro exI [of _ "c # cs"] exI [of _ "r # rs"]) (simp add: bnd_Ret ret_def)
qed

text \<open>
  C12: however many threads use the file system and however their calls follow one another, after a
  successful \<^verbatim>\<open>tfs_init\<close> the file system satisfies its invariant: the root directory lists exactly the
  inodes in use, files have distinct taken blocks, open handles refer to file inodes. The blocks must be
  so large that \<^verbatim>\<open>malloc\<close> serves them with fresh pages (128 KiB, the default parameters have 1 MiB):
  \<^verbatim>\<open>tfs_init\<close> leaves the names in the unused entries of the directory as they are, and \<^verbatim>\<open>clear_dir_entry\<close>
  compares with them.
\<close>

theorem fs_inv_whatever_the_schedule:
  assumes "good_params p" and "documented_heap h p" and "MMAP_THRESHOLD \<le> max_block_count p * block_size p"
    and "tfs_init h (Some p) fs_static = Ret (0, s)"
    and "list_all thread_ok ts" and "fs_runs (s, ts) schedule (t, ts')"
  shows "fs_inv t"
proof -
  note h = documented_heap_good [OF assms(1-3)]
  have "s = started h p" using tfs_init_run [OF assms(1) h] assms(4) by simp
  then show ?thesis
    using fs_runs_calls [OF assms(6,5)] run_calls_inv started_views(1) [OF assms(1) h] by blast
qed

text \<open>An instance: one of two threads creates a file.\<close>

lemma fs_inv_whatever_the_schedule_witness:
  "\<exists>s t ts'. tfs_init demo_heap (Some tfs_default_params) fs_static = Ret (0, s) \<and>
     fs_runs (s, [Finished, Calling (Open (Some [47, 97]) TFS_O_CREAT) (\<lambda>h. Finished)]) [1] (t, ts') \<and>
     fs_inv t \<and> files t = [[97] \<mapsto> []]"
proof -
  let ?p = tfs_default_params and ?c = "Open (Some [47, 97]) TFS_O_CREAT"
  let ?s = "started demo_heap ?p" and ?ts = "[Finished, Calling ?c (\<lambda>h. Finished)]"
  have p: "good_params ?p" "documented_heap demo_heap ?p" "MMAP_THRESHOLD \<le> max_block_count ?p * block_size ?p"
    "nents ?s = 23"
    by (simp_all add: good_params_def documented_heap_def demo_heap_def tfs_default_params_def MMAP_THRESHOLD_def
        nents_def started_def max_dir_entries_def sizeof_dir_entry_def)
  note good = documented_heap_good [OF p(1-3)]
  note views = started_views [OF p(1) good]
  have "dir_free (fs_data ?s) 0 (nents ?s) = Some 0"
    using p(4) by (auto simp: dir_free_def find_Some_iff live_def started_def nents_def init_entries_fields intro!: exI [of _ 0])
  moreover have "first_free (freeinode_ts ?s) \<noteq> None" "first_free (free_open_file_entries ?s) \<noteq> None"
    by (auto simp: first_free_None started_def tfs_default_params_def in_set_conv_nth intro!: exI [of _ 1])
  ultimately have "can_create [97] ?s" "\<not> open_failed [97] TFS_O_CREAT ?s"
    by (auto simp: can_create_def root_room_def open_failed_def)
  then obtain h t where t: "tfs_open (Some [47, 97]) TFS_O_CREAT ?s = Ret (h, t)" "files t = [[97] \<mapsto> []]"
    using tfs_open_files [OF views(1,3) small_files_started [OF p(1) good], of "[97]" TFS_O_CREAT]
      files_started [OF p(1) good] by (auto simp: spec_open_def)
  then have "fs_step (?s, ?ts) 1 (t, ?ts[1 := Finished])"
    using fs_step.call [of 1 ?ts ?c "\<lambda>h. Finished" ?s h t] by simp
  then have runs: "fs_runs (?s, ?ts) [1] (t, ?ts[1 := Finished])" by (blast intro: fs_runs.intros)
  note init = tfs_init_run [OF p(1) good]
  have "fs_inv t"
    by (rule fs_inv_whatever_the_schedule [OF p(1-3) init _ runs]) (simp add: name_ok_def)
  with init runs t(2) show ?thesis by blast
qed

section \<open>A handle whose file is gone\<close>

lemma create_again:
  assumes inv: "fs_inv s" and m: "\<not> g_library_mutex s" and name: "is_cstring a" "a \<noteq> []"
    and new: "a \<notin> dom (files s)" and run: "tfs_open (Some (47 # a)) TFS_O_CREAT s = Ret (h, t)" "0 \<le> h"
  shows "\<exists>k. first_free (freeinode_ts s) = Some k \<and> freeinode_ts t = (freeinode_ts s)[k := TAKEN] \<and>
     free_blocks t = free_blocks s \<and> fs_params t = fs_params s \<and> root_map t = (root_map s)(a \<mapsto> int k) \<and>
     handle_entry t h = \<lparr>of_inumber = int k, of_offset = 0\<rparr> \<and> handle_open t h \<and> \<not> handle_open s h \<and>
     inode_of t (int k) = empty_file \<and>
     (\<forall>g. g \<noteq> h \<longrightarrow> handle_open s g \<longrightarrow> handle_open t g \<and> handle_entry t g = handle_entry s g)"
proof -
  have none: "root_map s a = None" using new by (auto simp: files_def)
  obtain u where u: "open_new a s = (h, u)" "t = unlocked u"
    using tfs_open_run [OF inv m name] run(1) none by (auto simp: open_result_def split: prod.splits)
  then obtain k i where k: "first_free (freeinode_ts s) = Some k" and i: "dir_free (fs_data s) 0 (nents s) = Some i"
    and len: "length a < 40" and o: "open_entry (int k) 0 (create_file k i a s) = (h, u)"
    using run(2) by (auto simp: open_new_def split: option.splits if_splits)
  let ?c = "create_file k i a s"
  have c: "fs_inv ?c" using create_file_inv [OF inv k i name len none] .
  note oh = open_entry_handle [OF fs_invD(6) [OF c] o] and ov = open_entry_views [OF o]
  have tables: "freeinode_ts u = freeinode_ts ?c" "free_blocks u = free_blocks ?c" "fs_params u = fs_params ?c"
    using o by (auto simp: open_entry_def split: option.splits)
  have same: "freeinode_ts ?c = (freeinode_ts s)[k := TAKEN]" "free_blocks ?c = free_blocks s"
    "fs_params ?c = fs_params s" "handle_open ?c = handle_open s" "handle_entry ?c = handle_entry s"
    by (simp_all add: create_file_def reset_inode_def fun_eq_iff handle_open_def valid_file_handle_def handle_entry_def)
  have "inode_of ?c (int k) = empty_file"
    using fresh_slot [OF inv k] by (simp add: create_file_def reset_inode_def)
  then show ?thesis
    using k oh ov(1,4) tables same create_file_views(1) [OF inv k i name len none] run(2) u(2)
    by (auto split: if_splits)
qed

lemma unlink_empty:
  assumes inv: "fs_inv s" and m: "\<not> g_library_mutex s" and name: "is_cstring a" "a \<noteq> []"
    and k: "root_map s a = Some k" and empty: "files s a = Some []"
    and run: "tfs_unlink (Some (47 # a)) s = Ret (r, t)"
  shows "freeinode_ts t = (freeinode_ts s)[nat k := FREE]" and "free_blocks t = free_blocks s"
    and "fs_params t = fs_params s" and "handle_open t = handle_open s" and "handle_entry t = handle_entry s"
    and "free_open_file_entries t = free_open_file_entries s"
proof -
  obtain i where i: "dir_find (fs_data s) 0 (nents s) a = Some i" "d_inumber (fs_data s) 0 i = k"
    using k by (auto simp: root_map_def dir_map_def)
  have t: "t = unlocked (delete_file k i s)"
    using tfs_unlink_run [OF inv m name] run i by (simp add: unlink_result_def)
  have "length (content s k) = 0" using k empty by (simp add: files_def)
  then have "i_size (inode_of s k) = 0" by (simp only: content_def length_mem_read)
  then show "freeinode_ts t = (freeinode_ts s)[nat k := FREE]" "free_blocks t = free_blocks s"
    "fs_params t = fs_params s" "handle_open t = handle_open s" "handle_entry t = handle_entry s"
    "free_open_file_entries t = free_open_file_entries s"
    by (simp_all add: t delete_file_def fun_eq_iff handle_open_def valid_file_handle_def handle_entry_def)
qed

text \<open>
  C33: a handle outlives its file and then belongs to another one. Unlinking a file that is open frees its
  inode and succeeds; the next file that is created gets that inode, and what is written through the old
  handle is then the contents of the new file.
\<close>

theorem handle_outlives_its_file:
  assumes inv: "fs_inv s" and m: "\<not> g_library_mutex s" and small: "small_files s"
    and a: "is_cstring a" "a \<noteq> []" "a \<notin> dom (files s)" and b: "is_cstring b" "b \<noteq> []" "b \<notin> dom (files s)"
    and one: "tfs_open (Some (47 # a)) TFS_O_CREAT s = Ret (h, s1)" "0 \<le> h"
    and gone: "tfs_unlink (Some (47 # a)) s1 = Ret (r, s2)"
    and two: "tfs_open (Some (47 # b)) TFS_O_CREAT s2 = Ret (h', s3)" "0 \<le> h'"
    and len: "0 < len" "len \<le> length buffer" "len \<le> block_size (fs_params s)"
    and room: "taken (free_blocks s) < max_block_count (fs_params s)"
  shows "r = 0 \<and> h' \<noteq> h \<and> (\<exists>t. tfs_write h buffer len s3 = Ret (int len, t) \<and>
     files t = (files s)(b \<mapsto> take len buffer))"
proof -
  obtain k where k: "first_free (freeinode_ts s) = Some k" "freeinode_ts s1 = (freeinode_ts s)[k := TAKEN]"
    "free_blocks s1 = free_blocks s" "fs_params s1 = fs_params s" "root_map s1 = (root_map s)(a \<mapsto> int k)"
    "handle_entry s1 h = \<lparr>of_inumber = int k, of_offset = 0\<rparr>" "handle_open s1 h"
    using create_again [OF inv m a one] by blast
  have s1: "fs_inv s1" "\<not> g_library_mutex s1" "small_files s1" "files s1 = (files s)(a \<mapsto> [])"
    using tfs_open_files [OF inv m small a(1,2), of TFS_O_CREAT] one a(3)
    by (auto simp: spec_open_def open_failed_def domIff split: if_splits option.splits)
  have s2: "fs_inv s2" "\<not> g_library_mutex s2" "small_files s2" "files s2 = files s" "r = 0"
    using tfs_unlink_files [OF s1(1-3) a(1,2)] gone s1(4) a(3) by (auto simp: domIff fun_upd_idem)
  have u: "freeinode_ts s2 = freeinode_ts s" "free_blocks s2 = free_blocks s" "fs_params s2 = fs_params s"
    "handle_open s2 h" "handle_entry s2 h = \<lparr>of_inumber = int k, of_offset = 0\<rparr>"
    using unlink_empty [OF s1(1,2) a(1,2) _ _ gone] s1(4) k by (auto simp: first_free_Some list_update_same_conv)
  have b2: "b \<notin> dom (files s2)" using b(3) s2(4) by simp
  have s3: "h' \<noteq> h" "root_map s3 b = Some (int k)" "free_blocks s3 = free_blocks s" "fs_params s3 = fs_params s"
    "handle_open s3 h" "handle_entry s3 h = \<lparr>of_inumber = int k, of_offset = 0\<rparr>"
    using create_again [OF s2(1,2) b(1,2) b2 two] k(1) u by auto
  have f3: "fs_inv s3" "\<not> g_library_mutex s3" "small_files s3" "files s3 = (files s)(b \<mapsto> [])"
    using tfs_open_files [OF s2(1-3) b(1,2), of TFS_O_CREAT] two b(3) s2(4)
    by (auto simp: spec_open_def open_failed_def domIff split: if_splits option.splits)
  have "\<exists>t. tfs_write h buffer len s3 = Ret (int len, t) \<and> files t = (files s)(b \<mapsto> take len buffer)"
    using tfs_write_spec [OF f3(1-3) s3(5), of b "[]" len buffer] s3 f3(4) len room
    by (auto simp: overwrite_def)
  with s2(5) s3(1) show ?thesis by blast
qed

lemma handle_outlives_its_file_witness:
  "\<exists>s2 s3 h' t. tfs_open (Some [47, 97]) TFS_O_CREAT demo = Ret (0, demo1) \<and> tfs_unlink (Some [47, 97]) demo1 = Ret (0, s2) \<and>
     tfs_open (Some [47, 98]) TFS_O_CREAT s2 = Ret (h', s3) \<and>
     tfs_write 0 [104, 105] 2 s3 = Ret (2, t) \<and> files t = [[98] \<mapsto> [104, 105]]"
proof -
  have open_a: "tfs_open (Some (47 # [97])) TFS_O_CREAT demo = Ret (0, demo1)" using demo1_run by simp
  obtain s2 where s2: "tfs_unlink (Some (47 # [97])) demo1 = Ret (0, s2)" "fs_inv s2" "\<not> g_library_mutex s2" "small_files s2"
    "files s2 = Map.empty"
    using tfs_unlink_files [OF demo1_state(1-3), of "[97]"] by (auto simp: demo1_state(4))
  have k: "root_map demo1 [97] = Some 1" using demo1_state(6) by (simp add: demo1_fields)
  have u: "freeinode_ts s2 = (freeinode_ts demo1)[1 := FREE]" "fs_params s2 = demo_params"
    "free_open_file_entries s2 = free_open_file_entries demo1"
    using unlink_empty [OF demo1_state(1,2) _ _ k _ s2(1)] demo1_state(4) demo1_fields(1) by simp_all
  have ino: "freeinode_ts s2 = [TAKEN, FREE, FREE, FREE]"
    by (simp add: u demo1_def create_file_def reset_inode_def demo_def started_def demo_params_def demo_lists)
  have "\<not> listed s2 j" for j
    using fs_invD(2) [OF s2(2)] ino
    by (auto simp: inv_listed_def inode_taken_def valid_inumber_def u demo_params_def nth_Cons' split: if_splits)
  moreover have "0 < nents s2" by (simp add: nents_def u demo_params_def max_dir_entries_def sizeof_dir_entry_def)
  ultimately have "root_room s2" by (auto simp: root_room_def dir_free_def find_None_iff listed_def)
  then have "can_create [98] s2" using ino by (simp add: can_create_def first_free_None)
  moreover have "first_free (free_open_file_entries s2) \<noteq> None" by (simp add: u demo1_def first_free_None)
  ultimately have "\<not> open_failed [98] TFS_O_CREAT s2" by (simp add: open_failed_def)
  then obtain h' s3 where open_b: "tfs_open (Some (47 # [98])) TFS_O_CREAT s2 = Ret (h', s3)" "0 \<le> h'"
    using tfs_open_files [OF s2(2-4), of "[98]" TFS_O_CREAT] by auto
  have room: "taken (free_blocks demo) < max_block_count (fs_params demo)" "2 \<le> block_size (fs_params demo)"
    by (simp_all add: taken_def demo_def started_def demo_params_def demo_lists)
  from handle_outlives_its_file [OF demo_state(1,5,4) _ _ _ _ _ _ open_a _ s2(1) open_b _ _ room(2,1), of "[104, 105]"]
  show ?thesis using open_a s2(1) open_b by (auto simp: demo_state(2))
qed

end
