(* ===== verification/Fs_Tests.thy ===== *)
theory Fs_Tests imports Fs_Threads Box_Store begin

text \<open>
  The tests of the repository that only use calls which exist: \<^verbatim>\<open>tests/test1.c\<close>,
  \<^verbatim>\<open>tests/t1_2_6_remove_file_create_new.c\<close>, \<^verbatim>\<open>tests/thread_read_write.c\<close> and
  \<^verbatim>\<open>tests/thread_write_unlink.c\<close>, and what they come to when they are run.
\<close>

section \<open>The tests of one thread\<close>

text \<open>\<^verbatim>\<open>assert\<close> of C names the line and the condition that is not met.\<close>

definition c_assert :: "bool \<Rightarrow> string \<Rightarrow> (fs, unit) prog" where
  "c_assert c msg = always_assert c msg"

text \<open>The file \<^verbatim>\<open>/f1\<close> and the bytes of \<^verbatim>\<open>AAA!\<close> and \<^verbatim>\<open>Hello World!\<close>, each with its NUL.\<close>

definition f1 :: cstring where "f1 = [102, 49]"

definition test_path :: "cstring option" where "test_path = Some (47 # f1)"

definition str :: "byte list" where "str = [65, 65, 65, 33, 0]"

definition file_contents :: "byte list" where
  "file_contents = [72, 101, 108, 108, 111, 32, 87, 111, 114, 108, 100, 33, 0]"

text \<open>
  \<^verbatim>\<open>main\<close> of \<^verbatim>\<open>tests/test1.c\<close>, up to its call of \<^verbatim>\<open>tfs_read\<close> and whole; \<open>buffer\<close> is its array of 40 bytes.
\<close>

definition test1_opened :: "c_heap \<Rightarrow> (fs, int) prog" where
  "test1_opened h =
     bnd (tfs_init h None) (\<lambda>r.
     thn (c_assert (r \<noteq> -1) ''test1.c:12: tfs_init(NULL) != -1'')
    (bnd (tfs_open test_path TFS_O_CREAT) (\<lambda>f.
     thn (c_assert (f \<noteq> -1) ''test1.c:18: f != -1'')
    (bnd (tfs_write f str 4) (\<lambda>r.
     thn (c_assert (r = 4) ''test1.c:21: r == strlen(str)'')
    (bnd (tfs_close f) (\<lambda>c.
     thn (c_assert (c \<noteq> -1) ''test1.c:23: tfs_close(f) != -1'')
    (bnd (tfs_open test_path 0) (\<lambda>f.
     thn (c_assert (f \<noteq> -1) ''test1.c:26: f != -1'')
         (ret f))))))))))"

definition test1 :: "c_heap \<Rightarrow> byte list \<Rightarrow> (fs, int) prog" where
  "test1 h buffer =
     bnd (test1_opened h) (\<lambda>f.
     bnd (tfs_read f 39) (\<lambda>(r, bytes).
     thn (c_assert (r = 4) ''test1.c:29: r == strlen(str)'')
    (thn (c_assert (cstr ((bytes @ drop (length bytes) buffer)[nat r := 0]) = cstr str) ''test1.c:32: strcmp(buffer, str) == 0'')
    (bnd (tfs_close f) (\<lambda>c.
     thn (c_assert (c \<noteq> -1) ''test1.c:34: tfs_close(f) != -1'')
         (ret 0))))))"

text \<open>\<^verbatim>\<open>main\<close> of \<^verbatim>\<open>tests/t1_2_6_remove_file_create_new.c\<close>: a file system of two inodes and two blocks.\<close>

definition small_params :: tfs_params where
  "small_params = tfs_default_params\<lparr>max_inode_count := 2, max_block_count := 2\<rparr>"

definition remove_file_create_new :: "c_heap \<Rightarrow> (fs, int) prog" where
  "remove_file_create_new h =
     bnd (tfs_init h (Some small_params)) (\<lambda>r.
     thn (c_assert (r \<noteq> -1) ''t1_2_6_remove_file_create_new.c:12: tfs_init(&params) != -1'')
    (bnd (tfs_open test_path TFS_O_CREAT) (\<lambda>fd.
     thn (c_assert (fd \<noteq> -1) ''t1_2_6_remove_file_create_new.c:16: fd != -1'')
    (bnd (tfs_write fd file_contents 13) (\<lambda>w.
     thn (c_assert (w \<noteq> 0) ''t1_2_6_remove_file_create_new.c:21: tfs_write(fd, write_contents, sizeof(write_contents))'')
    (bnd (tfs_close fd) (\<lambda>c.
     thn (c_assert (c \<noteq> -1) ''t1_2_6_remove_file_create_new.c:23: tfs_close(fd) != -1'')
    (bnd (tfs_unlink test_path) (\<lambda>u.
     thn (c_assert (u \<noteq> -1) ''t1_2_6_remove_file_create_new.c:26: tfs_unlink(path) != -1'')
    (bnd (tfs_open test_path TFS_O_CREAT) (\<lambda>fd.
     thn (c_assert (fd \<noteq> -1) ''t1_2_6_remove_file_create_new.c:30: fd != -1'')
    (bnd (tfs_read fd 13) (\<lambda>(r, bytes).
     thn (c_assert (r = 0) ''t1_2_6_remove_file_create_new.c:34: tfs_read(fd, read_contents, sizeof(read_contents)) == 0'')
         (ret 0))))))))))))))"

section \<open>Threads\<close>

text \<open>\<^verbatim>\<open>sizeof\<close> of the pointer \<^verbatim>\<open>file_contents\<close> is 8: that many bytes are written and read.\<close>

definition asserting :: "bool \<Rightarrow> fs_thread \<Rightarrow> fs_thread" where
  "asserting c t = (if c then t else Failed)"

definition thread_func_write :: fs_thread where
  "thread_func_write =
     Calling (Open test_path TFS_O_CREAT) (\<lambda>f. asserting (f \<noteq> -1)
    (Calling (Write f file_contents 8) (\<lambda>r. asserting (r = 8)
    (Calling (Close f) (\<lambda>c. asserting (c \<noteq> -1) Finished)))))"

definition thread_func_read :: fs_thread where
  "thread_func_read =
     Calling (Open test_path 0) (\<lambda>f. asserting (f \<noteq> -1)
    (Calling (Read f 8) (\<lambda>r. asserting (r = 8)
    (Calling (Close f) (\<lambda>c. asserting (c \<noteq> -1) Finished)))))"

definition thread_func_unlink :: fs_thread where
  "thread_func_unlink = Calling (Unlink test_path) (\<lambda>r. asserting (r \<noteq> -1) Finished)"

text \<open>The threads that \<^verbatim>\<open>main\<close> of each test starts after \<^verbatim>\<open>tfs_init\<close>, in the order of their creation.\<close>

definition read_write_threads :: "fs_thread list" where
  "read_write_threads = [thread_func_write, thread_func_write, thread_func_read, thread_func_read]"

definition write_unlink_threads :: "fs_thread list" where
  "write_unlink_threads = [thread_func_write, thread_func_write, thread_func_unlink, thread_func_unlink]"

section \<open>Opening, creating and reading, for the tests\<close>

lemma open_at_0:
  assumes "tfs_ready s" and "files s x = Some c" and "is_cstring x" and "x \<noteq> []" and "0 < tfs_spare s"
    and "\<not> has_flag mode TFS_O_TRUNC" and "\<not> has_flag mode TFS_O_APPEND"
  shows "\<exists>h t. tfs_open (Some (47 # x)) mode s = Ret (h, t) \<and> 0 \<le> h \<and> tfs_ready t \<and> files t = files s \<and>
     tfs_positioned t h x 0 \<and> tfs_spare s = Suc (tfs_spare t) \<and> tfs_limit t = tfs_limit s"
proof -
  have s: "fs_inv s" "\<not> g_library_mutex s" "small_files s" using assms(1) by (simp_all add: tfs_ready_def)
  have "\<not> open_failed x mode s" using assms(2,5) tfs_spare_None [of s] by (auto simp: open_failed_def)
  then obtain h t where t: "tfs_open (Some (47 # x)) mode s = Ret (h, t)" "0 \<le> h" "tfs_ready t"
    "files t = files s" "tfs_positioned t h x 0"
    using tfs_open_files [OF s assms(3,4), of mode] assms(2,6,7)
    by (auto simp: spec_open_def tfs_ready_def tfs_positioned_def)
  with tfs_open_spare [OF assms(1,3,4,6) t(1)] tfs_open_params [OF s(1,2) assms(3,4) t(1)]
  show ?thesis by (auto simp: tfs_limit_def)
qed

lemma create_at_0:
  assumes "tfs_ready s" and "x \<notin> dom (files s)" and "is_cstring x" and "x \<noteq> []" and "0 < tfs_spare s"
    and "can_create x s"
  shows "\<exists>h t. tfs_open (Some (47 # x)) TFS_O_CREAT s = Ret (h, t) \<and> 0 \<le> h \<and> tfs_ready t \<and>
     files t = (files s)(x \<mapsto> []) \<and> tfs_positioned t h x 0 \<and> tfs_spare s = Suc (tfs_spare t) \<and>
     tfs_limit t = tfs_limit s \<and> tfs_has_block t = tfs_has_block s"
proof -
  have s: "fs_inv s" "\<not> g_library_mutex s" "small_files s" using assms(1) by (simp_all add: tfs_ready_def)
  have "\<not> open_failed x TFS_O_CREAT s" using assms(5,6) tfs_spare_None [of s] by (auto simp: open_failed_def)
  then obtain h t where t: "tfs_open (Some (47 # x)) TFS_O_CREAT s = Ret (h, t)" "0 \<le> h" "tfs_ready t"
    "files t = (files s)(x \<mapsto> [])" "tfs_positioned t h x 0"
    using tfs_open_files [OF s assms(3,4), of TFS_O_CREAT] assms(2,6)
    by (auto simp: spec_open_def tfs_ready_def tfs_positioned_def domIff)
  with tfs_open_spare [OF assms(1,3,4) _ t(1)] create_again [OF s(1,2) assms(3,4,2) t(1,2)]
  show ?thesis by (auto simp: tfs_limit_def tfs_has_block_def)
qed

text \<open>A read that goes past the end of a file but not past its block.\<close>

lemma read_past_end:
  assumes "tfs_ready s" and "tfs_positioned s h x k" and "files s x = Some c" and "c \<noteq> []"
    and "0 < n" and "k + n \<le> tfs_limit s"
  shows "\<exists>bytes t. tfs_read h n s = Ret ((int n, bytes), t) \<and> length bytes = n"
proof -
  have s: "fs_inv s" "\<not> g_library_mutex s" and h: "handle_open s h"
    "root_map s x = Some (of_inumber (handle_entry s h))" "of_offset (handle_entry s h) = k"
    using assms(1,2) by (simp_all add: tfs_ready_def tfs_positioned_def)
  let ?n = "inode_of s (of_inumber (handle_entry s h))"
  have "length (content s (of_inumber (handle_entry s h))) \<noteq> 0" using assms(3,4) h(2) by (simp add: files_def)
  then have size: "0 < i_size ?n" by (simp add: content_def)
  then have b: "0 < i_data_block ?n" "valid_block_number (i_data_block ?n) s"
    using open_handle_facts(3) [OF s(1) h(1)] by (simp_all add: file_inode_ok_def)
  then have "nat (i_data_block ?n) < max_block_count (fs_params s)" by (auto simp: valid_block_number_def)
  from write_in_bounds [OF fs_invD(6) [OF s(1)] this, of "k + n"] assms(6)
  have "block_addr s (i_data_block ?n) + k + n \<le> fs_data_size s" by (simp add: block_addr_def tfs_limit_def)
  then show ?thesis using read_ignores_size [OF s h(1) assms(5)] b(1) size h(3) by auto
qed

lemma empty_root_room:
  assumes "fs_inv s" and "files s = Map.empty" and "0 < nents s"
  shows "root_room s"
proof -
  have "\<not> live (fs_data s) 0 0"
  proof
    assume "live (fs_data s) 0 0"
    then have "dir_find (fs_data s) 0 (nents s) (ename (fs_data s) 0 0) = Some 0"
      using dir_find_Some [OF fs_invD(9) [OF assms(1)]] assms(3) by blast
    then have "files s (ename (fs_data s) 0 0) \<noteq> None" by (simp add: files_def root_map_def dir_map_def)
    then show False using assms(2) by simp
  qed
  then show ?thesis using assms(3) by (auto simp: root_room_def dir_free_def find_None_iff)
qed

lemma started_state:
  assumes p: "good_params p" "good_heap h p" and n: "1 < max_inode_count p" "1 < max_block_count p"
    and "0 < max_dir_entries p" and "length x < 40"
  shows "tfs_ready (started h p)" and "files (started h p) = Map.empty" and "can_create x (started h p)"
    and "tfs_has_block (started h p)" and "tfs_spare (started h p) = max_open_files_count p"
    and "tfs_limit (started h p) = block_size p" and "fs_params (started h p) = p"
proof -
  show "tfs_ready (started h p)" "files (started h p) = Map.empty"
    using started_views [OF p] files_started [OF p] small_files_started [OF p] by (simp_all add: tfs_ready_def)
  then have "root_room (started h p)"
    using empty_root_room [of "started h p"] assms(5) by (simp add: tfs_ready_def nents_def started_def)
  moreover have "\<not> (\<forall>i < max_inode_count p. ((replicate (max_inode_count p) FREE)[0 := TAKEN]) ! i = TAKEN)"
    using n(1) by (auto intro!: exI [of _ 1])
  ultimately show "can_create x (started h p)"
    using assms(6) by (auto simp: can_create_def first_free_None started_def list_all_length in_set_conv_nth)
  have "taken ((replicate (max_block_count p) FREE)[0 := TAKEN]) = 1"
    using taken_Suc [OF first_free_replicate [of "max_block_count p"]] n(2) by (simp add: taken_def)
  then show "tfs_has_block (started h p)" using n(2) by (simp add: tfs_has_block_def started_def)
  show "tfs_spare (started h p) = max_open_files_count p" "tfs_limit (started h p) = block_size p"
    "fs_params (started h p) = p"
    by (simp_all add: tfs_spare_def tfs_limit_def started_def taken_def)
qed

text \<open>Unlinking a file, whatever it holds, gives its inode back and changes no handle.\<close>

lemma unlink_tables:
  assumes inv: "fs_inv s" and m: "\<not> g_library_mutex s" and name: "is_cstring a" "a \<noteq> []"
    and k: "root_map s a = Some k" and run: "tfs_unlink (Some (47 # a)) s = Ret (r, t)"
  shows "first_free (freeinode_ts t) \<noteq> None" and "tfs_limit t = tfs_limit s" and "tfs_spare t = tfs_spare s"
proof -
  obtain i where i: "dir_find (fs_data s) 0 (nents s) a = Some i" "d_inumber (fs_data s) 0 i = k"
    using k by (auto simp: root_map_def dir_map_def)
  have t: "t = unlocked (delete_file k i s)"
    using tfs_unlink_run [OF inv m name] run i by (simp add: unlink_result_def)
  have "nat k < length (freeinode_ts s)"
    using valid_inumber_index [OF fs_invD(6) [OF inv] root_map_taken(3) [OF inv k]] by simp
  then have "FREE \<in> set ((freeinode_ts s)[nat k := FREE])" by (rule set_update_memI)
  then show "first_free (freeinode_ts t) \<noteq> None" by (auto simp: t delete_file_def first_free_None)
  show "tfs_limit t = tfs_limit s" "tfs_spare t = tfs_spare s"
    by (simp_all add: t delete_file_def tfs_limit_def tfs_spare_def)
qed

lemma f1_name: "is_cstring f1" "f1 \<noteq> []" "length f1 < 40"
  by (simp_all add: f1_def)

section \<open>The tests of one thread fail\<close>

lemma c_assert_run: "c_assert c msg = (\<lambda>s. if c then Ret ((), s) else Panic msg)"
  by (simp add: c_assert_def always_assert_def)

lemma default_params: "good_params tfs_default_params" "max_open_files_count tfs_default_params = 16"
  "max_block_count tfs_default_params = 1024" "max_inode_count tfs_default_params = 64"
  "block_size tfs_default_params = 1024" "0 < max_dir_entries tfs_default_params"
  by (simp_all add: good_params_def tfs_default_params_def max_dir_entries_def sizeof_dir_entry_def)

text \<open>
  C35: the first test of the repository fails at its call of \<^verbatim>\<open>tfs_read\<close>. Everything before works: it writes
  4 bytes into a new file and opens it again, at its start. It reads with room for 39; \<^verbatim>\<open>tfs_read\<close> does not
  stop at the end of the file and returns 39, and the assertion behind it, that these are 4, fails.
\<close>

theorem test1_fails:
  assumes "good_heap h tfs_default_params"
  shows "\<exists>f s bytes t. test1_opened h fs_static = Ret (f, s) \<and> files s f1 = Some [65, 65, 65, 33] \<and>
     tfs_positioned s f f1 0 \<and> tfs_read f 39 s = Ret ((39, bytes), t) \<and>
     test1 h buffer fs_static = Panic ''test1.c:29: r == strlen(str)''"
proof -
  let ?s = "started h tfs_default_params"
  note S = started_state [OF default_params(1) assms _ _ default_params(6) f1_name(3)]
  have init: "tfs_init h None fs_static = Ret (0, ?s)"
    using tfs_init_run [OF default_params(1) assms] by (simp add: tfs_init_def)
  obtain f s1 where o: "tfs_open test_path TFS_O_CREAT ?s = Ret (f, s1)" "0 \<le> f" and s1: "tfs_ready s1" "files s1 f1 = Some []"
    "tfs_positioned s1 f f1 0" "tfs_spare s1 = 15" "tfs_limit s1 = 1024" "tfs_has_block s1"
    using create_at_0 [OF S(1) _ f1_name(1,2) _ S(3)] S default_params by (auto simp: test_path_def)
  obtain s2 where w: "tfs_write f str 4 s1 = Ret (4, s2)" and s2: "tfs_ready s2" "files s2 f1 = Some [65, 65, 65, 33]"
    "tfs_positioned s2 f f1 4" "tfs_spare s2 = 15" "tfs_limit s2 = 1024"
    using tfs_write_at [OF s1(1,3,2), of 4 str] s1 by (auto simp: overwrite_def str_def)
  obtain s3 where c: "tfs_close f s2 = Ret (0, s3)" and s3: "tfs_ready s3" "files s3 f1 = Some [65, 65, 65, 33]"
    "tfs_spare s3 = 16" "tfs_limit s3 = 1024"
    using tfs_close_law [OF s2(1,3)] s2 by auto
  obtain g s4 where o': "tfs_open test_path 0 s3 = Ret (g, s4)" "0 \<le> g" and s4: "tfs_ready s4"
    "files s4 f1 = Some [65, 65, 65, 33]" "tfs_positioned s4 g f1 0" "tfs_limit s4 = 1024"
    using open_at_0 [OF s3(1,2) f1_name(1,2), of 0] s3 by (auto simp: test_path_def)
  obtain bytes t where r: "tfs_read g 39 s4 = Ret ((39, bytes), t)"
    using read_past_end [OF s4(1,3,2), of 39] s4(4) by auto
  have opened: "test1_opened h fs_static = Ret (g, s4)"
    using o(2) o'(2) by (simp add: test1_opened_def bnd_Ret init o(1) w c o'(1) c_assert_run ret_def)
  then have "test1 h buffer fs_static = Panic ''test1.c:29: r == strlen(str)''"
    by (simp add: test1_def bnd_Ret r c_assert_run) (simp add: bnd_def)
  with opened s4(2,3) r show ?thesis by blast
qed

lemma test1_fails_witness: "test1 demo_heap (replicate 40 0) fs_static = Panic ''test1.c:29: r == strlen(str)''"
proof -
  have "good_heap demo_heap tfs_default_params" by (simp add: good_heap_def demo_heap_def)
  from test1_fails [OF this] show ?thesis by blast
qed

text \<open>
  The test that removes a file and creates it again fails. It expects to read nothing from the new
  file; \<^verbatim>\<open>tfs_read\<close> does not look at the size and fails its assertion on the block that the file does not
  have. Its file system of 2 KiB has the names of its directory in memory that \<^verbatim>\<open>malloc\<close> need not clear; the
  lemma is for memory that starts with zeros there.
\<close>

theorem remove_file_create_new_fails:
  assumes "good_heap h small_params"
  shows "remove_file_create_new h fs_static = Panic ''data_block_get: invalid block number''"
proof -
  have p: "good_params small_params" "max_open_files_count small_params = 16" "max_block_count small_params = 2"
    "max_inode_count small_params = 2" "block_size small_params = 1024" "0 < max_dir_entries small_params"
    by (simp_all add: small_params_def good_params_def tfs_default_params_def max_dir_entries_def sizeof_dir_entry_def)
  let ?s = "started h small_params"
  note S = started_state [OF p(1) assms _ _ p(6) f1_name(3)]
  have init: "tfs_init h (Some small_params) fs_static = Ret (0, ?s)" by (rule tfs_init_run [OF p(1) assms])
  obtain f s1 where o: "tfs_open test_path TFS_O_CREAT ?s = Ret (f, s1)" "0 \<le> f" and s1: "tfs_ready s1" "files s1 = [f1 \<mapsto> []]"
    "tfs_positioned s1 f f1 0" "tfs_spare s1 = 15" "tfs_limit s1 = 1024" "tfs_has_block s1"
    using create_at_0 [OF S(1) _ f1_name(1,2) _ S(3)] S p by (auto simp: test_path_def)
  obtain s2 where w: "tfs_write f file_contents 13 s1 = Ret (13, s2)" and s2: "tfs_ready s2"
    "files s2 = [f1 \<mapsto> file_contents]" "tfs_positioned s2 f f1 13" "tfs_spare s2 = 15" "tfs_limit s2 = 1024"
    using tfs_write_at [OF s1(1,3), of "[]" 13 file_contents] s1 by (auto simp: overwrite_def file_contents_def)
  obtain s3 where c: "tfs_close f s2 = Ret (0, s3)" and s3: "tfs_ready s3" "files s3 = [f1 \<mapsto> file_contents]"
    "tfs_spare s3 = 16" "tfs_limit s3 = 1024"
    using tfs_close_law [OF s2(1,3)] s2 by auto
  have r3: "fs_inv s3" "\<not> g_library_mutex s3" "small_files s3" using s3(1) by (simp_all add: tfs_ready_def)
  obtain s4 where u: "tfs_unlink test_path s3 = Ret (0, s4)" and s4: "fs_inv s4" "\<not> g_library_mutex s4" "small_files s4"
    "files s4 = Map.empty"
    using tfs_unlink_files [OF r3 f1_name(1,2)] s3(2) by (auto simp: test_path_def)
  obtain k where k: "root_map s3 f1 = Some k" using s3(2) by (auto simp: files_def fun_eq_iff split: if_splits)
  note gone = unlink_tables [OF r3(1,2) f1_name(1,2) k, of 0 s4]
  have "0 < nents s4" using gone(2) u s3(4) by (simp add: test_path_def tfs_limit_def nents_def max_dir_entries_def sizeof_dir_entry_def)
  then have free: "can_create f1 s4" "first_free (free_open_file_entries s4) \<noteq> None"
    using gone(1,3) u s3(3) empty_root_room [OF s4(1,4)] f1_name(3) tfs_spare_None [of s4]
    by (simp_all add: test_path_def can_create_def)
  then have "\<not> open_failed f1 TFS_O_CREAT s4" by (simp add: open_failed_def)
  then obtain g s5 where o': "tfs_open test_path TFS_O_CREAT s4 = Ret (g, s5)" "0 \<le> g" and s5: "fs_inv s5" "\<not> g_library_mutex s5"
    "handle_open s5 g"
    using tfs_open_files [OF s4(1-3) f1_name(1,2), of TFS_O_CREAT] by (auto simp: test_path_def)
  have "i_data_block (inode_of s5 (of_inumber (handle_entry s5 g))) = -1"
    using create_again [OF s4(1,2) f1_name(1,2) _ _ o'(2), of s5] o'(1) s4(4) by (auto simp: test_path_def empty_file_def)
  then have r: "tfs_read g 13 s5 = Panic ''data_block_get: invalid block number''"
    using read_ignores_size [OF s5(1-3), of 13] by simp
  show ?thesis
    using o(2) o'(2)
    by (simp add: remove_file_create_new_def bnd_Ret init o(1) w c u o'(1) c_assert_run) (simp add: bnd_def r)
qed

lemma remove_file_create_new_fails_witness:
  "remove_file_create_new demo_heap fs_static = Panic ''data_block_get: invalid block number''"
  by (rule remove_file_create_new_fails) (simp add: good_heap_def demo_heap_def small_params_def tfs_default_params_def)

section \<open>The tests of several threads depend on the schedule\<close>

lemma one_call:
  "i < length ts \<Longrightarrow> ts ! i = Calling c k \<Longrightarrow> run_call c s = Ret (r, t) \<Longrightarrow> fs_runs (s, ts) [i] (t, ts[i := k r])"
  by (blast intro: fs_runs.intros fs_step.intros)

lemma three_calls:
  assumes "i < length ts"
    and "ts ! i = Calling c (\<lambda>r. asserting (p r) (Calling (c' r) (\<lambda>r'. asserting (p' r')
      (Calling (c'' r) (\<lambda>r''. asserting (p'' r'') Finished)))))"
    and "run_call c s = Ret (r, s1)" and "run_call (c' r) s1 = Ret (r', s2)" and "run_call (c'' r) s2 = Ret (r'', t)"
    and "p r" and "p' r'" and "p'' r''"
  shows "fs_runs (s, ts) [i, i, i] (t, ts[i := Finished])"
proof -
  let ?third = "Calling (c'' r) (\<lambda>r''. asserting (p'' r'') Finished)"
  let ?second = "Calling (c' r) (\<lambda>r'. asserting (p' r') ?third)"
  have 1: "fs_runs (s, ts) [i] (s1, ts[i := ?second])"
    using one_call [OF assms(1-3)] assms(6) by (simp add: asserting_def)
  have 2: "fs_runs (s1, ts[i := ?second]) [i] (s2, ts[i := ?third])"
    using one_call [OF _ _ assms(4), of i "ts[i := ?second]"] assms(1,7) by (simp add: asserting_def)
  have 3: "fs_runs (s2, ts[i := ?third]) [i] (t, ts[i := Finished])"
    using one_call [OF _ _ assms(5), of i "ts[i := ?third]"] assms(1,8) by (simp add: asserting_def)
  show ?thesis using fs_runs_append [OF fs_runs_append [OF 1 2] 3] by simp
qed

text \<open>A state from which each of the threads can run to its end: the file is new, or holds 8 bytes.\<close>

definition writable :: "fs \<Rightarrow> bool" where
  "writable s \<longleftrightarrow> tfs_ready s \<and> 0 < tfs_spare s \<and> 8 \<le> tfs_limit s \<and>
     (files s f1 = None \<and> can_create f1 s \<and> tfs_has_block s \<or> (\<exists>c. files s f1 = Some c \<and> length c = 8))"

definition readable :: "fs \<Rightarrow> bool" where
  "readable s \<longleftrightarrow> writable s \<and> files s f1 \<noteq> None"

lemma opened_for_writing:
  assumes "writable s"
  shows "\<exists>f t c. tfs_open test_path TFS_O_CREAT s = Ret (f, t) \<and> 0 \<le> f \<and> tfs_ready t \<and> files t f1 = Some c \<and>
     (c = [] \<and> tfs_has_block t \<or> length c = 8) \<and> tfs_positioned t f f1 0 \<and> tfs_limit t = tfs_limit s"
proof (cases "files s f1")
  case None
  with assms create_at_0 [of s f1] f1_name show ?thesis
    by (fastforce simp: writable_def test_path_def)
next
  case (Some c)
  with assms open_at_0 [of s f1 c TFS_O_CREAT] f1_name show ?thesis
    by (fastforce simp: writable_def test_path_def has_flag_def TFS_O_CREAT_def TFS_O_TRUNC_def TFS_O_APPEND_def)
qed

lemma writer_runs:
  assumes s: "writable s" and i: "i < length ts" "ts ! i = thread_func_write"
  shows "\<exists>t. fs_runs (s, ts) [i, i, i] (t, ts[i := Finished]) \<and> readable t"
proof -
  obtain f s1 c where o: "tfs_open test_path TFS_O_CREAT s = Ret (f, s1)" "0 \<le> f" and s1: "tfs_ready s1"
    "files s1 f1 = Some c" "c = [] \<and> tfs_has_block s1 \<or> length c = 8" "tfs_positioned s1 f f1 0" "8 \<le> tfs_limit s1"
    using opened_for_writing [OF s] s by (auto simp: writable_def)
  have room: "c \<noteq> [] \<or> tfs_has_block s1" using s1(3) by auto
  have long: "8 \<le> length file_contents" by (simp add: file_contents_def)
  obtain s2 where w: "tfs_write f file_contents 8 s1 = Ret (8, s2)" and s2: "tfs_ready s2"
    "files s2 f1 = Some (overwrite c 0 (take 8 file_contents))" "tfs_positioned s2 f f1 8" "8 \<le> tfs_limit s2"
    using tfs_write_at [OF s1(1,4,2) le0 _ long _ room] s1(5) by auto
  obtain t where cl: "tfs_close f s2 = Ret (0, t)" and t: "tfs_ready t"
    "files t f1 = Some (overwrite c 0 (take 8 file_contents))" "0 < tfs_spare t" "8 \<le> tfs_limit t"
    using tfs_close_law [OF s2(1,3)] s2 by auto
  have "readable t" using t s1(3) by (auto simp: readable_def writable_def overwrite_def file_contents_def)
  moreover have "fs_runs (s, ts) [i, i, i] (t, ts[i := Finished])"
    by (rule three_calls [OF i(1) i(2) [unfolded thread_func_write_def]]) (use o w cl in auto)
  ultimately show ?thesis by blast
qed

lemma reader_runs:
  assumes s: "readable s" and i: "i < length ts" "ts ! i = thread_func_read"
  shows "\<exists>t. fs_runs (s, ts) [i, i, i] (t, ts[i := Finished]) \<and> readable t"
proof -
  obtain c where c: "files s f1 = Some c" "length c = 8" and r: "tfs_ready s" "0 < tfs_spare s" "8 \<le> tfs_limit s"
    using s by (auto simp: readable_def writable_def)
  obtain f s1 where o: "tfs_open test_path 0 s = Ret (f, s1)" "0 \<le> f" and s1: "tfs_ready s1" "files s1 = files s"
    "tfs_positioned s1 f f1 0" "tfs_limit s1 = tfs_limit s"
    using open_at_0 [OF r(1) c(1) f1_name(1,2) r(2), of 0] by (auto simp: test_path_def)
  obtain b s2 where w: "tfs_read f 8 s1 = Ret ((8, b), s2)" and s2: "tfs_ready s2" "files s2 = files s"
    "tfs_positioned s2 f f1 8" "tfs_limit s2 = tfs_limit s"
    using tfs_store.read_law [OF s1(1,3), of c 8] s1 c by auto
  obtain t where cl: "tfs_close f s2 = Ret (0, t)" and t: "tfs_ready t" "files t = files s" "0 < tfs_spare t"
    "tfs_limit t = tfs_limit s"
    using tfs_close_law [OF s2(1,3)] s2 by auto
  have "readable t" using t c r by (auto simp: readable_def writable_def)
  moreover have "fs_runs (s, ts) [i, i, i] (t, ts[i := Finished])"
    by (rule three_calls [OF i(1) i(2) [unfolded thread_func_read_def]]) (use o w cl in \<open>auto simp: bnd_def ret_def\<close>)
  ultimately show ?thesis by blast
qed

lemma writers_run:
  assumes "writable s" and "ts = thread_func_write # thread_func_write # rest"
  shows "\<exists>t. fs_runs (s, ts) [0, 0, 0, 1, 1, 1] (t, Finished # Finished # rest) \<and> readable t"
proof -
  obtain s1 where 1: "fs_runs (s, ts) [0, 0, 0] (s1, ts[0 := Finished])" "readable s1"
    using writer_runs [OF assms(1), of 0 ts] assms(2) by auto
  then obtain t where 2: "fs_runs (s1, ts[0 := Finished]) [1, 1, 1] (t, ts[0 := Finished, 1 := Finished])" "readable t"
    using writer_runs [of s1 1 "ts[0 := Finished]"] assms(2) by (auto simp: readable_def)
  show ?thesis using fs_runs_append [OF 1(1) 2(1)] 2(2) assms(2) by auto
qed

lemma reader_too_early:
  assumes "tfs_ready s" and "files s f1 = None" and "i < length ts" and "ts ! i = thread_func_read"
  shows "\<exists>t. fs_runs (s, ts) [i] (t, ts[i := Failed])"
proof -
  have s: "fs_inv s" "\<not> g_library_mutex s" "small_files s" using assms(1) by (simp_all add: tfs_ready_def)
  have "open_failed f1 0 s" using assms(2) by (simp add: open_failed_def domIff has_flag_def TFS_O_CREAT_def)
  then obtain t where "run_call (Open test_path 0) s = Ret (-1, t)"
    using tfs_open_files [OF s f1_name(1,2), of 0] by (auto simp: test_path_def)
  from one_call [OF assms(3) assms(4) [unfolded thread_func_read_def] this] show ?thesis
    by (auto simp: asserting_def)
qed

lemma unlinkers_run:
  assumes "readable s"
  shows "\<exists>t. fs_runs (s, [a, b, thread_func_unlink, thread_func_unlink]) [2, 3] (t, [a, b, Finished, Failed])"
proof -
  have s: "fs_inv s" "\<not> g_library_mutex s" "small_files s" "f1 \<in> dom (files s)"
    using assms by (auto simp: readable_def writable_def tfs_ready_def)
  obtain s1 where s1: "run_call (Unlink test_path) s = Ret (0, s1)" "fs_inv s1" "\<not> g_library_mutex s1" "small_files s1"
    "files s1 f1 = None"
    using tfs_unlink_files [OF s(1-3) f1_name(1,2)] s(4) by (auto simp: test_path_def)
  obtain t where t: "run_call (Unlink test_path) s1 = Ret (-1, t)"
    using tfs_unlink_files [OF s1(2-4) f1_name(1,2)] s1(5) by (auto simp: test_path_def domIff)
  note two = numeral_2_eq_2 numeral_3_eq_3
  have 1: "fs_runs (s, [a, b, thread_func_unlink, thread_func_unlink]) [2] (s1, [a, b, Finished, thread_func_unlink])"
    using one_call [OF _ _ s1(1), of 2 "[a, b, thread_func_unlink, thread_func_unlink]"]
    by (simp add: thread_func_unlink_def asserting_def two)
  have 2: "fs_runs (s1, [a, b, Finished, thread_func_unlink]) [3] (t, [a, b, Finished, Failed])"
    using one_call [OF _ _ t, of 3 "[a, b, Finished, thread_func_unlink]"]
    by (simp add: thread_func_unlink_def asserting_def two)
  show ?thesis using fs_runs_append [OF 1 2] by auto
qed

text \<open>
  C36: the tests of several threads depend on the schedule. The readers and writers all finish when they
  run one after the other in the order of their creation; a reader that runs before the first writer
  fails its assertion, since nothing in the test makes it wait for the file. With two threads that unlink
  the one file, the second of them fails when they come after both writers.
\<close>

theorem thread_tests_depend_on_the_schedule:
  assumes "good_heap h tfs_default_params"
  defines "s \<equiv> started h tfs_default_params"
  shows "(\<exists>t. fs_runs (s, read_write_threads) [0, 0, 0, 1, 1, 1, 2, 2, 2, 3, 3, 3] (t, replicate 4 Finished)) \<and>
    (\<exists>t. fs_runs (s, read_write_threads) [2] (t, read_write_threads[2 := Failed])) \<and>
    (\<exists>t. fs_runs (s, write_unlink_threads) [0, 0, 0, 1, 1, 1, 2, 3] (t, [Finished, Finished, Finished, Failed]))"
proof (intro conjI)
  note S = started_state [OF default_params(1) assms(1) _ _ default_params(6) f1_name(3), folded s_def]
  have start: "writable s" using S default_params by (simp add: writable_def)
  show "\<exists>t. fs_runs (s, read_write_threads) [2] (t, read_write_threads[2 := Failed])"
    using reader_too_early [of s 2 read_write_threads] S default_params by (simp add: read_write_threads_def)
  obtain s1 where 1: "fs_runs (s, read_write_threads) [0, 0, 0, 1, 1, 1] (s1, [Finished, Finished, thread_func_read, thread_func_read])"
    "readable s1"
    using writers_run [OF start, of read_write_threads] by (auto simp: read_write_threads_def)
  obtain s2 where 2: "fs_runs (s1, [Finished, Finished, thread_func_read, thread_func_read]) [2, 2, 2]
    (s2, [Finished, Finished, Finished, thread_func_read])" "readable s2"
    using reader_runs [OF 1(2), of 2 "[Finished, Finished, thread_func_read, thread_func_read]"]
    by (auto simp: numeral_2_eq_2)
  obtain t where 3: "fs_runs (s2, [Finished, Finished, Finished, thread_func_read]) [3, 3, 3]
    (t, [Finished, Finished, Finished, Finished])"
    using reader_runs [OF 2(2), of 3 "[Finished, Finished, Finished, thread_func_read]"]
    by (auto simp: numeral_3_eq_3)
  have "replicate 4 Finished = [Finished, Finished, Finished, Finished]" by (simp add: numeral_eq_Suc)
  then show "\<exists>t. fs_runs (s, read_write_threads) [0, 0, 0, 1, 1, 1, 2, 2, 2, 3, 3, 3] (t, replicate 4 Finished)"
    using fs_runs_append [OF fs_runs_append [OF 1(1) 2(1)] 3] by auto
  obtain u where 4: "fs_runs (s, write_unlink_threads) [0, 0, 0, 1, 1, 1] (u, [Finished, Finished, thread_func_unlink, thread_func_unlink])"
    "readable u"
    using writers_run [OF start, of write_unlink_threads] by (auto simp: write_unlink_threads_def)
  show "\<exists>t. fs_runs (s, write_unlink_threads) [0, 0, 0, 1, 1, 1, 2, 3] (t, [Finished, Finished, Finished, Failed])"
    using unlinkers_run [OF 4(2), of Finished Finished] fs_runs_append [OF 4(1)] by fastforce
qed

lemma thread_tests_depend_on_the_schedule_witness:
  "\<exists>t. fs_runs (started demo_heap tfs_default_params, write_unlink_threads) [0, 0, 0, 1, 1, 1, 2, 3]
     (t, [Finished, Finished, Finished, Failed])"
  using thread_tests_depend_on_the_schedule [of demo_heap]
  by (simp add: good_heap_def demo_heap_def)

end
