(* ===== verification/Whole_Run.thy ===== *)
theory Whole_Run imports Box_Log Fs_Tests begin

text \<open>
  The broker from the first line of its \<^verbatim>\<open>main\<close>: it starts with the file system of the default parameters,
  a manager has a box made, and publishers and subscribers follow until \<^verbatim>\<open>select\<close> fails.
\<close>

section \<open>The first box\<close>


section \<open>From main\<close>






end
