(* ===== verification/Spec2Isabelle.thy ===== *)
theory Spec2Isabelle imports C_Prelude Fs_State Fs_Slots Fs_Dir Fs_Ops Fs_Inv Fs_Keep Fs_Start Fs_Files Fs_Props
  Pcq Pcq_Threads Pcq_Props Os Protocol Keeps Broker Clients Broker_Inv Broker_Mutex Box_Store Broker_Boxes
  Broker_Props Broker_Limits Client_Runs Client_Props System System_Props Thread_Broker Thread_Props
  Logging Box_Log Pipes Fs_Threads Fs_Tests Whole_Run begin

text \<open>
  A message system over named pipes. A broker (\<^verbatim>\<open>mbroker/mbroker.c\<close>) keeps boxes of messages as files of
  a small file system in memory, TecnicoFS (\<^verbatim>\<open>fs/state.c\<close>, \<^verbatim>\<open>fs/operations.c\<close>). Publishers
  (\<^verbatim>\<open>publisher/pub.c\<close>) send lines to a box, subscribers (\<^verbatim>\<open>subscriber/sub.c\<close>) receive the messages of a
  box, a manager (\<^verbatim>\<open>manager/manager.c\<close>) creates, removes and lists boxes. Each client makes a pipe of its
  own, writes a request with the name of that pipe to the broker's pipe, and then talks over its own.
  A bounded queue (\<^verbatim>\<open>producer-consumer/producer-consumer.c\<close>) was to hand requests to worker threads; the
  code that starts them is commented out, so the broker creates the queue and destroys it, and one
  thread serves every request in turn.

  \<^bold>\<open>How code is written here.\<close> \<^verbatim>\<open>C_Prelude\<close> has the type \<open>('s, 'a) prog\<close> of code over a state \<open>'s\<close>: it
  returns a value and a state (\<open>Ret\<close>), fails an assertion of \<^verbatim>\<open>utils/betterassert.h\<close> (\<open>Panic\<close>), does
  something C leaves undefined (\<open>Undef\<close>), waits for a mutex nobody will free (\<open>Deadlock\<close>), waits for an
  event that does not come (\<open>Blocked\<close>) or calls \<^verbatim>\<open>exit\<close> (\<open>Exit\<close>). \<open>bnd\<close> and \<open>thn\<close> put such code one after
  the other, \<open>for_loop\<close> is a counted loop. The casts of the code, byte order, C strings and memory blocks
  are there too. \<open>run_simps\<close> collects what each piece of code does on a state where it is defined.

  \<^bold>\<open>The file system.\<close> \<^verbatim>\<open>Fs_State\<close>: tables of inodes, blocks and open files, and directory entries as
  bytes in a block (\<^verbatim>\<open>fs/state.c\<close>, \<^verbatim>\<open>fs/state.h\<close>, \<^verbatim>\<open>fs/config.h\<close>). \<^verbatim>\<open>Fs_Slots\<close>: the three allocation
  tables under one contract, the locale \<open>slot_table\<close>. \<^verbatim>\<open>Fs_Dir\<close>: a directory block as a map, the locale
  \<open>directory\<close>. \<^verbatim>\<open>Fs_Ops\<close>: the calls of \<^verbatim>\<open>fs/operations.c\<close>, with the library's mutex as a flag, since a
  call that returns without unlocking it stops every later one. \<^verbatim>\<open>Fs_Inv\<close>, \<^verbatim>\<open>Fs_Keep\<close>, \<^verbatim>\<open>Fs_Start\<close>: the
  invariant, that every call keeps it, that \<^verbatim>\<open>tfs_init\<close> establishes it. \<^verbatim>\<open>Fs_Files\<close>: the abstract view, a
  map from names to bytes, and the effect of every call on it. \<^verbatim>\<open>Fs_Props\<close>: what each call promises, over
  that view, and the inputs on which the code breaks the promise. That \<^verbatim>\<open>tfs_init\<close> establishes the invariant
  needs the names in the directory block to start as zeros (\<open>good_heap\<close>): \<^verbatim>\<open>malloc\<close> promises that for a block
  area of 128 KiB or more, which it takes from fresh pages (\<open>documented_heap\<close>); the default area has 1 MiB.
  For a smaller one \<open>good_heap\<close> is a condition on what the memory happens to hold. \<^verbatim>\<open>Fs_Threads\<close>: threads over one file
  system, whose calls follow one another in any order since each holds the mutex of the library from its
  first line to its return, and handles of files that are gone. \<^verbatim>\<open>Fs_Tests\<close>: the tests of the repository
  that use calls which exist, and what they come to.

  \<^bold>\<open>The queue.\<close> \<^verbatim>\<open>Pcq\<close>: \<^verbatim>\<open>pcq_enqueue\<close> and \<^verbatim>\<open>pcq_dequeue\<close> as one action per line that can be preempted,
  with five mutexes and two condition variables; run by one thread they meet the contract of the locale
  \<open>bounded_queue\<close>. All threads see one memory, line after line. The code is not free of data races, so for
  C this is a choice: the tests of the size read it under another mutex than the one it is written under
  (shown in \<^verbatim>\<open>Pcq_Props\<close>); everything else is ordered by mutexes. \<^verbatim>\<open>Pcq_Threads\<close>: a step relation for any number of threads, spurious wake-ups included,
  mutual exclusion, no deadlock by mutexes, and the case of one producer and one consumer. \<^verbatim>\<open>Pcq_Props\<close>:
  order, exclusion, progress for any numbers of elements, the data race, and what two consumers do.

  \<^bold>\<open>The processes.\<close> \<^verbatim>\<open>Os\<close>: system calls take their results from a script of events, any script, so that a
  theorem over all scripts speaks of every behaviour of the kernel and of the other side. An answer to \<^verbatim>\<open>read\<close>
  or \<^verbatim>\<open>select\<close> names the descriptor it is for, and the call on another descriptor does not get it: a broker
  that read from the wrong pipe would wait for ever. What is written is recorded in \<open>sent\<close>; memory without
  an initial value holds whatever \<open>uninit\<close> says. \<^verbatim>\<open>Protocol\<close>: codes,
  sizes and messages (\<^verbatim>\<open>utils/structures.h\<close>, the functions that build and parse messages). \<^verbatim>\<open>Broker\<close>:
  every function of \<^verbatim>\<open>mbroker/mbroker.c\<close> in its order; freed nodes of the list are marked, and reading one
  is undefined. \<^verbatim>\<open>Clients\<close>: the three clients from \<^verbatim>\<open>main\<close> down.

  \<^bold>\<open>What is shown of the broker.\<close> \<^verbatim>\<open>Keeps\<close>: when code keeps a property of its state, the locale
  \<open>system_invariant\<close>. \<^verbatim>\<open>Broker_Inv\<close>: the locale \<open>broker_invariant\<close> extends it and derives that every
  function of the broker keeps the property; it is interpreted on the broker's invariant, on the supply of
  events, on the record of what was sent and on uninitialised memory. \<^verbatim>\<open>Broker_Mutex\<close>: the mutex of the
  list. \<^verbatim>\<open>Box_Store\<close>: the locale \<open>box_store\<close>, what the broker needs of the file system, with appending and
  replaying proved from it; its interpretation is the file system. \<^verbatim>\<open>Broker_Boxes\<close>: the messages of a box as
  a list, and what each command does to it. \<^verbatim>\<open>Broker_Props\<close>: the invariant, the free mutex, the loops,
  creating, publishing, replaying, and their composition. \<^verbatim>\<open>Broker_Limits\<close>: inputs on which the code does
  not do what it promises.

  \<^bold>\<open>What is shown of the clients and of the whole.\<close> \<^verbatim>\<open>Client_Runs\<close>: the whole state after each run of a
  client. \<^verbatim>\<open>Client_Props\<close>: messages from one side to the other, and the publisher as a map of its input.
  \<^verbatim>\<open>System\<close> lets programs run on what others wrote: \<open>pipe_messages\<close> is what was written to a pipe, and
  functions such as \<open>publisher_served\<close> and \<open>subscriber_events\<close> turn it into the events its reader takes. A
  message is read in the pieces the reader asks for, and the programs take turns. \<^verbatim>\<open>System_Props\<close>: from the
  publisher's lines to the subscriber's, the manager's requests, and messages that meet in a pipe.
  \<^verbatim>\<open>Box_Log\<close>: the abstract specification of a box, a log with at most one listener, and that any sequence
  of publishers and subscribers served by the broker implements it, on any descriptors \<open>d 0\<close>, \<open>d 1\<close>, ... that
  the kernel gives out (below 1024, the size of an \<^verbatim>\<open>fd_set\<close>; the broker closes none of those it writes old
  messages to). The one difference to the log is the first of the old messages, which is sent from a
  buffer of \<^verbatim>\<open>malloc\<close> that nothing ends with a 0: \<open>all_sent\<close> has what is sent for any contents of the buffers,
  \<open>all_delivered\<close> what the log promises, and they agree where a 0 is right behind that message. \<^verbatim>\<open>Pipes\<close>: the writes of one side and the
  calls of the other in any order, a step relation \<open>arrives\<close>, and that the broker does not depend on it.
  \<^verbatim>\<open>Whole_Run\<close>: the broker from \<^verbatim>\<open>main\<close> to its end, with the box a manager makes, against that log; the name of
  the box runs on into the memory of the manager, up to a 0 (\<open>stored_name\<close>).

  \<^bold>\<open>The second broker.\<close> \<^verbatim>\<open>Thread_Broker\<close>: \<^verbatim>\<open>mbroker_thread.c\<close>, which the Makefile does not compile. It reads a
  request as one message, puts boxes elsewhere into the list, does not send messages when they arrive but
  serves a subscriber without end, and handles SIGINT. Where its code is that of \<^verbatim>\<open>mbroker/mbroker.c\<close> its
  functions are defined as those of \<^verbatim>\<open>Broker\<close>, among them \<^verbatim>\<open>init_mbroker\<close>, which differs in the mode of the
  pipe only.
  \<^verbatim>\<open>Thread_Props\<close>: adding, removing and listing boxes, the two sessions, and the end of \<^verbatim>\<open>main\<close>.

  \<^bold>\<open>The log.\<close> \<^verbatim>\<open>Logging\<close>: the level and the macros of \<^verbatim>\<open>utils/logging.h\<close> over a state of their own; the
  other theories leave their log lines out, since they change nothing else.

  \<^bold>\<open>Bounds and fuel.\<close> The endless loops of \<^verbatim>\<open>main\<close>, of a publisher's session and of the clients take a
  number of rounds, given as one more than the number of events left. A round uses at least one event, so
  the number is enough: \<^verbatim>\<open>Broker_Props\<close> shows that more rounds change nothing and that the loops satisfy
  their equations. The loop of the second broker's \<^verbatim>\<open>main\<close> takes a list that says before
  which tests of \<^verbatim>\<open>stop\<close> the signal came. A loop that uses up all its events is \<open>Blocked\<close>. Loops over lists and tables are structural
  or \<open>for_loop\<close>. Sizes are those of x86-64: \<^verbatim>\<open>int\<close> has 32 bits, \<^verbatim>\<open>size_t\<close> and pointers 64.

  \<^bold>\<open>Not modelled.\<close> Other prints to \<^verbatim>\<open>stderr\<close> and the busy loop \<^verbatim>\<open>insert_delay\<close>. Failing \<^verbatim>\<open>malloc\<close>s where the code does not test for them, and \<^verbatim>\<open>pthread\<close> calls that
  return -1, which they never do. \<^verbatim>\<open>tfs_link\<close>, \<^verbatim>\<open>tfs_sym_link\<close> and \<^verbatim>\<open>tfs_copy_from_external_fs\<close>, which are
  declared and implemented nowhere, and the tests that call them. Of \<^verbatim>\<open>session_thread\<close>, which is commented
  out in \<^verbatim>\<open>mbroker/mbroker.c\<close> and started nowhere in \<^verbatim>\<open>mbroker_thread.c\<close>, only what comes before its first
  undefined read. The branches for EPIPE in \<^verbatim>\<open>mbroker_thread.c\<close>: nothing ignores SIGPIPE, so the signal ends
  the process first (the event \<open>Sigpipe\<close>). Signals that arrive while a request is served. Programs that run
  at the same time: a publisher and the broker on its pipe are in \<^verbatim>\<open>Pipes\<close>, other pairs take turns.
\<close>

end
